(* ===== verification/Prelude.thy ===== *)
theory Prelude
  imports Complex_Main "HOL-Library.Char_ord" "HOL-Library.List_Lexorder" "HOL-Library.Multiset"
begin

text \<open>
  Shared vocabulary of the development: the Go types every component uses, the
  \<^theory_text>\<open>named_theorems\<close> collections, and generic lemmas on lists, options and maps.

  A Go string is a sequence of bytes, so it is a HOL \<^typ>\<open>string\<close> read as bytes. Go's
  \<open>range\<close> over a string yields runes; every loop of the source that ranges over a string
  compares the rune with ASCII characters only, and a rune outside ASCII takes the same branch
  as each of its bytes, all of which are at least 128.  A \<open>time.Time\<close> is its Unix time in
  nanoseconds, an unbounded \<^typ>\<open>int\<close>, with Go's zero time (year 1) as
  \<open>zero_time\<close>.  A \<open>time.Duration\<close> is an \<^typ>\<open>int\<close> of nanoseconds.
\<close>

section \<open>Types and constants\<close>

type_synonym gotime = int
type_synonym duration = int

definition zero_time :: gotime where
  "zero_time = - 62135596800000000000"

definition is_zero_time :: "gotime \<Rightarrow> bool" where
  "is_zero_time t \<longleftrightarrow> t = zero_time"

abbreviation millisecond :: duration where "millisecond \<equiv> 1000000"
abbreviation second :: duration where "second \<equiv> 1000000000"
abbreviation minute :: duration where "minute \<equiv> 60000000000"
abbreviation hour :: duration where "hour \<equiv> 3600000000000"

text \<open>A Go call that may fail: its error, or its value.\<close>

type_synonym 'a result = "string + 'a"

section \<open>Collections\<close>

named_theorems gostr \<open>unfolding the Go string library on concrete strings\<close>
named_theorems ops \<open>definitions of the operations, for unfolding in component proofs\<close>
named_theorems inv_intros \<open>preservation of the invariants by the operations\<close>

section \<open>Maps with a default, as Go reads them\<close>

text \<open>Reading an absent key of a Go map yields the zero value; for strings that is empty.\<close>

definition get_str :: "('k \<rightharpoonup> string) \<Rightarrow> 'k \<Rightarrow> string" where
  "get_str m k = (case m k of None \<Rightarrow> [] | Some v \<Rightarrow> v)"

lemma get_str_upd [simp]: "get_str (m(k \<mapsto> v)) k' = (if k' = k then v else get_str m k')"
  by (simp add: get_str_def)

lemma get_str_empty [simp]: "get_str Map.empty k = []"
  by (simp add: get_str_def)

section \<open>Lists\<close>

text \<open>Dropping elements from the end of a list while they satisfy a predicate and more than
  one element is left: the loop \<open>for len(parts) > 1 && p(parts[len(parts)-1])\<close> that both
  naming components use.\<close>

function trim_last :: "('a \<Rightarrow> bool) \<Rightarrow> 'a list \<Rightarrow> 'a list" where
  "trim_last p xs = (if 1 < length xs \<and> p (last xs) then trim_last p (butlast xs) else xs)"
  by pat_completeness auto
termination by (relation "measure (\<lambda>(p, xs). length xs)") auto

declare trim_last.simps [simp del]

lemma trim_last_stop: "\<not> p (last xs) \<Longrightarrow> trim_last p xs = xs"
  by (simp add: trim_last.simps [of p xs])

lemma trim_last_snoc:
  "trim_last p (xs @ [x]) = (if xs \<noteq> [] \<and> p x then trim_last p xs else xs @ [x])"
  by (simp add: trim_last.simps [of p "xs @ [x]"])

lemma trim_last_nonempty: "xs \<noteq> [] \<Longrightarrow> trim_last p xs \<noteq> []"
proof (induction xs rule: rev_induct)
  case (snoc x xs)
  then show ?case by (simp add: trim_last_snoc)
qed simp

lemma trim_last_hd: "xs \<noteq> [] \<Longrightarrow> hd (trim_last p xs) = hd xs"
proof (induction xs rule: rev_induct)
  case (snoc x xs)
  show ?case
  proof (cases "xs = []")
    case True
    then show ?thesis by (simp add: trim_last.simps [of p "[x]"])
  next
    case False
    with snoc.IH show ?thesis by (simp add: trim_last_snoc)
  qed
qed simp

lemma trim_last_prefix: "\<exists>zs. xs = trim_last p xs @ zs \<and> (\<forall>z \<in> set zs. p z)"
proof (induction xs rule: rev_induct)
  case (snoc x xs)
  show ?case
  proof (cases "xs \<noteq> [] \<and> p x")
    case True
    from snoc.IH obtain zs where "xs = trim_last p xs @ zs" "\<forall>z \<in> set zs. p z" by blast
    then have "xs @ [x] = trim_last p xs @ (zs @ [x])" by simp
    with True \<open>\<forall>z \<in> set zs. p z\<close> show ?thesis
      by (intro exI [of _ "zs @ [x]"]) (auto simp: trim_last_snoc)
  qed (auto simp: trim_last_snoc)
qed (simp add: trim_last.simps)

lemma trim_last_maximal: "1 < length (trim_last p xs) \<Longrightarrow> \<not> p (last (trim_last p xs))"
proof (induction xs rule: rev_induct)
  case (snoc x xs)
  then show ?case by (auto simp: trim_last_snoc split: if_splits)
qed (simp add: trim_last.simps)

lemma trim_last_append:
  "xs \<noteq> [] \<Longrightarrow> \<forall>z \<in> set zs. p z \<Longrightarrow> trim_last p (xs @ zs) = trim_last p xs"
proof (induction zs rule: rev_induct)
  case (snoc z zs)
  then show ?case
    using trim_last_snoc [of p "xs @ zs" z] by simp
qed simp

lemma sum_list_filter_split:
  "length (filter p xs) + length (filter (\<lambda>x. \<not> p x) xs) = length xs"
  by (induction xs) auto

section \<open>Signed 64-bit arithmetic\<close>

text \<open>A Go \<open>int64\<close> is an \<^typ>\<open>int\<close>; \<open>wrap64\<close> is written where a result could leave its range.\<close>

definition wrap64 :: "int \<Rightarrow> int" where
  "wrap64 i = (i + 2 ^ 63) mod 2 ^ 64 - 2 ^ 63"

definition in_int64 :: "int \<Rightarrow> bool" where
  "in_int64 i \<longleftrightarrow> - (2 ^ 63) \<le> i \<and> i < 2 ^ 63"

lemma wrap64_id [simp]: "in_int64 i \<Longrightarrow> wrap64 i = i"
  by (simp add: wrap64_def in_int64_def)

lemma in_int64_wrap [simp]: "in_int64 (wrap64 i)"
  using pos_mod_sign [of "2 ^ 64" "i + 2 ^ 63"] pos_mod_bound [of "2 ^ 64" "i + 2 ^ 63"]
  by (simp add: wrap64_def in_int64_def)

lemma in_int64_zero [simp]: "in_int64 0"
  by (simp add: in_int64_def)

lemma wrap64_sub: "wrap64 (wrap64 a - wrap64 b) = wrap64 (a - b)"
  by (simp add: wrap64_def mod_simps algebra_simps)

lemma wrap64_add: "wrap64 (wrap64 a + b) = wrap64 (a + b)"
  by (simp add: wrap64_def mod_simps algebra_simps)

lemma wrap64_eq_iff: "wrap64 i = i \<longleftrightarrow> in_int64 i"
  by (metis wrap64_id in_int64_wrap)

end
