(* ===== verification/Go_Strings.thy ===== *)
theory Go_Strings
  imports Prelude
begin

text \<open>
  The part of Go's standard library the source uses on strings: \<open>strings.HasPrefix\<close>,
  \<open>TrimSuffix\<close>, \<open>Index\<close>, \<open>Contains\<close>, \<open>Split\<close>, \<open>Join\<close>, \<open>Cut\<close>, \<open>TrimSpace\<close>, \<open>Fields\<close>,
  \<open>ToLower\<close>, and \<open>strconv.Itoa\<close>, \<open>Atoi\<close>, \<open>ParseUint\<close>.  White space and case are those of
  ASCII; Go also knows the Unicode ones, which no test of the source depends on.
\<close>

section \<open>Prefixes, suffixes, searching\<close>

definition has_prefix :: "string \<Rightarrow> string \<Rightarrow> bool" where
  "has_prefix s p \<longleftrightarrow> take (length p) s = p"

definition has_suffix :: "string \<Rightarrow> string \<Rightarrow> bool" where
  "has_suffix s p \<longleftrightarrow> length p \<le> length s \<and> drop (length s - length p) s = p"

definition trim_prefix :: "string \<Rightarrow> string \<Rightarrow> string" where
  "trim_prefix s p = (if has_prefix s p then drop (length p) s else s)"

definition trim_suffix :: "string \<Rightarrow> string \<Rightarrow> string" where
  "trim_suffix s p = (if has_suffix s p then take (length s - length p) s else s)"

text \<open>\<open>strings.CutPrefix\<close>: the rest, when the prefix is there.\<close>

definition cut_prefix :: "string \<Rightarrow> string \<Rightarrow> string option" where
  "cut_prefix s p = (if has_prefix s p then Some (drop (length p) s) else None)"

text \<open>\<open>strings.Index\<close>: the first position of a substring.\<close>

fun index_of :: "string \<Rightarrow> string \<Rightarrow> nat option" where
  "index_of [] p = (if p = [] then Some 0 else None)"
| "index_of (c # cs) p =
     (if has_prefix (c # cs) p then Some 0 else map_option Suc (index_of cs p))"

definition contains :: "string \<Rightarrow> string \<Rightarrow> bool" where
  "contains s p \<longleftrightarrow> index_of s p \<noteq> None"

text \<open>\<open>strings.IndexAny\<close> and \<open>IndexByte\<close>: the first position of a byte of a class.\<close>

fun index_where :: "('a \<Rightarrow> bool) \<Rightarrow> 'a list \<Rightarrow> nat option" where
  "index_where p [] = None"
| "index_where p (c # cs) = (if p c then Some 0 else map_option Suc (index_where p cs))"

declare has_prefix_def [gostr] has_suffix_def [gostr] trim_prefix_def [gostr]
  trim_suffix_def [gostr] cut_prefix_def [gostr] contains_def [gostr]

lemma has_prefix_append [simp]: "has_prefix (p @ s) p"
  by (simp add: has_prefix_def)

lemma has_prefix_iff: "has_prefix s p \<longleftrightarrow> (\<exists>r. s = p @ r)"
  by (metis append_eq_conv_conj append_take_drop_id has_prefix_def)

lemma has_suffix_append [simp]: "has_suffix (s @ p) p"
  by (simp add: has_suffix_def)

lemma has_suffix_iff: "has_suffix s p \<longleftrightarrow> (\<exists>r. s = r @ p)"
proof
  assume "has_suffix s p"
  then show "\<exists>r. s = r @ p"
    by (metis append_take_drop_id has_suffix_def)
qed auto

lemma cut_prefix_Some: "cut_prefix s p = Some r \<longleftrightarrow> s = p @ r"
  by (auto simp: cut_prefix_def has_prefix_iff)

lemma index_of_Some_prefix: "index_of s p = Some i \<Longrightarrow> i \<le> length s \<and> has_prefix (drop i s) p"
  by (induction s arbitrary: i) (auto simp: has_prefix_def split: if_splits)

lemma index_of_None: "index_of s p = None \<Longrightarrow> \<not> has_prefix (drop i s) p"
proof (induction s arbitrary: i)
  case Nil
  then show ?case by (simp add: has_prefix_def split: if_splits)
next
  case (Cons c cs)
  then show ?case by (cases i) (auto split: if_splits)
qed

lemma contains_iff: "contains s p \<longleftrightarrow> (\<exists>a b. s = a @ p @ b)"
proof
  assume "contains s p"
  then obtain i where "has_prefix (drop i s) p"
    using index_of_Some_prefix by (auto simp: contains_def)
  then obtain r where "drop i s = p @ r" by (auto simp: has_prefix_iff)
  then show "\<exists>a b. s = a @ p @ b" by (metis append_take_drop_id)
next
  assume "\<exists>a b. s = a @ p @ b"
  then obtain a b where "s = a @ p @ b" by blast
  then have "has_prefix (drop (length a) s) p" by simp
  then show "contains s p" using index_of_None by (auto simp: contains_def)
qed

lemma contains_set: "contains s p \<Longrightarrow> set p \<subseteq> set s"
  by (auto simp: contains_iff)

lemma contains_refl [simp]: "contains s s"
  unfolding contains_iff by (metis append_Nil append_Nil2)

lemma index_where_None: "index_where p xs = None \<longleftrightarrow> (\<forall>x \<in> set xs. \<not> p x)"
  by (induction xs) auto

lemma take_index_where:
  "index_where p xs = Some i \<Longrightarrow> i < length xs \<and> p (xs ! i) \<and> (\<forall>x \<in> set (take i xs). \<not> p x)"
  by (induction xs arbitrary: i) (auto split: if_splits)

section \<open>Split, join, cut\<close>

fun split_on :: "char \<Rightarrow> string \<Rightarrow> string list" where
  "split_on c [] = [[]]"
| "split_on c (x # xs) =
     (if x = c then [] # split_on c xs
      else (case split_on c xs of [] \<Rightarrow> [[x]] | y # ys \<Rightarrow> (x # y) # ys))"

fun join :: "string \<Rightarrow> string list \<Rightarrow> string" where
  "join sep [] = []"
| "join sep [x] = x"
| "join sep (x # y # ys) = x @ sep @ join sep (y # ys)"

text \<open>\<open>strings.Cut\<close> at a one-byte separator: before, after, found.\<close>

fun cut :: "char \<Rightarrow> string \<Rightarrow> string \<times> string \<times> bool" where
  "cut c [] = ([], [], False)"
| "cut c (x # xs) =
     (if x = c then ([], xs, True)
      else (case cut c xs of (a, b, f) \<Rightarrow> (x # a, b, f)))"

lemma split_on_nonempty [simp]: "split_on c s \<noteq> []"
  by (induction s) (auto split: list.splits)

lemma split_on_no_sep: "c \<notin> set s \<Longrightarrow> split_on c s = [s]"
  by (induction s) auto

lemma split_on_append:
  "c \<notin> set s \<Longrightarrow> split_on c (s @ c # t) = s # split_on c t"
  by (induction s) auto

lemma join_Cons: "xs \<noteq> [] \<Longrightarrow> join sep (x # xs) = x @ sep @ join sep xs"
  by (cases xs) auto

lemma join_split_on [simp]: "join [c] (split_on c s) = s"
proof (induction s)
  case (Cons x s)
  then show ?case
    by (cases "split_on c s") (auto simp: join_Cons, metis append_Cons join.simps(2,3) neq_Nil_conv)
qed simp

lemma split_on_join:
  "xs \<noteq> [] \<Longrightarrow> \<forall>x \<in> set xs. c \<notin> set x \<Longrightarrow> split_on c (join [c] xs) = xs"
proof (induction xs)
  case (Cons x xs)
  then show ?case
    by (cases "xs = []") (auto simp: join_Cons split_on_no_sep split_on_append)
qed simp

lemma split_on_parts: "p \<in> set (split_on c s) \<Longrightarrow> c \<notin> set p"
proof (induction s arbitrary: p)
  case (Cons x s)
  then show ?case
    by (cases "split_on c s") (auto split: if_splits)
qed simp

lemma set_split_on_subset: "p \<in> set (split_on c s) \<Longrightarrow> set p \<subseteq> set s"
proof (induction s arbitrary: p)
  case (Cons x s)
  then show ?case
    by (cases "split_on c s") (fastforce split: if_splits)+
qed simp

lemma set_join: "set (join sep xs) \<subseteq> set sep \<union> (\<Union>x \<in> set xs. set x)"
proof (induction xs)
  case (Cons x xs)
  then show ?case by (cases xs) auto
qed simp

lemma cut_found: "c \<notin> set a \<Longrightarrow> cut c (a @ c # b) = (a, b, True)"
  by (induction a) auto

lemma cut_not_found: "c \<notin> set s \<Longrightarrow> cut c s = (s, [], False)"
  by (induction s) auto

section \<open>White space, case\<close>

definition is_space :: "char \<Rightarrow> bool" where
  "is_space c \<longleftrightarrow> c \<in> {CHR '' '', CHR 0x09, CHR 0x0A, CHR 0x0B, CHR 0x0C, CHR 0x0D}"

definition trim_right :: "(char \<Rightarrow> bool) \<Rightarrow> string \<Rightarrow> string" where
  "trim_right p s = rev (dropWhile p (rev s))"

definition trim_both :: "(char \<Rightarrow> bool) \<Rightarrow> string \<Rightarrow> string" where
  "trim_both p s = trim_right p (dropWhile p s)"

definition trim_space :: "string \<Rightarrow> string" where
  "trim_space s = trim_both is_space s"

fun fields_go :: "string \<Rightarrow> string \<Rightarrow> string list" where
  "fields_go w [] = (if w = [] then [] else [rev w])"
| "fields_go w (c # cs) =
     (if is_space c then (if w = [] then fields_go [] cs else rev w # fields_go [] cs)
      else fields_go (c # w) cs)"

text \<open>\<open>strings.Fields\<close>: the maximal runs of non-space bytes.\<close>

definition split_fields :: "string \<Rightarrow> string list" where
  "split_fields s = fields_go [] s"

definition lower_char :: "char \<Rightarrow> char" where
  "lower_char c =
     (if CHR ''A'' \<le> c \<and> c \<le> CHR ''Z'' then char_of (of_char c + 32 :: nat) else c)"

definition to_lower :: "string \<Rightarrow> string" where
  "to_lower s = map lower_char s"

declare trim_right_def [gostr] trim_both_def [gostr] trim_space_def [gostr]
  split_fields_def [gostr] to_lower_def [gostr] is_space_def [gostr]

lemma trim_right_id: "s = [] \<or> \<not> p (last s) \<Longrightarrow> trim_right p s = s"
  by (cases s rule: rev_cases) (auto simp: trim_right_def)

lemma trim_both_id: "s = [] \<or> \<not> p (hd s) \<and> \<not> p (last s) \<Longrightarrow> trim_both p s = s"
  by (cases s) (auto simp: trim_both_def trim_right_id)

lemma set_trim_right: "set (trim_right p s) \<subseteq> set s"
  by (auto simp: trim_right_def dest: set_dropWhileD)

lemma set_trim_both: "set (trim_both p s) \<subseteq> set s"
  unfolding trim_both_def using set_trim_right [of p "dropWhile p s"] by (meson set_dropWhileD subset_iff)

lemma trim_right_last: "trim_right p s \<noteq> [] \<Longrightarrow> \<not> p (last (trim_right p s))"
  unfolding trim_right_def by (metis hd_dropWhile last_rev rev.simps(1))

lemma trim_right_hd: "trim_right p s \<noteq> [] \<Longrightarrow> hd (trim_right p s) = hd s"
proof (induction s rule: rev_induct)
  case (snoc x xs)
  then show ?case by (cases xs) (auto simp: trim_right_def)
qed (simp add: trim_right_def)

lemma trim_both_ends:
  assumes "trim_both p s \<noteq> []"
  shows "\<not> p (hd (trim_both p s))" and "\<not> p (last (trim_both p s))"
proof -
  from assms have "dropWhile p s \<noteq> []" 
    by (metis rev.simps(1) dropWhile.simps(1) trim_both_def trim_right_def)
  then have "\<not> p (hd (dropWhile p s))" by (rule hd_dropWhile)
  with assms show "\<not> p (hd (trim_both p s))" by (simp add: trim_both_def trim_right_hd)
  from assms show "\<not> p (last (trim_both p s))" by (simp add: trim_both_def trim_right_last)
qed

section \<open>Numbers\<close>

definition is_digit :: "char \<Rightarrow> bool" where
  "is_digit c \<longleftrightarrow> CHR ''0'' \<le> c \<and> c \<le> CHR ''9''"

definition digit_char :: "nat \<Rightarrow> char" where
  "digit_char d = char_of (48 + d)"

definition digit_val :: "char \<Rightarrow> nat" where
  "digit_val c = of_char c - 48"

fun dec_nat :: "nat \<Rightarrow> string" where
  "dec_nat n = (if n < 10 then [digit_char n] else dec_nat (n div 10) @ [digit_char (n mod 10)])"

declare dec_nat.simps [simp del]

text \<open>\<open>strconv.Itoa\<close> and the \<open>%d\<close> verb.\<close>

definition itoa :: "int \<Rightarrow> string" where
  "itoa i = (if i < 0 then CHR ''-'' # dec_nat (nat (- i)) else dec_nat (nat i))"

definition val_dec :: "string \<Rightarrow> nat" where
  "val_dec s = foldl (\<lambda>n c. 10 * n + digit_val c) 0 s"

text \<open>\<open>strconv.ParseUint(s, 10, bits)\<close>.\<close>

definition parse_uint10 :: "nat \<Rightarrow> string \<Rightarrow> nat option" where
  "parse_uint10 bits s =
     (if s \<noteq> [] \<and> list_all is_digit s \<and> int (val_dec s) < 2 ^ bits then Some (val_dec s) else None)"

text \<open>\<open>strconv.Atoi\<close> and \<open>ParseInt(s, 10, 64)\<close>: an optional sign, then digits, in the range
  of a 64-bit integer.\<close>

definition atoi :: "string \<Rightarrow> int option" where
  "atoi s =
     (let (neg, ds) = (case s of [] \<Rightarrow> (False, s)
                        | c # cs \<Rightarrow> if c = CHR ''-'' then (True, cs)
                                    else if c = CHR ''+'' then (False, cs) else (False, s))
      in if ds \<noteq> [] \<and> list_all is_digit ds \<and>
            (if neg then int (val_dec ds) \<le> 2 ^ 63 else int (val_dec ds) < 2 ^ 63)
         then Some (if neg then - int (val_dec ds) else int (val_dec ds)) else None)"

text \<open>The value \<open>strconv.Atoi\<close> returns beside its error: zero for malformed text, the nearest bound
  for a number out of range.  Code that ignores the error sees this value.\<close>

definition atoi_val :: "string \<Rightarrow> int" where
  "atoi_val s =
     (let (neg, ds) = (case s of [] \<Rightarrow> (False, s)
                        | c # cs \<Rightarrow> if c = CHR ''-'' then (True, cs)
                                    else if c = CHR ''+'' then (False, cs) else (False, s))
      in if ds = [] \<or> \<not> list_all is_digit ds then 0
         else if neg then max (- (2 ^ 63)) (- int (val_dec ds))
         else min (2 ^ 63 - 1) (int (val_dec ds)))"

lemma atoi_val_Some: "atoi s = Some i \<Longrightarrow> atoi_val s = i"
  by (auto simp: atoi_def atoi_val_def Let_def max_def min_def split: if_splits prod.splits)

definition hex_val :: "char \<Rightarrow> nat option" where
  "hex_val c =
     (if CHR ''0'' \<le> c \<and> c \<le> CHR ''9'' then Some (of_char c - 48)
      else if CHR ''a'' \<le> c \<and> c \<le> CHR ''f'' then Some (of_char c - 87)
      else if CHR ''A'' \<le> c \<and> c \<le> CHR ''F'' then Some (of_char c - 55)
      else None)"

definition is_hex :: "char \<Rightarrow> bool" where
  "is_hex c \<longleftrightarrow> hex_val c \<noteq> None"

definition val_hex :: "string \<Rightarrow> nat" where
  "val_hex s = foldl (\<lambda>n c. 16 * n + (case hex_val c of None \<Rightarrow> 0 | Some d \<Rightarrow> d)) 0 s"

text \<open>\<open>strconv.ParseUint(s, 16, bits)\<close>.\<close>

definition parse_uint16 :: "nat \<Rightarrow> string \<Rightarrow> nat option" where
  "parse_uint16 bits s =
     (if s \<noteq> [] \<and> list_all is_hex s \<and> int (val_hex s) < 2 ^ bits then Some (val_hex s) else None)"

declare is_digit_def [gostr] digit_char_def [gostr] digit_val_def [gostr] itoa_def [gostr]
  val_dec_def [gostr] parse_uint10_def [gostr] atoi_def [gostr] hex_val_def [gostr]
  is_hex_def [gostr] val_hex_def [gostr] parse_uint16_def [gostr]

lemma of_char_digit [simp]: "d < 10 \<Longrightarrow> of_char (digit_char d) = 48 + d"
  by (simp add: digit_char_def)

lemma digit_val_digit [simp]: "d < 10 \<Longrightarrow> digit_val (digit_char d) = d"
  by (simp add: digit_val_def)

lemma is_digit_digit [simp]: "d < 10 \<Longrightarrow> is_digit (digit_char d)"
  by (simp add: is_digit_def less_eq_char_def)

lemma dec_nat_digits: "list_all is_digit (dec_nat n)"
  by (induction n rule: dec_nat.induct) (subst dec_nat.simps, simp)

lemma dec_nat_nonempty [simp]: "dec_nat n \<noteq> []"
  by (subst dec_nat.simps) simp

lemma val_dec_dec_nat [simp]: "val_dec (dec_nat n) = n"
proof (induction n rule: dec_nat.induct)
  case (1 n)
  then show ?case
    by (subst dec_nat.simps) (auto simp: val_dec_def)
qed

lemma dec_nat_inj: "dec_nat m = dec_nat n \<Longrightarrow> m = n"
  by (metis val_dec_dec_nat)

lemma not_digit_in_dec_nat: "\<not> is_digit c \<Longrightarrow> c \<notin> set (dec_nat n)"
  using dec_nat_digits [of n] by (auto simp: list_all_iff)

lemma minus_not_digit [simp]: "\<not> is_digit (CHR ''-'')" "\<not> is_digit (CHR ''+'')"
  by (simp_all add: is_digit_def less_eq_char_def)

lemma minus_notin_dec_nat [simp]: "CHR ''-'' \<notin> set (dec_nat n)"
  by (simp add: not_digit_in_dec_nat)

lemma itoa_inj: "itoa i = itoa j \<Longrightarrow> i = j"
proof -
  assume eq: "itoa i = itoa j"
  have no: "dec_nat n \<noteq> CHR ''-'' # xs" for n xs
    by (metis list.set_intros(1) minus_notin_dec_nat)
  from eq show "i = j"
    by (auto simp: itoa_def no no [symmetric] split: if_splits dest!: dec_nat_inj)
qed

lemma atoi_itoa: "- (2 ^ 63) \<le> i \<Longrightarrow> i < 2 ^ 63 \<Longrightarrow> atoi (itoa i) = Some i"
proof -
  assume r: "- (2 ^ 63) \<le> i" "i < 2 ^ 63"
  have hd: "dec_nat n = c # cs \<Longrightarrow> c \<noteq> CHR ''-'' \<and> c \<noteq> CHR ''+''" for n c cs
    using dec_nat_digits [of n] by (auto simp del: One_nat_def)
  show "atoi (itoa i) = Some i"
  proof (cases "i < 0")
    case True
    with r show ?thesis by (simp add: atoi_def itoa_def dec_nat_digits nat_le_iff)
  next
    case False
    obtain c cs where cs: "dec_nat (nat i) = c # cs" by (meson dec_nat_nonempty list.exhaust)
    have "nat i < 2 ^ 63" using r False by (simp add: nat_less_iff)
    with False cs hd [OF cs] show ?thesis
      using dec_nat_digits [of "nat i"] val_dec_dec_nat [of "nat i"]
      by (simp add: atoi_def itoa_def)
  qed
qed

end
