(* ===== verification/Spans.thy ===== *)
theory Spans
  imports Go_Strings "HOL-Library.Word"
begin

text \<open>
  Package \<open>internal/model\<close>: identifiers and their hexadecimal form, spans, events and metrics.
  An identifier \<open>[16]byte\<close> or \<open>[8]byte\<close> is a byte list whose length is the array's; the JSON
  string layer of \<open>encoding/json\<close> is not modelled, only the text between the quotes.
\<close>

section \<open>Bytes and hexadecimal text\<close>

type_synonym bytes = "8 word list"

definition hex_digit :: "nat \<Rightarrow> char" where
  "hex_digit d = (if d < 10 then char_of (48 + d) else char_of (87 + d))"

text \<open>\<open>hex.EncodeToString\<close>: two lower-case digits a byte, high nibble first.\<close>

fun hex_encode :: "bytes \<Rightarrow> string" where
  "hex_encode [] = []"
| "hex_encode (b # bs) = hex_digit (unat b div 16) # hex_digit (unat b mod 16) # hex_encode bs"

text \<open>\<open>hex.DecodeString\<close>: fails on an odd length and on any byte that is not a hex digit.\<close>

fun hex_decode :: "string \<Rightarrow> bytes option" where
  "hex_decode [] = Some []"
| "hex_decode [c] = None"
| "hex_decode (c # d # cs) =
     (case (hex_val c, hex_val d, hex_decode cs) of
        (Some h, Some l, Some bs) \<Rightarrow> Some (word_of_nat (16 * h + l) # bs)
      | _ \<Rightarrow> None)"

lemma hex_val_hex_digit [simp]: "d < 16 \<Longrightarrow> hex_val (hex_digit d) = Some d"
  by (auto simp: hex_val_def hex_digit_def less_eq_char_def)

lemma unat_byte_lt [simp]: "unat (b :: 8 word) < 256"
  using unsigned_less [of b, where ?'a = nat] by simp

lemma hex_decode_encode [simp]: "hex_decode (hex_encode bs) = Some bs"
proof (induction bs)
  case (Cons b bs)
  have "unat b div 16 < 16" using unat_byte_lt [of b] by linarith
  with Cons show ?case by (simp add: mult_div_mod_eq)
qed simp

lemma length_hex_encode [simp]: "length (hex_encode bs) = 2 * length bs"
  by (induction bs) auto

lemma hex_decode_length: "hex_decode s = Some bs \<Longrightarrow> length s = 2 * length bs"
  by (induction s arbitrary: bs rule: hex_decode.induct) (auto split: option.splits)

lemma hex_encode_inj: "hex_encode a = hex_encode b \<Longrightarrow> a = b"
  by (metis hex_decode_encode option.inject)

text \<open>A 64-bit value read as signed is not negative exactly when its top bit is clear.\<close>

lemma sint_nonneg_iff: "0 \<le> sint (w :: 64 word) \<longleftrightarrow> uint w < 2 ^ 63"
proof -
  have lt: "uint w < 2 ^ 64" and ge: "0 \<le> uint w" using uint_lt2p [of w] by simp_all
  have "sint w = signed_take_bit 63 (uint w)" by (simp add: sint_uint)
  then have "0 \<le> sint w \<longleftrightarrow> \<not> bit (uint w) 63" by (simp add: signed_take_bit_nonnegative_iff)
  also have "\<dots> \<longleftrightarrow> even (uint w div 2 ^ 63)" by (simp add: bit_iff_odd)
  also have "\<dots> \<longleftrightarrow> uint w < 2 ^ 63"
  proof (cases "uint w < 2 ^ 63")
    case True
    with ge show ?thesis by (simp add: div_pos_pos_trivial)
  next
    case False
    with lt have "uint w div 2 ^ 63 = 1" by (intro int_div_pos_eq [of _ _ _ "uint w - 2 ^ 63"]) auto
    with False show ?thesis by simp
  qed
  finally show ?thesis .
qed

section \<open>Identifiers\<close>

text \<open>Which identifier a malformed text was meant to be: \<open>IDError\<close>.\<close>

record id_error =
  kind :: string
  badval :: string

definition id_error_text :: "id_error \<Rightarrow> string" where
  "id_error_text e = ''invalid '' @ kind e @ '' id: '' @ badval e"

definition is_zero_bytes :: "bytes \<Rightarrow> bool" where
  "is_zero_bytes b \<longleftrightarrow> list_all (\<lambda>v. v = 0) b"

abbreviation zero_trace_id :: bytes where "zero_trace_id \<equiv> replicate 16 0"
abbreviation zero_span_id :: bytes where "zero_span_id \<equiv> replicate 8 0"

definition parse_id :: "string \<Rightarrow> nat \<Rightarrow> string \<Rightarrow> id_error + bytes" where
  "parse_id k n s =
     (case hex_decode s of
        None \<Rightarrow> Inl \<lparr>kind = k, badval = s\<rparr>
      | Some b \<Rightarrow> if length b \<noteq> n then Inl \<lparr>kind = k, badval = s\<rparr> else Inr b)"

definition parse_trace_id :: "string \<Rightarrow> id_error + bytes" where
  "parse_trace_id s = parse_id ''trace'' 16 s"

definition parse_span_id :: "string \<Rightarrow> id_error + bytes" where
  "parse_span_id s = parse_id ''span'' 8 s"

definition marshal_hex_id :: "bytes \<Rightarrow> bool \<Rightarrow> string" where
  "marshal_hex_id raw empty_when_zero =
     (if empty_when_zero \<and> is_zero_bytes raw then [] else hex_encode raw)"

definition unmarshal_hex_id :: "string \<Rightarrow> nat \<Rightarrow> string \<Rightarrow> id_error + bytes" where
  "unmarshal_hex_id s n k = (if s = [] then Inr (replicate n 0) else parse_id k n s)"

definition marshal_trace_id :: "bytes \<Rightarrow> string" where
  "marshal_trace_id t = marshal_hex_id t False"

definition unmarshal_trace_id :: "string \<Rightarrow> id_error + bytes" where
  "unmarshal_trace_id s = unmarshal_hex_id s 16 ''trace''"

definition marshal_span_id :: "bytes \<Rightarrow> string" where
  "marshal_span_id s = marshal_hex_id s True"

definition unmarshal_span_id :: "string \<Rightarrow> id_error + bytes" where
  "unmarshal_span_id s = unmarshal_hex_id s 8 ''span''"

lemmas id_defs = parse_id_def parse_trace_id_def parse_span_id_def marshal_hex_id_def
  unmarshal_hex_id_def marshal_trace_id_def unmarshal_trace_id_def marshal_span_id_def
  unmarshal_span_id_def

lemma is_zero_bytes_iff: "is_zero_bytes b \<longleftrightarrow> b = replicate (length b) 0"
  unfolding is_zero_bytes_def list_all_iff
  by (metis in_set_replicate replicate_length_same)

lemma parse_id_hex: "length b = n \<Longrightarrow> parse_id k n (hex_encode b) = Inr b"
  by (simp add: parse_id_def)

lemma parse_id_length: "parse_id k n s = Inr b \<Longrightarrow> length b = n \<and> length s = 2 * n"
  by (auto simp: parse_id_def hex_decode_length split: option.splits if_splits)

text \<open>What both identifier types promise: a text form of a byte array of fixed size that
  decodes to the array it came from, and a decoder whose results have that size.\<close>

locale id_codec =
  fixes size :: nat
    and put :: "bytes \<Rightarrow> string"
    and get :: "string \<Rightarrow> id_error + bytes"
  assumes get_put: "length b = size \<Longrightarrow> get (put b) = Inr b"
    and get_size: "get s = Inr b \<Longrightarrow> length b = size"
begin

lemma put_inj: "length a = size \<Longrightarrow> length b = size \<Longrightarrow> put a = put b \<Longrightarrow> a = b"
  by (metis get_put sum.inject(2))

lemma get_fixpoint: "get s = Inr b \<Longrightarrow> get (put b) = Inr b"
  using get_put get_size by blast

end

interpretation trace_codec: id_codec 16 marshal_trace_id unmarshal_trace_id
proof
  fix b :: bytes assume "length b = 16"
  then have "hex_encode b \<noteq> []" by (metis length_0_conv length_hex_encode mult_eq_0_iff zero_neq_numeral)
  with \<open>length b = 16\<close> show "unmarshal_trace_id (marshal_trace_id b) = Inr b"
    by (simp add: id_defs)
next
  fix s b assume "unmarshal_trace_id s = Inr b"
  then show "length b = 16"
    by (auto simp: unmarshal_trace_id_def unmarshal_hex_id_def dest: parse_id_length split: if_splits)
qed

interpretation span_codec: id_codec 8 marshal_span_id unmarshal_span_id
proof
  fix b :: bytes assume len: "length b = 8"
  then have "hex_encode b \<noteq> []" by (metis length_0_conv length_hex_encode mult_eq_0_iff zero_neq_numeral)
  with len is_zero_bytes_iff [of b] show "unmarshal_span_id (marshal_span_id b) = Inr b"
    by (auto simp: id_defs)
next
  fix s b assume "unmarshal_span_id s = Inr b"
  then show "length b = 8"
    by (auto simp: unmarshal_span_id_def unmarshal_hex_id_def dest: parse_id_length split: if_splits)
qed

section \<open>Spans and events\<close>

datatype span_kind = KindUnspecified | KindInternal | KindServer | KindClient | KindProducer
  | KindConsumer | KindOther int

text \<open>The \<open>int8\<close> values the constants stand for; \<open>model.SpanKind(k)\<close> is a cast that keeps
  any other value, which prints as unspecified.\<close>

definition span_kind_of :: "int \<Rightarrow> span_kind" where
  "span_kind_of k =
     (if k = 0 then KindUnspecified else if k = 1 then KindInternal else if k = 2 then KindServer
      else if k = 3 then KindClient else if k = 4 then KindProducer else if k = 5 then KindConsumer
      else KindOther k)"

fun span_kind_name :: "span_kind \<Rightarrow> string" where
  "span_kind_name KindInternal = ''internal''"
| "span_kind_name KindServer = ''server''"
| "span_kind_name KindClient = ''client''"
| "span_kind_name KindProducer = ''producer''"
| "span_kind_name KindConsumer = ''consumer''"
| "span_kind_name _ = ''unspecified''"

datatype status_code = StatusUnset | StatusOK | StatusError | StatusOther int

definition status_code_of :: "int \<Rightarrow> status_code" where
  "status_code_of k =
     (if k = 0 then StatusUnset else if k = 1 then StatusOK else if k = 2 then StatusError
      else StatusOther k)"

fun status_code_name :: "status_code \<Rightarrow> string" where
  "status_code_name StatusOK = ''ok''"
| "status_code_name StatusError = ''error''"
| "status_code_name _ = ''unset''"

record event =
  ev_timestamp :: gotime
  ev_name :: string
  ev_attributes :: "string \<rightharpoonup> string"

record span =
  timestamp :: gotime
  span_duration :: "64 word"
  trace_id :: bytes
  span_id :: bytes
  parent_span_id :: bytes
  service :: string
  operation :: string
  span_kind :: span_kind
  status :: status_code
  status_message :: string
  http_method :: string
  http_route :: string
  http_status :: int
  db_system :: string
  db_statement :: string
  db_name :: string
  peer_service :: string
  host_name :: string
  pid :: int
  runtime :: string
  attributes :: "string \<rightharpoonup> string"
  events :: "event list"

definition is_root :: "span \<Rightarrow> bool" where
  "is_root s \<longleftrightarrow> is_zero_bytes (parent_span_id s)"

definition is_error :: "span \<Rightarrow> bool" where
  "is_error s \<longleftrightarrow> (if status s = StatusError then True else 500 \<le> http_status s)"

text \<open>A \<open>time.Duration\<close> is a signed 64-bit count of nanoseconds.\<close>

definition end_time :: "span \<Rightarrow> gotime" where
  "end_time s = timestamp s + sint (span_duration s)"

fun first_exception :: "event list \<Rightarrow> string" where
  "first_exception [] = []"
| "first_exception (ev # evs) =
     (if ev_name ev = ''exception'' \<and> get_str (ev_attributes ev) ''exception.type'' \<noteq> []
      then get_str (ev_attributes ev) ''exception.type''
      else first_exception evs)"

definition exception_type :: "span \<Rightarrow> string" where
  "exception_type s = first_exception (events s)"

section \<open>Metrics\<close>

datatype metric_kind = KindGauge | KindSum | KindHistogram

fun metric_kind_name :: "metric_kind \<Rightarrow> string" where
  "metric_kind_name KindSum = ''sum''"
| "metric_kind_name KindHistogram = ''histogram''"
| "metric_kind_name KindGauge = ''gauge''"

text \<open>A \<open>float64\<close>: a rational, an infinity or not a number.  Arithmetic on finite values is
  exact in the model; rounding is not represented.\<close>

datatype f64 = Fin rat | PosInf | NegInf | NaN

record bucket =
  upper_bound :: f64
  bucket_count :: "64 word"

definition is_unbounded :: "bucket \<Rightarrow> bool" where
  "is_unbounded b \<longleftrightarrow> upper_bound b = PosInf"

text \<open>The wire form of a bucket: an unbounded bound is written as null.  A bound that is not a
  number or negative infinity has no JSON encoding, and marshalling fails.\<close>

record bucket_json =
  json_bound :: "f64 option"
  json_count :: "64 word"

definition marshal_bucket :: "bucket \<Rightarrow> bucket_json option" where
  "marshal_bucket b =
     (if upper_bound b = PosInf then Some \<lparr>json_bound = None, json_count = bucket_count b\<rparr>
      else (case upper_bound b of
              Fin x \<Rightarrow> Some \<lparr>json_bound = Some (Fin x), json_count = bucket_count b\<rparr>
            | _ \<Rightarrow> None))"

definition unmarshal_bucket :: "bucket_json \<Rightarrow> bucket" where
  "unmarshal_bucket j =
     (case json_bound j of
        None \<Rightarrow> \<lparr>upper_bound = PosInf, bucket_count = json_count j\<rparr>
      | Some x \<Rightarrow> \<lparr>upper_bound = x, bucket_count = json_count j\<rparr>)"

record metric =
  m_timestamp :: gotime
  m_name :: string
  m_kind :: metric_kind
  m_service :: string
  m_host_name :: string
  m_pid :: int
  m_value :: f64
  m_count :: "64 word"
  m_sum :: f64
  m_buckets :: "bucket list"
  m_unit :: string
  m_attributes :: "string \<rightharpoonup> string"

definition metric_is_zero :: "metric \<Rightarrow> bool" where
  "metric_is_zero m \<longleftrightarrow> m_name m = [] \<or> is_zero_time (m_timestamp m)"

lemma unmarshal_marshal_bucket: "marshal_bucket b = Some j \<Longrightarrow> unmarshal_bucket j = b"
  by (auto simp: marshal_bucket_def unmarshal_bucket_def split: if_splits f64.splits)

section \<open>Properties\<close>

text \<open>(round trip of identifiers) A span id survives its JSON form, the zero id by way of
  the empty string, and distinct ids have distinct texts; the text that encodes a trace id is
  accepted by \<open>ParseTraceID\<close> and gives the id back.\<close>

theorem id_roundtrip:
  "length s = 8 \<and> length s' = 8 \<and> length t = 16 \<Longrightarrow>
     unmarshal_span_id (marshal_span_id s) = Inr s \<and>
     (marshal_span_id s = marshal_span_id s' \<longleftrightarrow> s = s') \<and>
     (marshal_span_id s = [] \<longleftrightarrow> s = zero_span_id) \<and>
     unmarshal_trace_id (marshal_trace_id t) = Inr t \<and>
     parse_trace_id (marshal_trace_id t) = Inr t"
proof -
  assume a: "length s = 8 \<and> length s' = 8 \<and> length t = 16"
  then have "hex_encode s \<noteq> []" by (metis length_0_conv length_hex_encode mult_eq_0_iff zero_neq_numeral)
  moreover have "is_zero_bytes s \<longleftrightarrow> s = zero_span_id" using a is_zero_bytes_iff [of s] by simp
  ultimately have "marshal_span_id s = [] \<longleftrightarrow> s = zero_span_id"
    by (simp add: marshal_span_id_def marshal_hex_id_def)
  with a show ?thesis
    using span_codec.get_put [of s] span_codec.put_inj [of s s'] trace_codec.get_put [of t]
    by (auto simp: parse_trace_id_def marshal_trace_id_def marshal_hex_id_def parse_id_hex)
qed

theorem id_roundtrip_witness:
  "unmarshal_span_id (marshal_span_id [1, 2, 3, 4, 5, 6, 7, 255]) = Inr [1, 2, 3, 4, 5, 6, 7, 255]"
  using id_roundtrip [of "[1, 2, 3, 4, 5, 6, 7, 255]" zero_span_id zero_trace_id] by simp

end
