(* ===== verification/Config.thy ===== *)
theory Config
  imports Spans
begin

text \<open>
  Package \<open>internal/config\<close>: the configuration document, its defaults, the \<open>APM2GO_*\<close>
  environment overrides, and \<open>Validate\<close>.  The YAML parser (gopkg.in/yaml.v3), the file system
  and the two number parsers \<open>time.ParseDuration\<close> and \<open>strconv.ParseFloat\<close> are parameters.
\<close>

section \<open>The document\<close>

record log_config =
  log_level :: string
  log_format :: string

record discovery_config =
  disc_enabled :: bool
  disc_interval :: duration
  proc_root :: string
  includes_any :: "string list"
  excludes_any :: "string list"
  min_uptime :: duration
  docker_socket :: string

datatype container_bind = BindOff | BindAuto | BindAll | BindOther string

definition container_bind_of :: "string \<Rightarrow> container_bind" where
  "container_bind_of s =
     (if s = ''off'' then BindOff else if s = ''auto'' then BindAuto
      else if s = ''all'' then BindAll else BindOther s)"

record attach_config =
  auto_attach :: bool
  attach_timeout :: duration
  retry_backoff :: duration
  max_retries :: int
  sample_ratio :: f64
  otlp_endpoint :: string
  container_otlp_endpoint :: string
  agent_logging :: string
  metrics_enabled :: bool
  metrics_interval :: duration
  attach_container_bind :: container_bind
  attach_require_token :: bool
  extra_properties :: "string \<rightharpoonup> string"

record receiver_config =
  grpc_addr :: string
  http_addr :: string
  max_recv_msg_bytes :: int
  recv_container_bind :: container_bind
  require_token :: bool

record pipeline_config =
  queue_size :: int
  max_spans_per_second :: int
  batch_size :: int
  batch_timeout :: duration
  max_attr_bytes :: int
  max_services :: int
  max_operations :: int

record storage_config =
  storage_path :: string
  span_retention :: duration
  rollup_retention :: duration
  maintenance_interval :: duration
  metric_retention :: duration
  diagnostic_retention :: duration
  max_diagnostics_per_jvm :: int
  memory_limit :: string
  threads :: int

record host_metrics_config =
  hm_enabled :: bool
  hm_interval :: duration

record ebpf_config =
  ebpf_enabled :: bool
  ebpf_metrics :: bool
  ebpf_interval :: duration

record api_config =
  api_addr :: string
  base_path :: string
  read_only :: bool

record forward_config =
  forward_endpoint :: string
  forward_insecure :: bool
  forward_headers :: "string \<rightharpoonup> string"

datatype mode = ModeAll | ModeAgent | ModeServer | ModeOther string

definition mode_of :: "string \<Rightarrow> mode" where
  "mode_of s =
     (if s = ''all'' then ModeAll else if s = ''agent'' then ModeAgent
      else if s = ''server'' then ModeServer else ModeOther s)"

record config =
  cfg_mode :: mode
  data_dir :: string
  log_cfg :: log_config
  discovery_cfg :: discovery_config
  attach_cfg :: attach_config
  receiver_cfg :: receiver_config
  pipeline_cfg :: pipeline_config
  storage_cfg :: storage_config
  host_metrics_cfg :: host_metrics_config
  ebpf_cfg :: ebpf_config
  api_cfg :: api_config
  forward_cfg :: forward_config

section \<open>Defaults\<close>

definition default_attach :: attach_config where
  "default_attach =
     \<lparr>auto_attach = True, attach_timeout = 30 * second, retry_backoff = 2 * minute,
      max_retries = 3, sample_ratio = Fin 1, otlp_endpoint = ''http://127.0.0.1:4317'',
      container_otlp_endpoint = [], agent_logging = ''none'', metrics_enabled = True,
      metrics_interval = 15 * second, attach_container_bind = BindOther [],
      attach_require_token = False, extra_properties = Map.empty\<rparr>"

definition default_pipeline :: pipeline_config where
  "default_pipeline =
     \<lparr>queue_size = 50000, max_spans_per_second = 20000, batch_size = 5000,
      batch_timeout = 2 * second, max_attr_bytes = 4096, max_services = 500,
      max_operations = 5000\<rparr>"

definition default_storage :: storage_config where
  "default_storage =
     \<lparr>storage_path = ''apm2go.duckdb'', span_retention = 72 * hour,
      rollup_retention = 30 * 24 * hour, maintenance_interval = 5 * minute,
      metric_retention = 14 * 24 * hour, diagnostic_retention = 7 * 24 * hour,
      max_diagnostics_per_jvm = 20, memory_limit = ''1GB'', threads = 2\<rparr>"

definition default_config :: config where
  "default_config =
     \<lparr>cfg_mode = ModeAll, data_dir = ''/var/lib/apm2go'',
      log_cfg = \<lparr>log_level = ''info'', log_format = ''text''\<rparr>,
      discovery_cfg =
        \<lparr>disc_enabled = True, disc_interval = 3 * second, proc_root = ''/proc'',
         includes_any = [], excludes_any = [], min_uptime = 10 * second, docker_socket = []\<rparr>,
      attach_cfg = default_attach,
      receiver_cfg =
        \<lparr>grpc_addr = ''127.0.0.1:4317'', http_addr = ''127.0.0.1:4318'',
         max_recv_msg_bytes = 16 * 2 ^ 20, recv_container_bind = BindAuto,
         require_token = True\<rparr>,
      pipeline_cfg = default_pipeline,
      storage_cfg = default_storage,
      host_metrics_cfg = \<lparr>hm_enabled = True, hm_interval = 15 * second\<rparr>,
      ebpf_cfg = \<lparr>ebpf_enabled = True, ebpf_metrics = True, ebpf_interval = 15 * second\<rparr>,
      api_cfg = \<lparr>api_addr = ''0.0.0.0:8080'', base_path = ''/'', read_only = False\<rparr>,
      forward_cfg = \<lparr>forward_endpoint = [], forward_insecure = False,
                     forward_headers = Map.empty\<rparr>\<rparr>"

section \<open>Environment overrides\<close>

definition parse_bool :: "string \<Rightarrow> bool option" where
  "parse_bool s =
     (if s \<in> {''1'', ''t'', ''T'', ''TRUE'', ''true'', ''True''} then Some True
      else if s \<in> {''0'', ''f'', ''F'', ''FALSE'', ''false'', ''False''} then Some False
      else None)"

text \<open>\<open>env_str\<close>, \<open>env_bool\<close>, \<open>env_dur\<close> and \<open>env_ratio\<close> are the closures of \<open>applyEnv\<close>: a
  variable that is not set, or does not parse, leaves the setting alone.\<close>

definition env_parsed :: "(string \<rightharpoonup> string) \<Rightarrow> (string \<Rightarrow> 'a option) \<Rightarrow> string \<Rightarrow> 'a \<Rightarrow> 'a" where
  "env_parsed env parse key old =
     (case env key of None \<Rightarrow> old
      | Some v \<Rightarrow> (case parse v of None \<Rightarrow> old | Some x \<Rightarrow> x))"

definition env_str :: "(string \<rightharpoonup> string) \<Rightarrow> string \<Rightarrow> string \<Rightarrow> string" where
  "env_str env key old = (case env key of None \<Rightarrow> old | Some v \<Rightarrow> v)"

definition apply_env ::
  "(string \<Rightarrow> duration option) \<Rightarrow> (string \<Rightarrow> f64 option) \<Rightarrow> (string \<rightharpoonup> string) \<Rightarrow> config \<Rightarrow> config" where
  "apply_env parse_dur parse_float env c =
     c\<lparr>cfg_mode := (case env ''APM2GO_MODE'' of None \<Rightarrow> cfg_mode c | Some v \<Rightarrow> mode_of v),
       data_dir := env_str env ''APM2GO_DATA_DIR'' (data_dir c),
       log_cfg := (log_cfg c)\<lparr>
         log_level := env_str env ''APM2GO_LOG_LEVEL'' (log_level (log_cfg c)),
         log_format := env_str env ''APM2GO_LOG_FORMAT'' (log_format (log_cfg c))\<rparr>,
       discovery_cfg := (discovery_cfg c)\<lparr>
         disc_enabled := env_parsed env parse_bool ''APM2GO_DISCOVERY_ENABLED''
                           (disc_enabled (discovery_cfg c)),
         disc_interval := env_parsed env parse_dur ''APM2GO_DISCOVERY_INTERVAL''
                            (disc_interval (discovery_cfg c)),
         proc_root := env_str env ''APM2GO_PROC_ROOT'' (proc_root (discovery_cfg c))\<rparr>,
       attach_cfg := (attach_cfg c)\<lparr>
         auto_attach := env_parsed env parse_bool ''APM2GO_AUTO_ATTACH''
                          (auto_attach (attach_cfg c)),
         sample_ratio := env_parsed env parse_float ''APM2GO_SAMPLE_RATIO''
                           (sample_ratio (attach_cfg c))\<rparr>,
       ebpf_cfg := (ebpf_cfg c)\<lparr>
         ebpf_enabled := env_parsed env parse_bool ''APM2GO_EBPF_ENABLED'' (ebpf_enabled (ebpf_cfg c)),
         ebpf_metrics := env_parsed env parse_bool ''APM2GO_EBPF_METRICS'' (ebpf_metrics (ebpf_cfg c)),
         ebpf_interval := env_parsed env parse_dur ''APM2GO_EBPF_INTERVAL''
                            (ebpf_interval (ebpf_cfg c))\<rparr>,
       receiver_cfg := (receiver_cfg c)\<lparr>
         grpc_addr := env_str env ''APM2GO_OTLP_GRPC_ADDR'' (grpc_addr (receiver_cfg c)),
         http_addr := env_str env ''APM2GO_OTLP_HTTP_ADDR'' (http_addr (receiver_cfg c)),
         recv_container_bind :=
           (case env ''APM2GO_CONTAINER_BIND'' of
              None \<Rightarrow> recv_container_bind (receiver_cfg c)
            | Some v \<Rightarrow> container_bind_of v),
         require_token := env_parsed env parse_bool ''APM2GO_REQUIRE_TOKEN''
                            (require_token (receiver_cfg c))\<rparr>,
       api_cfg := (api_cfg c)\<lparr>
         api_addr := env_str env ''APM2GO_API_ADDR'' (api_addr (api_cfg c))\<rparr>,
       storage_cfg := (storage_cfg c)\<lparr>
         span_retention := env_parsed env parse_dur ''APM2GO_SPAN_RETENTION''
                             (span_retention (storage_cfg c)),
         rollup_retention := env_parsed env parse_dur ''APM2GO_ROLLUP_RETENTION''
                               (rollup_retention (storage_cfg c))\<rparr>,
       forward_cfg := (forward_cfg c)\<lparr>
         forward_endpoint := env_str env ''APM2GO_FORWARD_ENDPOINT''
                               (forward_endpoint (forward_cfg c))\<rparr>\<rparr>"

section \<open>Validation and loading\<close>

datatype config_error =
    InvalidMode mode | AgentNeedsForward | EmptyDataDir | BadSampleRatio f64
  | BadInterval | BadBatchSize | QueueBelowBatch | InvalidBind container_bind
  | InvalidLogFormat string | ParseFailed string | ReadFailed string

text \<open>Go's comparisons with a constant: every comparison with NaN is false.\<close>

fun f64_less :: "f64 \<Rightarrow> f64 \<Rightarrow> bool" where
  "f64_less NaN _ = False"
| "f64_less _ NaN = False"
| "f64_less NegInf y = (y \<noteq> NegInf)"
| "f64_less _ NegInf = False"
| "f64_less PosInf _ = False"
| "f64_less _ PosInf = True"
| "f64_less (Fin x) (Fin y) = (x < y)"

definition validate :: "config \<Rightarrow> config_error option" where
  "validate c =
     (if cfg_mode c \<notin> {ModeAll, ModeAgent, ModeServer} then Some (InvalidMode (cfg_mode c))
      else if cfg_mode c = ModeAgent \<and> forward_endpoint (forward_cfg c) = [] then Some AgentNeedsForward
      else if data_dir c = [] then Some EmptyDataDir
      else if f64_less (sample_ratio (attach_cfg c)) (Fin 0) \<or>
              f64_less (Fin 1) (sample_ratio (attach_cfg c))
        then Some (BadSampleRatio (sample_ratio (attach_cfg c)))
      else if disc_interval (discovery_cfg c) \<le> 0 then Some BadInterval
      else if batch_size (pipeline_cfg c) \<le> 0 then Some BadBatchSize
      else if queue_size (pipeline_cfg c) < batch_size (pipeline_cfg c) then Some QueueBelowBatch
      else if recv_container_bind (receiver_cfg c) \<notin> {BindOff, BindAuto, BindAll}
        then Some (InvalidBind (recv_container_bind (receiver_cfg c)))
      else if to_lower (log_format (log_cfg c)) \<notin> {''text'', ''json''}
        then Some (InvalidLogFormat (log_format (log_cfg c)))
      else None)"

datatype file_read = FileOk string | FileMissing | FileError string

definition load_with_env ::
  "(string \<Rightarrow> duration option) \<Rightarrow> (string \<Rightarrow> f64 option) \<Rightarrow> (string \<rightharpoonup> string) \<Rightarrow> config
     \<Rightarrow> config_error + config" where
  "load_with_env parse_dur parse_float env c =
     (let c1 = apply_env parse_dur parse_float env c;
          c2 = c1\<lparr>attach_cfg := (attach_cfg c1)\<lparr>
                    attach_container_bind := recv_container_bind (receiver_cfg c1),
                    attach_require_token := require_token (receiver_cfg c1)\<rparr>\<rparr>
      in case validate c2 of Some e \<Rightarrow> Inl e | None \<Rightarrow> Inr c2)"

definition load ::
  "(string \<Rightarrow> config \<Rightarrow> string + config) \<Rightarrow> (string \<Rightarrow> duration option) \<Rightarrow> (string \<Rightarrow> f64 option)
     \<Rightarrow> (string \<Rightarrow> file_read) \<Rightarrow> (string \<rightharpoonup> string) \<Rightarrow> string \<Rightarrow> config_error + config" where
  "load yaml parse_dur parse_float read env path =
     (if path = [] then load_with_env parse_dur parse_float env default_config
      else (case read path of
              FileOk data \<Rightarrow>
                (case yaml data default_config of
                   Inl e \<Rightarrow> Inl (ParseFailed e)
                 | Inr c \<Rightarrow> load_with_env parse_dur parse_float env c)
            | FileMissing \<Rightarrow> load_with_env parse_dur parse_float env default_config
            | FileError e \<Rightarrow> Inl (ReadFailed e)))"

definition runs_discovery :: "config \<Rightarrow> bool" where
  "runs_discovery c \<longleftrightarrow> cfg_mode c = ModeAll \<or> cfg_mode c = ModeAgent"

definition runs_storage :: "config \<Rightarrow> bool" where
  "runs_storage c \<longleftrightarrow> cfg_mode c = ModeAll \<or> cfg_mode c = ModeServer"

section \<open>Properties\<close>

text \<open>What the rest of the program relies on in a configuration that \<open>Load\<close> returned.\<close>

definition well_configured :: "config \<Rightarrow> bool" where
  "well_configured c \<longleftrightarrow>
     (runs_discovery c \<or> runs_storage c) \<and>
     \<not> (cfg_mode c = ModeAgent \<and> forward_endpoint (forward_cfg c) = []) \<and>
     data_dir c \<noteq> [] \<and> 0 < disc_interval (discovery_cfg c) \<and>
     0 < batch_size (pipeline_cfg c) \<and>
     batch_size (pipeline_cfg c) \<le> queue_size (pipeline_cfg c) \<and>
     recv_container_bind (receiver_cfg c) \<in> {BindOff, BindAuto, BindAll} \<and>
     attach_container_bind (attach_cfg c) = recv_container_bind (receiver_cfg c) \<and>
     attach_require_token (attach_cfg c) = require_token (receiver_cfg c) \<and>
     (sample_ratio (attach_cfg c) = NaN \<or>
      (\<exists>x. sample_ratio (attach_cfg c) = Fin x \<and> 0 \<le> x \<and> x \<le> 1))"

lemma validate_ratio:
  "\<not> f64_less r (Fin 0) \<Longrightarrow> \<not> f64_less (Fin 1) r \<Longrightarrow>
     r = NaN \<or> (\<exists>x. r = Fin x \<and> 0 \<le> x \<and> x \<le> 1)"
  by (cases r) auto

lemma validate_None:
  assumes "validate c = None"
    and "attach_container_bind (attach_cfg c) = recv_container_bind (receiver_cfg c)"
    and "attach_require_token (attach_cfg c) = require_token (receiver_cfg c)"
  shows "well_configured c"
  using assms validate_ratio [of "sample_ratio (attach_cfg c)"]
  unfolding validate_def well_configured_def runs_discovery_def runs_storage_def
  by (auto split: if_splits)

lemma load_with_env_ok: "load_with_env pd pf env c = Inr c' \<Longrightarrow> well_configured c'"
  unfolding load_with_env_def Let_def
  by (rule validate_None) (auto split: option.splits)


lemma default_loads:
  "load_with_env pd pf Map.empty default_config =
     Inr (default_config\<lparr>attach_cfg := default_attach\<lparr>attach_container_bind := BindAuto,
                          attach_require_token := True\<rparr>\<rparr>)"
  by (simp add: load_with_env_def apply_env_def env_str_def env_parsed_def validate_def
      default_config_def default_attach_def default_pipeline_def default_storage_def
      to_lower_def lower_char_def less_eq_char_def)


text \<open>(a ratio that is not a number is accepted) The range check compares with 0 and 1, and
  both comparisons are false of NaN, so \<open>APM2GO_SAMPLE_RATIO=NaN\<close> passes \<open>Validate\<close> although the
  message of the check says the ratio must lie in [0,1].\<close>

theorem nan_sample_ratio_accepted:
  "\<exists>c. load (\<lambda>_ c. Inr c) (\<lambda>_. None) (\<lambda>v. if v = ''NaN'' then Some NaN else None) (\<lambda>_. FileMissing)
          [''APM2GO_SAMPLE_RATIO'' \<mapsto> ''NaN''] [] = Inr c \<and>
       sample_ratio (attach_cfg c) = NaN"
  by (simp add: load_def load_with_env_def apply_env_def env_str_def env_parsed_def validate_def
      default_config_def default_attach_def default_pipeline_def default_storage_def
      to_lower_def lower_char_def less_eq_char_def)

end
