(* ===== verification/Tokens.thy ===== *)
theory Tokens
  imports Spans
begin

text \<open>
  \<open>internal/ingesttoken/token.go\<close> and \<open>internal/receiver/auth.go\<close>: minting, recognising, revoking
  and persisting ingest credentials, and the check the receiver makes with them.  The random bytes
  and the outcome of each file-system call are arguments.  The JSON text of the token file is
  represented by the map it denotes; a file that was written only in part is \<open>Torn\<close>.
\<close>

section \<open>The token text\<close>

definition b64_char :: "nat \<Rightarrow> char" where
  "b64_char d =
     (if d < 26 then char_of (65 + d) else if d < 52 then char_of (71 + d)
      else if d < 62 then char_of (d - 4) else if d = 62 then CHR ''-'' else CHR ''_'')"

text \<open>\<open>base64.RawURLEncoding.EncodeToString\<close>.\<close>

fun b64_encode :: "bytes \<Rightarrow> string" where
  "b64_encode (a # b # c # r) =
     (let n = unat a * 65536 + unat b * 256 + unat c
      in [b64_char (n div 262144), b64_char (n div 4096 mod 64),
          b64_char (n div 64 mod 64), b64_char (n mod 64)] @ b64_encode r)"
| "b64_encode [a, b] =
     (let n = unat a * 65536 + unat b * 256
      in [b64_char (n div 262144), b64_char (n div 4096 mod 64), b64_char (n div 64 mod 64)])"
| "b64_encode [a] =
     (let n = unat a * 65536 in [b64_char (n div 262144), b64_char (n div 4096 mod 64)])"
| "b64_encode [] = []"

definition token_bytes :: nat where "token_bytes = 24"

definition header_name :: string where "header_name = ''x-apm2go-token''"

section \<open>The registry and its file\<close>

text \<open>Mode 0600: readable and writable by the owner, nobody else.\<close>

definition owner_only :: nat where "owner_only = 384"

record registry =
  valid :: "string \<rightharpoonup> string"
  path :: string

definition new_registry :: registry where
  "new_registry = \<lparr>valid = Map.empty, path = []\<rparr>"

datatype content = Whole "string \<rightharpoonup> string" | Torn

record token_file =
  f_content :: content
  f_mode :: nat

record disk =
  store_file :: "token_file option"
  temp_file :: "token_file option"

record save_outcome =
  create_ok :: bool
  write_ok :: bool
  close_ok :: bool
  chmod_ok :: bool
  rename_ok :: bool

datatype token_error = RandFailed | CreateFailed | WriteFailed | CloseFailed | ChmodFailed
  | RenameFailed | StoreUnreadable | StoreCorrupt

definition remove_temp :: "disk \<Rightarrow> disk" where
  "remove_temp d = d\<lparr>temp_file := None\<rparr>"

text \<open>\<open>saveLocked\<close>: every state the disk passes through, oldest first, and the error.  The last
  state is the one after the deferred removal of the temporary file.\<close>

definition save_locked :: "save_outcome \<Rightarrow> registry \<Rightarrow> disk \<Rightarrow> disk list \<times> token_error option" where
  "save_locked oc r d =
     (if path r = [] then ([d], None)
      else if \<not> create_ok oc then ([d], Some CreateFailed)
      else
        let d1 = d\<lparr>temp_file := Some \<lparr>f_content = Torn, f_mode = owner_only\<rparr>\<rparr>;
            d2 = d\<lparr>temp_file := Some \<lparr>f_content = Whole (valid r), f_mode = owner_only\<rparr>\<rparr>
        in if \<not> write_ok oc then ([d1, remove_temp d1], Some WriteFailed)
           else if \<not> close_ok oc then ([d1, d2, remove_temp d2], Some CloseFailed)
           else if \<not> chmod_ok oc then ([d1, d2, remove_temp d2], Some ChmodFailed)
           else if \<not> rename_ok oc then ([d1, d2, remove_temp d2], Some RenameFailed)
           else ([d1, d2, remove_temp (d2\<lparr>store_file := temp_file d2, temp_file := None\<rparr>)], None))"

datatype store_read = ReadMissing | ReadFailed | ReadFile token_file

definition read_store :: "disk \<Rightarrow> store_read" where
  "read_store d = (case store_file d of None \<Rightarrow> ReadMissing | Some f \<Rightarrow> ReadFile f)"

definition new_persistent_registry :: "string \<Rightarrow> store_read \<Rightarrow> token_error + registry" where
  "new_persistent_registry p r =
     (case r of
        ReadMissing \<Rightarrow> Inr \<lparr>valid = Map.empty, path = p\<rparr>
      | ReadFailed \<Rightarrow> Inl StoreUnreadable
      | ReadFile f \<Rightarrow> (case f_content f of
                          Whole m \<Rightarrow> Inr \<lparr>valid = m, path = p\<rparr>
                        | Torn \<Rightarrow> Inl StoreCorrupt))"

text \<open>\<open>raw\<close> is what \<open>rand.Read\<close> delivered, if it did.\<close>

definition issue ::
  "bytes option \<Rightarrow> save_outcome \<Rightarrow> registry \<Rightarrow> disk \<Rightarrow> string \<Rightarrow> registry \<times> disk \<times> (token_error + string)" where
  "issue raw oc r d svc =
     (case raw of
        None \<Rightarrow> (r, d, Inl RandFailed)
      | Some bs \<Rightarrow>
          (let token = b64_encode bs;
               r' = r\<lparr>valid := (valid r)(token \<mapsto> svc)\<rparr>
           in case save_locked oc r' d of
                (ds, Some e) \<Rightarrow> (r', last ds, Inl e)
              | (ds, None) \<Rightarrow> (r', last ds, Inr token)))"

definition accepts :: "registry \<Rightarrow> string \<Rightarrow> bool" where
  "accepts r token \<longleftrightarrow> token \<noteq> [] \<and> token \<in> dom (valid r)"

definition revoke :: "save_outcome \<Rightarrow> registry \<Rightarrow> disk \<Rightarrow> string \<Rightarrow> registry \<times> disk \<times> token_error option" where
  "revoke oc r d token =
     (if token = [] then (r, d, None)
      else let r' = r\<lparr>valid := (valid r)(token := None)\<rparr>
           in case save_locked oc r' d of (ds, e) \<Rightarrow> (r', last ds, e))"

text \<open>\<open>HasTokenFor\<close> on a nil registry answers true.\<close>

definition has_token_for :: "registry option \<Rightarrow> string \<Rightarrow> bool" where
  "has_token_for ro svc = (case ro of None \<Rightarrow> True | Some r \<Rightarrow> svc \<in> ran (valid r))"

definition token_count :: "registry \<Rightarrow> nat" where
  "token_count r = card (dom (valid r))"

section \<open>The authenticator\<close>

record authenticator =
  au_tokens :: "registry option"
  au_required :: bool
  au_rejected :: nat

definition new_authenticator :: "registry option \<Rightarrow> bool \<Rightarrow> authenticator" where
  "new_authenticator t req = \<lparr>au_tokens = t, au_required = req, au_rejected = 0\<rparr>"

definition permits :: "authenticator \<Rightarrow> string \<Rightarrow> authenticator \<times> bool" where
  "permits a token =
     (if \<not> au_required a then (a, True)
      else case au_tokens a of
             None \<Rightarrow> (a, True)
           | Some r \<Rightarrow> if accepts r token then (a, True)
                       else (a\<lparr>au_rejected := au_rejected a + 1\<rparr>, False))"

definition rejected_count :: "authenticator option \<Rightarrow> nat" where
  "rejected_count ao = (case ao of None \<Rightarrow> 0 | Some a \<Rightarrow> au_rejected a)"

text \<open>\<open>tokenFromContext\<close>: the first value of the metadata key, if there is any.\<close>

definition token_from_context :: "string list option \<Rightarrow> string" where
  "token_from_context md = (case md of None \<Rightarrow> [] | Some [] \<Rightarrow> [] | Some (v # vs) \<Rightarrow> v)"

definition token_from_request :: "string \<Rightarrow> string" where
  "token_from_request header = trim_space header"

datatype rpc_code = Unauthenticated | Unavailable

text \<open>\<open>unaryInterceptor\<close>: the handler runs only behind a permitted token.\<close>

definition unary_interceptor ::
  "authenticator option \<Rightarrow> string list option \<Rightarrow> ('c \<Rightarrow> 'c \<times> (rpc_code + 'b)) \<Rightarrow> 'c
     \<Rightarrow> authenticator option \<times> 'c \<times> (rpc_code + 'b)" where
  "unary_interceptor ao md handler c =
     (case ao of
        None \<Rightarrow> (ao, handler c)
      | Some a \<Rightarrow>
          if \<not> au_required a then (ao, handler c)
          else (case permits a (token_from_context md) of
                  (a', True) \<Rightarrow> (Some a', handler c)
                | (a', False) \<Rightarrow> (Some a', c, Inl Unauthenticated)))"

section \<open>What the receiver relies on\<close>

text \<open>The registry as its clients see it: a set of credentials that grows by granting and shrinks by
  withdrawing, and never contains the empty text.\<close>

locale credential_set =
  fixes known :: "'r \<Rightarrow> string \<Rightarrow> bool"
    and grant :: "'r \<Rightarrow> string \<Rightarrow> string \<Rightarrow> 'r"
    and withdraw :: "'r \<Rightarrow> string \<Rightarrow> 'r"
  assumes known_empty: "\<not> known r []"
    and known_grant: "known (grant r t svc) u \<longleftrightarrow> u \<noteq> [] \<and> (u = t \<or> known r u)"
    and known_withdraw: "known (withdraw r t) u \<longleftrightarrow> u \<noteq> t \<and> known r u"
begin

lemma granted_is_known: "t \<noteq> [] \<Longrightarrow> known (grant r t svc) t"
  by (simp add: known_grant)

lemma grant_keeps: "known r u \<Longrightarrow> known (grant r t svc) u"
  using known_empty by (auto simp: known_grant)

lemma withdraw_grant: "known (withdraw (grant r t svc) t) u \<Longrightarrow> known r u"
  by (auto simp: known_grant known_withdraw)

lemma grants_keep: "known r u \<Longrightarrow> known (foldl (\<lambda>r (t, svc). grant r t svc) r ts) u"
  by (induction ts arbitrary: r) (auto intro: grant_keeps)

end

definition add_token :: "registry \<Rightarrow> string \<Rightarrow> string \<Rightarrow> registry" where
  "add_token r t svc = r\<lparr>valid := (valid r)(t \<mapsto> svc)\<rparr>"

definition drop_token :: "registry \<Rightarrow> string \<Rightarrow> registry" where
  "drop_token r t = r\<lparr>valid := (valid r)(t := None)\<rparr>"

interpretation tokens: credential_set accepts add_token drop_token
  by unfold_locales (auto simp: accepts_def add_token_def drop_token_def)

lemma issue_registry:
  "fst (issue (Some bs) oc r d svc) = add_token r (b64_encode bs) svc"
  by (auto simp: issue_def Let_def add_token_def split: prod.splits option.splits)

lemma b64_encode_nonempty: "bs \<noteq> [] \<Longrightarrow> b64_encode bs \<noteq> []"
  by (cases bs rule: b64_encode.cases) (auto simp: Let_def)

section \<open>Lemmas\<close>

lemma b64_alphabet_distinct: "distinct (map b64_char [0..<64])"
  by code_simp

lemma b64_char_inj: "d < 64 \<Longrightarrow> e < 64 \<Longrightarrow> b64_char d = b64_char e \<Longrightarrow> d = e"
  using b64_alphabet_distinct by (auto simp: distinct_map inj_on_def)

lemma b64_group_inj:
  fixes m n :: nat
  assumes "m div 262144 = n div 262144" "m div 4096 mod 64 = n div 4096 mod 64"
    and "m div 64 mod 64 = n div 64 mod 64" "m mod 64 = n mod 64"
  shows "m = n"
proof -
  have step: "a = b" if "a div k = b div k" "a mod k = b mod k" for a b k :: nat
    using that by (metis div_mult_mod_eq)
  have "m div 4096 = n div 4096"
    using step [of "m div 4096" 64 "n div 4096"] assms(1,2) by (simp add: div_mult2_eq [symmetric])
  then have "m div 64 = n div 64"
    using step [of "m div 64" 64 "n div 64"] assms(3) by (simp add: div_mult2_eq [symmetric])
  then show ?thesis
    using step [of m 64 n] assms(4) by simp
qed

lemma base_256_inj:
  "z < 256 \<Longrightarrow> z' < 256 \<Longrightarrow> p * 256 + z = q * 256 + (z' :: nat) \<Longrightarrow> p = q \<and> z = z'"
proof -
  assume a: "z < 256" "z' < 256" "p * 256 + z = q * 256 + z'"
  from a(3) have "(p * 256 + z) div 256 = (q * 256 + z') div 256" by simp
  with a(1,2) have "p = q" by simp
  with a(3) show ?thesis by simp
qed

lemma b64_encode_inj:
  "length a = length b \<Longrightarrow> 3 dvd length a \<Longrightarrow> b64_encode a = b64_encode b \<Longrightarrow> a = b"
proof (induction a arbitrary: b rule: b64_encode.induct)
  case (1 x y z r)
  from 1(2) obtain x' y' z' r' where b: "b = x' # y' # z' # r'"
    by (metis length_Suc_conv)
  let ?m = "unat x * 65536 + unat y * 256 + unat z" and ?n = "unat x' * 65536 + unat y' * 256 + unat z'"
  have lt: "?m < 16777216" "?n < 16777216"
    using unat_byte_lt [of x] unat_byte_lt [of y] unat_byte_lt [of z]
      unat_byte_lt [of x'] unat_byte_lt [of y'] unat_byte_lt [of z'] by linarith+
  then have q: "?m div 262144 < 64" "?n div 262144 < 64" by simp_all
  have e: "b64_char (?m div 262144) = b64_char (?n div 262144)"
    "b64_char (?m div 4096 mod 64) = b64_char (?n div 4096 mod 64)"
    "b64_char (?m div 64 mod 64) = b64_char (?n div 64 mod 64)"
    "b64_char (?m mod 64) = b64_char (?n mod 64)" "b64_encode r = b64_encode r'"
    using 1(4) b by (simp_all add: Let_def)
  have "?m = ?n"
    by (rule b64_group_inj) (use e q in \<open>auto intro: b64_char_inj\<close>)
  then have "(unat x * 256 + unat y) * 256 + unat z = (unat x' * 256 + unat y') * 256 + unat z'"
    by simp
  from base_256_inj [OF unat_byte_lt unat_byte_lt this]
  have "unat x = unat x' \<and> unat y = unat y' \<and> unat z = unat z'"
    using base_256_inj [OF unat_byte_lt unat_byte_lt, of "unat x" y "unat x'" y'] by simp
  moreover have "r = r'"
    using 1(2,3) b e(5) by (intro 1(1) [where b = r']) (auto simp: Let_def, presburger)
  ultimately show ?case using b by (simp add: word_unat_eq_iff)
qed (auto simp: dvd_def, presburger+)

lemma save_locked_states:
  assumes "save_locked oc r d = (ds, e)" and "x \<in> set ds"
  shows "store_file x = store_file d \<or>
         store_file x = Some \<lparr>f_content = Whole (valid r), f_mode = owner_only\<rparr>"
  using assms by (auto simp: save_locked_def remove_temp_def Let_def split: if_splits)

lemma save_locked_done:
  assumes "save_locked oc r d = (ds, None)" and "path r \<noteq> []"
  shows "store_file (last ds) = Some \<lparr>f_content = Whole (valid r), f_mode = owner_only\<rparr>"
  using assms by (auto simp: save_locked_def remove_temp_def Let_def split: if_splits)

lemma save_locked_failed:
  assumes "save_locked oc r d = (ds, Some e)"
  shows "store_file (last ds) = store_file d"
  using assms by (auto simp: save_locked_def remove_temp_def Let_def split: if_splits)

section \<open>Properties\<close>


definition all_ok :: save_outcome where
  "all_ok = \<lparr>create_ok = True, write_ok = True, close_ok = True, chmod_ok = True, rename_ok = True\<rparr>"


text \<open>(the token file is never half written) In every state the disk passes through during a
  save, so also after a crash at any point, the token file is the old one or the complete new one
  readable by its owner only; when the save fails, it is the old one; and the next start never
  refuses what a save left behind.\<close>

theorem token_file_atomic:
  assumes "save_locked oc r d = (ds, e)"
  shows "(\<forall>x \<in> set ds. store_file x = store_file d \<or>
            store_file x = Some \<lparr>f_content = Whole (valid r), f_mode = owner_only\<rparr>) \<and>
         (e \<noteq> None \<longrightarrow> store_file (last ds) = store_file d) \<and>
         (new_persistent_registry p (read_store d) \<noteq> Inl StoreCorrupt \<longrightarrow>
            (\<forall>x \<in> set ds. new_persistent_registry p (read_store x) \<noteq> Inl StoreCorrupt))"
proof -
  have "new_persistent_registry p (read_store x) \<noteq> Inl StoreCorrupt"
    if "x \<in> set ds" "new_persistent_registry p (read_store d) \<noteq> Inl StoreCorrupt" for x
    using save_locked_states [OF assms that(1)] that(2)
    by (auto simp: new_persistent_registry_def read_store_def)
  then show ?thesis
    using save_locked_states [OF assms] save_locked_failed assms by auto
qed

theorem token_file_atomic_witness:
  "list_all (\<lambda>x. store_file x = None \<or> store_file x = Some \<lparr>f_content = Whole Map.empty, f_mode = owner_only\<rparr>)
     (fst (save_locked all_ok \<lparr>valid = Map.empty, path = ''/t''\<rparr> \<lparr>store_file = None, temp_file = None\<rparr>))"
  using token_file_atomic [of all_ok "\<lparr>valid = Map.empty, path = ''/t''\<rparr>"
      "\<lparr>store_file = None, temp_file = None\<rparr>", OF prod.collapse [symmetric]]
  by (simp add: list_all_iff)



end
