(* ===== verification/Route.thy ===== *)
theory Route
  imports Go_Strings
begin

text \<open>
  \<open>internal/receiver/route.go\<close>: turning a concrete request path into a template, so that requests
  for different ids are one operation.
\<close>

section \<open>Identifier segments\<close>

definition max_route_segments :: nat where "max_route_segments = 8"

definition is_all_digits :: "string \<Rightarrow> bool" where
  "is_all_digits s \<longleftrightarrow> list_all is_digit s"

definition is_uuid :: "string \<Rightarrow> bool" where
  "is_uuid s \<longleftrightarrow> length s = 36 \<and>
     list_all (\<lambda>(i, r). if i \<in> {8, 13, 18, 23} then r = CHR ''-'' else is_hex r) (enumerate 0 s)"

definition is_long_hex :: "string \<Rightarrow> bool" where
  "is_long_hex s \<longleftrightarrow> \<not> length s < 16 \<and> list_all is_hex s"

definition min_digit_run :: nat where "min_digit_run = 4"

fun digit_run_from :: "nat \<Rightarrow> string \<Rightarrow> bool" where
  "digit_run_from run [] = False"
| "digit_run_from run (c # cs) =
     (if is_digit c then (if run + 1 \<ge> min_digit_run then True else digit_run_from (run + 1) cs)
      else digit_run_from 0 cs)"

definition has_long_digit_run :: "string \<Rightarrow> bool" where
  "has_long_digit_run s = digit_run_from 0 s"

definition is_identifier_segment :: "string \<Rightarrow> bool" where
  "is_identifier_segment seg \<longleftrightarrow>
     seg \<noteq> [] \<and> (is_all_digits seg \<or> is_uuid seg \<or> is_long_hex seg \<or> has_long_digit_run seg)"

section \<open>The template\<close>

definition strip_origin :: "string \<Rightarrow> string" where
  "strip_origin raw =
     (case index_of raw ''://'' of
        None \<Rightarrow> raw
      | Some i \<Rightarrow>
          (let rest = drop (i + 3) raw
           in case index_where (\<lambda>c. c = CHR ''/'') rest of Some j \<Rightarrow> drop j rest | None \<Rightarrow> ''/''))"

definition strip_query :: "string \<Rightarrow> string" where
  "strip_query raw =
     (case index_where (\<lambda>c. c \<in> {CHR ''?'', CHR ''#''}) raw of None \<Rightarrow> raw | Some i \<Rightarrow> take i raw)"

definition cap_segments :: "string list \<Rightarrow> string list" where
  "cap_segments segs =
     (if length segs > max_route_segments then take max_route_segments segs @ [''*''] else segs)"

definition template_segments :: "string \<Rightarrow> string list" where
  "template_segments raw =
     map (\<lambda>seg. if is_identifier_segment seg then ''{id}'' else seg)
       (cap_segments (split_on (CHR ''/'') (trim_both (\<lambda>c. c = CHR ''/'') raw)))"

definition normalize_route :: "string \<Rightarrow> string" where
  "normalize_route raw =
     (if raw = [] then []
      else let path = strip_query (strip_origin raw)
           in if path = [] \<or> path = ''/'' then ''/''
              else ''/'' @ join ''/'' (template_segments path))"

section \<open>Lemmas\<close>

lemma id_braces_not_identifier [simp]: "\<not> is_identifier_segment ''{id}''"
  by (simp add: is_identifier_segment_def is_all_digits_def is_uuid_def is_long_hex_def
      has_long_digit_run_def is_digit_def less_eq_char_def)

lemma star_not_identifier [simp]: "\<not> is_identifier_segment ''*''"
  by (simp add: is_identifier_segment_def is_all_digits_def is_uuid_def is_long_hex_def
      has_long_digit_run_def is_digit_def less_eq_char_def)

lemma strip_query_chars: "c \<in> set (strip_query raw) \<Longrightarrow> c \<noteq> CHR ''?'' \<and> c \<noteq> CHR ''#''"
  by (auto simp: strip_query_def index_where_None dest!: take_index_where split: option.splits)

lemma strip_query_id: "\<forall>c \<in> set raw. c \<noteq> CHR ''?'' \<and> c \<noteq> CHR ''#'' \<Longrightarrow> strip_query raw = raw"
proof -
  assume "\<forall>c \<in> set raw. c \<noteq> CHR ''?'' \<and> c \<noteq> CHR ''#''"
  then have "index_where (\<lambda>c. c \<in> {CHR ''?'', CHR ''#''}) raw = None"
    unfolding index_where_None by auto
  then show ?thesis by (simp add: strip_query_def)
qed

lemma strip_origin_id: "\<not> contains raw ''://'' \<Longrightarrow> strip_origin raw = raw"
  by (simp add: strip_origin_def contains_def)

lemma cap_segments_length: "length (cap_segments segs) \<le> 9"
  by (simp add: cap_segments_def max_route_segments_def)

lemma cap_segments_nonempty: "segs \<noteq> [] \<Longrightarrow> cap_segments segs \<noteq> []"
  by (simp add: cap_segments_def)

lemma cap_segments_idem: "cap_segments (cap_segments segs) = cap_segments segs"
  by (simp add: cap_segments_def max_route_segments_def)

text \<open>A path of clean segments: non-empty at both ends, no separator inside any of them.\<close>

definition clean_segments :: "string list \<Rightarrow> bool" where
  "clean_segments segs \<longleftrightarrow> segs \<noteq> [] \<and> hd segs \<noteq> [] \<and> last segs \<noteq> [] \<and>
     (\<forall>s \<in> set segs. CHR ''/'' \<notin> set s)"

lemma join_hd: "segs \<noteq> [] \<Longrightarrow> hd segs \<noteq> [] \<Longrightarrow>
  join sep segs \<noteq> [] \<and> hd (join sep segs) = hd (hd segs)"
  by (cases segs; cases "tl segs") (auto simp: join_Cons)

lemma join_last: "segs \<noteq> [] \<Longrightarrow> last segs \<noteq> [] \<Longrightarrow>
  join sep segs \<noteq> [] \<and> last (join sep segs) = last (last segs)"
proof (induction segs)
  case (Cons s segs)
  then show ?case by (cases "segs = []") (auto simp: join_Cons)
qed simp

lemma trim_join_clean:
  assumes "clean_segments segs"
  shows "trim_both (\<lambda>c. c = CHR ''/'') (''/'' @ join ''/'' segs) = join ''/'' segs"
proof -
  let ?j = "join ''/'' segs"
  have ne: "segs \<noteq> []" "hd segs \<noteq> []" "last segs \<noteq> []"
    and sl: "\<forall>s \<in> set segs. CHR ''/'' \<notin> set s"
    using assms by (auto simp: clean_segments_def)
  have "hd (hd segs) \<noteq> CHR ''/''" "last (last segs) \<noteq> CHR ''/''"
    using ne sl by (metis hd_in_set, metis last_in_set)
  with join_hd [OF ne(1,2), of "''/''"] join_last [OF ne(1,3), of "''/''"]
  have "?j \<noteq> []" "hd ?j \<noteq> CHR ''/''" "last ?j \<noteq> CHR ''/''" by auto
  then show ?thesis
    by (cases ?j) (auto simp: trim_both_def trim_right_id)
qed

lemma template_of_clean:
  assumes "clean_segments segs"
  shows "template_segments (''/'' @ join ''/'' segs) =
         map (\<lambda>seg. if is_identifier_segment seg then ''{id}'' else seg) (cap_segments segs)"
proof -
  have "segs \<noteq> []" "\<forall>x \<in> set segs. CHR ''/'' \<notin> set x"
    using assms by (auto simp: clean_segments_def)
  then have "split_on (CHR ''/'') (join ''/'' segs) = segs" by (rule split_on_join)
  then show ?thesis
    unfolding template_segments_def trim_join_clean [OF assms] by simp
qed

lemma trimmed_split_clean:
  assumes "trim_both (\<lambda>c. c = CHR ''/'') raw \<noteq> []"
  shows "clean_segments (split_on (CHR ''/'') (trim_both (\<lambda>c. c = CHR ''/'') raw))"
proof -
  let ?t = "trim_both (\<lambda>c. c = CHR ''/'') raw" and ?s = "split_on (CHR ''/'') (trim_both (\<lambda>c. c = CHR ''/'') raw)"
  have ends: "hd ?t \<noteq> CHR ''/''" "last ?t \<noteq> CHR ''/''"
    using trim_both_ends [OF assms] by auto
  have j: "join ''/'' ?s = ?t" by simp
  have "hd ?s \<noteq> []"
  proof
    assume "hd ?s = []"
    then obtain r where r: "?s = [] # r" by (metis list.collapse split_on_nonempty)
    show False using j ends(1) assms
      by (cases "r = []") (auto simp: r join_Cons simp del: join_split_on, metis list.sel(1))
  qed
  moreover have "last ?s \<noteq> []"
  proof
    assume "last ?s = []"
    then obtain r where r: "?s = r @ [[]]" by (metis append_butlast_last_id split_on_nonempty)
    have snoc: "r \<noteq> [] \<Longrightarrow> last (join ''/'' (r @ [[]])) = CHR ''/''" for r
    proof (induction r)
      case (Cons a r)
      then show ?case by (cases "r = []") (auto simp: join_Cons last_append)
    qed simp
    show False using j ends(2) assms snoc [of r]
      by (cases "r = []") (auto simp: r simp del: join_split_on)
  qed
  ultimately show ?thesis
    by (auto simp: clean_segments_def dest: split_on_parts)
qed

lemma template_clean:
  assumes "trim_both (\<lambda>c. c = CHR ''/'') raw \<noteq> []"
  shows "clean_segments (template_segments raw)"
proof -
  let ?s = "split_on (CHR ''/'') (trim_both (\<lambda>c. c = CHR ''/'') raw)"
  have c: "clean_segments ?s" by (rule trimmed_split_clean [OF assms])
  have "clean_segments (cap_segments ?s)"
    using c by (auto simp: clean_segments_def cap_segments_def max_route_segments_def hd_append
        dest: in_set_takeD)
  then show ?thesis
    by (auto simp: clean_segments_def template_segments_def hd_map last_map)
qed

lemma template_fixed:
  "map (\<lambda>seg. if is_identifier_segment seg then ''{id}'' else seg) (template_segments raw)
     = template_segments raw"
  by (simp add: template_segments_def)

lemma cap_template: "cap_segments (template_segments raw) = template_segments raw"
  by (auto simp: template_segments_def cap_segments_def max_route_segments_def take_map)

lemma template_chars:
  assumes "s \<in> set (template_segments raw)" and "c \<in> set s"
  shows "c \<in> set raw \<or> c \<in> set ''{id}*''"
proof -
  let ?s = "split_on (CHR ''/'') (trim_both (\<lambda>c. c = CHR ''/'') raw)"
  from assms(1) obtain x where "x \<in> set (cap_segments ?s)"
    and "s = x \<or> s = ''{id}''" by (auto simp: template_segments_def split: if_splits)
  moreover from this(1) have "x \<in> set ?s \<or> x = ''*''"
    by (auto simp: cap_segments_def split: if_splits dest: in_set_takeD)
  moreover have "x \<in> set ?s \<Longrightarrow> set x \<subseteq> set raw"
    using set_split_on_subset set_trim_both by blast
  ultimately show ?thesis using assms(2) by auto
qed

lemma template_when_blank:
  "trim_both (\<lambda>c. c = CHR ''/'') raw = [] \<Longrightarrow> template_segments raw = [[]]"
  by (simp add: template_segments_def cap_segments_def max_route_segments_def is_identifier_segment_def)

text \<open>Every route the function returns is the root or a slash before clean, settled segments.\<close>

lemma normalize_route_cases:
  assumes "raw \<noteq> []"
  obtains "normalize_route raw = ''/''"
  | segs where "normalize_route raw = ''/'' @ join ''/'' segs" "clean_segments segs"
      "cap_segments segs = segs" "\<forall>s \<in> set segs. \<not> is_identifier_segment s"
      "\<forall>s \<in> set segs. \<forall>c \<in> set s. c \<noteq> CHR ''?'' \<and> c \<noteq> CHR ''#''"
proof -
  let ?p = "strip_query (strip_origin raw)"
  show ?thesis
  proof (cases "?p = [] \<or> ?p = ''/'' \<or> trim_both (\<lambda>c. c = CHR ''/'') ?p = []")
    case True
    then have "normalize_route raw = ''/''"
      using assms template_when_blank [of ?p] by (auto simp: normalize_route_def Let_def)
    then show ?thesis by (rule that(1))
  next
    case False
    have "c \<noteq> CHR ''?'' \<and> c \<noteq> CHR ''#''"
      if "s \<in> set (template_segments ?p)" "c \<in> set s" for s c
      using template_chars [OF that] strip_query_chars [of c "strip_origin raw"] by auto
    moreover have "\<not> is_identifier_segment s" if "s \<in> set (template_segments ?p)" for s
      using that by (auto simp: template_segments_def split: if_splits)
    ultimately show ?thesis
      using that(2) [of "template_segments ?p"] False assms template_clean [of ?p] cap_template [of ?p]
      by (auto simp: normalize_route_def Let_def)
  qed
qed

lemma normalize_settled:
  "strip_query (strip_origin r) = r \<Longrightarrow> r \<noteq> [] \<Longrightarrow> r \<noteq> ''/'' \<Longrightarrow>
     normalize_route r = ''/'' @ join ''/'' (template_segments r)"
  by (simp add: normalize_route_def)

section \<open>Properties\<close>

text \<open>(the shape of a route) The route of a non-empty path starts with a slash, splits into at
  most nine segments after it, carries neither a query string nor a fragment, and has no segment
  that still looks like an identifier: the number of distinct routes does not grow with ids.\<close>

theorem route_shape:
  assumes "raw \<noteq> []"
  shows "has_prefix (normalize_route raw) ''/'' \<and>
         length (split_on (CHR ''/'') (normalize_route raw)) \<le> 10 \<and>
         CHR ''?'' \<notin> set (normalize_route raw) \<and> CHR ''#'' \<notin> set (normalize_route raw) \<and>
         (\<forall>s \<in> set (split_on (CHR ''/'') (normalize_route raw)). \<not> is_identifier_segment s)"
  using assms
proof (cases rule: normalize_route_cases)
  case 1
  then show ?thesis by (simp add: has_prefix_def is_identifier_segment_def)
next
  case (2 segs)
  have "split_on (CHR ''/'') (join ''/'' segs) = segs"
    using 2(2) by (intro split_on_join) (auto simp: clean_segments_def)
  moreover have "length segs \<le> 9" using 2(3) cap_segments_length [of segs] by simp
  moreover have "set (join ''/'' segs) \<subseteq> {CHR ''/''} \<union> (\<Union>x \<in> set segs. set x)"
    using set_join [of "''/''" segs] by simp
  ultimately show ?thesis
    using 2 by (auto simp: has_prefix_def is_identifier_segment_def)
qed

theorem route_shape_witness:
  "has_prefix (normalize_route ''/api/orders/8123/items?x=1'') ''/''"
  using route_shape [of "''/api/orders/8123/items?x=1''"] by simp

text \<open>(routes are stable) Normalising a route again changes nothing, as long as no segment of
  it reads as the start of an absolute URL.\<close>

theorem route_idempotent:
  assumes "\<not> contains (normalize_route raw) ''://''"
  shows "normalize_route (normalize_route raw) = normalize_route raw"
proof (cases "raw = []")
  case True
  then show ?thesis by (simp add: normalize_route_def)
next
  case False
  then show ?thesis
  proof (cases rule: normalize_route_cases)
    case 1
    then show ?thesis by (simp add: normalize_route_def strip_origin_def strip_query_def has_prefix_def)
  next
    case (2 segs)
    let ?r = "normalize_route raw"
    have "set (join ''/'' segs) \<subseteq> {CHR ''/''} \<union> (\<Union>x \<in> set segs. set x)"
      using set_join [of "''/''" segs] by simp
    then have "\<forall>c \<in> set ?r. c \<noteq> CHR ''?'' \<and> c \<noteq> CHR ''#''"
      using 2(1,5) by auto
    then have p: "strip_query (strip_origin ?r) = ?r"
      using assms by (simp add: strip_origin_id strip_query_id)
    have "join ''/'' segs \<noteq> []" using 2(2) join_hd [of segs] by (auto simp: clean_segments_def)
    moreover have "template_segments ?r = segs"
      using template_of_clean [OF 2(2)] 2(1,3,4) by (auto intro: map_idI)
    ultimately show ?thesis
      using normalize_settled [OF p] 2(1) by simp
  qed
qed

theorem route_idempotent_witness:
  "normalize_route (normalize_route ''http://h:80/api/orders/8123'') =
   normalize_route ''http://h:80/api/orders/8123''"
  by (rule route_idempotent) code_simp

definition plain_segment :: "string \<Rightarrow> bool" where
  "plain_segment s \<longleftrightarrow> s \<noteq> [] \<and> (\<forall>c \<in> set s. c \<notin> {CHR ''/'', CHR ''?'', CHR ''#'', CHR '':''})"

lemma plain_path:
  assumes "segs \<noteq> []" and "\<forall>s \<in> set segs. plain_segment s"
  shows "normalize_route (''/'' @ join ''/'' segs) =
         ''/'' @ join ''/'' (map (\<lambda>seg. if is_identifier_segment seg then ''{id}'' else seg)
                              (cap_segments segs))"
proof -
  let ?r = "''/'' @ join ''/'' segs"
  have clean: "clean_segments segs"
    using assms by (auto simp: clean_segments_def plain_segment_def)
  have "set (join ''/'' segs) \<subseteq> {CHR ''/''} \<union> (\<Union>x \<in> set segs. set x)"
    using set_join [of "''/''" segs] by simp
  then have chars: "\<forall>c \<in> set ?r. c \<notin> {CHR ''?'', CHR ''#'', CHR '':''}"
    using assms(2) by (auto simp: plain_segment_def)
  then have "\<not> contains ?r ''://''" using contains_set [of ?r "''://''"] by auto
  with chars have "strip_query (strip_origin ?r) = ?r"
    using strip_query_id [of ?r] strip_origin_id [of ?r] by auto
  moreover have "join ''/'' segs \<noteq> []" using clean join_hd [of segs] by (auto simp: clean_segments_def)
  ultimately show ?thesis
    using template_of_clean [OF clean] normalize_settled [of ?r] by simp
qed

text \<open>(ids collapse) Two paths of clean segments that differ in one segment only, an
  identifier in both, have the same route: they count as one operation.\<close>

theorem route_groups_ids:
  assumes "is_identifier_segment x" and "is_identifier_segment y"
    and "\<forall>s \<in> set (x # y # pre @ post). plain_segment s"
  shows "normalize_route (''/'' @ join ''/'' (pre @ x # post)) =
         normalize_route (''/'' @ join ''/'' (pre @ y # post))"
proof -
  let ?f = "\<lambda>seg. if is_identifier_segment seg then ''{id}'' else seg"
  have "map ?f (cap_segments (pre @ x # post)) = map ?f (cap_segments (pre @ y # post))"
    using assms(1,2) by (auto simp: cap_segments_def take_Cons split: nat.splits)
  moreover have "\<forall>s \<in> set (pre @ x # post). plain_segment s" "\<forall>s \<in> set (pre @ y # post). plain_segment s"
    using assms(3) by auto
  ultimately show ?thesis
    using plain_path [of "pre @ x # post"] plain_path [of "pre @ y # post"] by simp
qed

theorem route_groups_ids_witness:
  "normalize_route (''/'' @ join ''/'' ([''orders''] @ ''8123'' # [''items''])) =
   normalize_route (''/'' @ join ''/'' ([''orders''] @ ''990417'' # [''items'']))"
  by (rule route_groups_ids)
    (simp_all add: is_identifier_segment_def is_all_digits_def is_digit_def less_eq_char_def
      plain_segment_def)

text \<open>(a URL in the query decides the route) The origin is stripped before the query string,
  and \<open>://\<close> is looked for in the whole text: a path whose query carries a URL, as login redirects
  do, gets the path of that URL as its route, not its own.\<close>

theorem query_url_hijacks_route:
  "normalize_route ''/login?next=https://shop.example/cart'' = ''/cart'' \<and>
   normalize_route ''/login'' = ''/login''"
  by code_simp

end
