(* ===== verification/Convert.thy ===== *)
theory Convert
  imports Spans Route
begin

text \<open>
  \<open>internal/receiver/semconv.go\<close>, \<open>convert.go\<close> and \<open>convert_metrics.go\<close>: flattening OTLP messages into
  the model's spans and metrics.  The message types of go.opentelemetry.io/proto are generated code
  outside the repository; they appear here as records of the fields the getters read, an absent
  submessage reading as its zero value.  \<open>fmt\<close> stands for \<open>strconv.FormatFloat(v, 'f', -1, 64)\<close>.
\<close>

section \<open>OTLP values\<close>

datatype any_value =
    StringValue string
  | BoolValue bool
  | IntValue int
  | DoubleValue f64
  | BytesValue bytes
  | ArrayValue "any_value list"
  | KvlistValue "(string \<times> any_value) list"
  | NoValue

type_synonym key_values = "(string \<times> any_value) list"

definition join_comma :: "string list \<Rightarrow> string" where
  "join_comma parts = join '','' parts"

fun any_value_to_string :: "(f64 \<Rightarrow> string) \<Rightarrow> any_value \<Rightarrow> string" where
  "any_value_to_string fmt (StringValue s) = s"
| "any_value_to_string fmt (BoolValue b) = (if b then ''true'' else ''false'')"
| "any_value_to_string fmt (IntValue i) = itoa i"
| "any_value_to_string fmt (DoubleValue d) = fmt d"
| "any_value_to_string fmt (BytesValue b) = itoa (int (length b)) @ '' bytes''"
| "any_value_to_string fmt (ArrayValue vs) =
     ''['' @ join_comma (map (any_value_to_string fmt) vs) @ '']''"
| "any_value_to_string fmt (KvlistValue kvs) =
     ''{'' @ join_comma (map (\<lambda>(k, v). k @ ''='' @ any_value_to_string fmt v) kvs) @ ''}''"
| "any_value_to_string fmt NoValue = []"

fun attributes_from :: "(f64 \<Rightarrow> string) \<Rightarrow> (string \<rightharpoonup> string) \<Rightarrow> key_values \<Rightarrow> (string \<rightharpoonup> string)" where
  "attributes_from fmt out [] = out"
| "attributes_from fmt out ((k, v) # kvs) =
     (if k = [] then attributes_from fmt out kvs
      else if any_value_to_string fmt v \<noteq> []
        then attributes_from fmt (out(k \<mapsto> any_value_to_string fmt v)) kvs
      else attributes_from fmt out kvs)"

definition attributes_to_map :: "(f64 \<Rightarrow> string) \<Rightarrow> key_values \<Rightarrow> (string \<rightharpoonup> string)" where
  "attributes_to_map fmt kvs = attributes_from fmt Map.empty kvs"

section \<open>Semantic conventions\<close>

fun first_non_empty :: "string list \<Rightarrow> string" where
  "first_non_empty [] = []"
| "first_non_empty (v # vs) = (if v \<noteq> [] then v else first_non_empty vs)"

fun first_non_zero :: "int list \<Rightarrow> int" where
  "first_non_zero [] = 0"
| "first_non_zero (v # vs) = (if v \<noteq> 0 then v else first_non_zero vs)"

definition uninformative_runtimes :: "string set" where
  "uninformative_runtimes = {''generic'', ''unknown'', ''c'', ''cpp'', ''c++'', ''native''}"

definition runtime_aliases :: "string \<rightharpoonup> string" where
  "runtime_aliases =
     [''node'' \<mapsto> ''nodejs'', ''js'' \<mapsto> ''nodejs'', ''dotnet'' \<mapsto> ''dotnet'', ''py'' \<mapsto> ''python'']"

definition detect_runtime :: "(string \<rightharpoonup> string) \<Rightarrow> string" where
  "detect_runtime resource =
     (let language = to_lower (trim_space (get_str resource ''telemetry.sdk.language''))
      in if language \<noteq> [] then
           (if language \<in> uninformative_runtimes then []
            else case runtime_aliases language of Some alias \<Rightarrow> alias | None \<Rightarrow> language)
         else
           (let name = to_lower (get_str resource ''process.runtime.name'')
            in if name = [] then []
               else if contains name ''jdk'' \<or> contains name ''jvm'' \<or> contains name ''java'' \<or>
                       contains name ''openj9'' then ''java''
               else if contains name ''node'' then ''nodejs''
               else if contains name ''python'' \<or> contains name ''cpython'' then ''python''
               else if contains name ''go'' then ''go''
               else []))"

section \<open>Spans\<close>

definition unknown_service :: string where "unknown_service = ''unknown_service''"

record otlp_event =
  oe_time :: "64 word"
  oe_name :: string
  oe_attributes :: key_values

record otlp_span =
  o_trace_id :: bytes
  o_span_id :: bytes
  o_parent_span_id :: bytes
  o_name :: string
  o_kind :: int
  o_start :: "64 word"
  o_end :: "64 word"
  o_status_code :: int
  o_status_message :: string
  o_attributes :: key_values
  o_events :: "otlp_event list"

record resource_spans =
  rs_resource :: key_values
  rs_scopes :: "otlp_span list list"

text \<open>The conversion of a wider integer to \<open>int8\<close>.\<close>

definition to_int8 :: "int \<Rightarrow> int" where
  "to_int8 k = (k + 128) mod 256 - 128"

definition to_id :: "nat \<Rightarrow> bytes \<Rightarrow> bytes option" where
  "to_id n b = (if length b \<noteq> n then None else if is_zero_bytes b then None else Some b)"

definition to_trace_id :: "bytes \<Rightarrow> bytes option" where "to_trace_id b = to_id 16 b"
definition to_span_id :: "bytes \<Rightarrow> bytes option" where "to_span_id b = to_id 8 b"

definition convert_events :: "(f64 \<Rightarrow> string) \<Rightarrow> otlp_event list \<Rightarrow> event list" where
  "convert_events fmt es =
     map (\<lambda>e. \<lparr>ev_timestamp = sint (oe_time e), ev_name = oe_name e,
               ev_attributes = attributes_to_map fmt (oe_attributes e)\<rparr>) es"

definition apply_http :: "span \<Rightarrow> (string \<rightharpoonup> string) \<Rightarrow> span" where
  "apply_http s attrs =
     (let m = first_non_empty [get_str attrs ''http.request.method'', get_str attrs ''http.method'']
      in if m = [] then s\<lparr>http_method := m\<rparr>
         else
           (let code = first_non_zero
                         [atoi_val (get_str attrs ''http.response.status_code''),
                          atoi_val (get_str attrs ''http.status_code'')];
                route = get_str attrs ''http.route'';
                raw = first_non_empty
                        [get_str attrs ''url.path'', get_str attrs ''http.target'',
                         get_str attrs ''url.full'', get_str attrs ''http.url'']
            in s\<lparr>http_method := m, http_status := code,
                 http_route := (if route = [] then normalize_route raw else route)\<rparr>))"

definition apply_database :: "span \<Rightarrow> (string \<rightharpoonup> string) \<Rightarrow> span" where
  "apply_database s attrs =
     (let sys = first_non_empty [get_str attrs ''db.system.name'', get_str attrs ''db.system'']
      in if sys = [] then s\<lparr>db_system := sys\<rparr>
         else s\<lparr>db_system := sys,
                db_statement := first_non_empty [get_str attrs ''db.query.text'',
                                                 get_str attrs ''db.statement''],
                db_name := first_non_empty [get_str attrs ''db.namespace'', get_str attrs ''db.name'']\<rparr>)"

definition apply_peer :: "span \<Rightarrow> (string \<rightharpoonup> string) \<Rightarrow> span" where
  "apply_peer s attrs =
     (if span_kind s = KindClient \<or> span_kind s = KindProducer
      then s\<lparr>peer_service := first_non_empty
               [get_str attrs ''peer.service'', get_str attrs ''server.address'',
                get_str attrs ''net.peer.name'', get_str attrs ''messaging.destination.name'']\<rparr>
      else s)"

definition copy_attr :: "string \<Rightarrow> (string \<rightharpoonup> string) \<Rightarrow> (string \<rightharpoonup> string) \<Rightarrow> (string \<rightharpoonup> string)" where
  "copy_attr k resource m = (if get_str resource k \<noteq> [] then m(k \<mapsto> get_str resource k) else m)"

definition span_duration_of :: "64 word \<Rightarrow> 64 word \<Rightarrow> 64 word" where
  "span_duration_of start finish = (if finish > start then finish - start else 0)"

definition convert_span ::
  "(f64 \<Rightarrow> string) \<Rightarrow> otlp_span \<Rightarrow> string \<Rightarrow> string \<Rightarrow> int \<Rightarrow> (string \<rightharpoonup> string) \<Rightarrow> span option" where
  "convert_span fmt s svc host proc resource =
     (case to_trace_id (o_trace_id s) of None \<Rightarrow> None
      | Some tid \<Rightarrow>
        (case to_span_id (o_span_id s) of None \<Rightarrow> None
         | Some sid \<Rightarrow>
           if o_start s = 0 then None
           else
             (let attrs = attributes_to_map fmt (o_attributes s);
                  base =
                    \<lparr>timestamp = sint (o_start s),
                     span_duration = span_duration_of (o_start s) (o_end s),
                     trace_id = tid, span_id = sid,
                     parent_span_id = (case to_span_id (o_parent_span_id s) of
                                         Some parent \<Rightarrow> parent | None \<Rightarrow> zero_span_id),
                     service = svc, operation = o_name s,
                     span_kind = span_kind_of (to_int8 (o_kind s)),
                     status = status_code_of (to_int8 (o_status_code s)),
                     status_message = o_status_message s,
                     http_method = [], http_route = [], http_status = 0,
                     db_system = [], db_statement = [], db_name = [], peer_service = [],
                     host_name = host, pid = proc, runtime = detect_runtime resource,
                     attributes = Map.empty, events = convert_events fmt (o_events s)\<rparr>;
                  promoted = apply_peer (apply_database (apply_http base attrs) attrs) attrs
              in Some (promoted\<lparr>attributes :=
                   copy_attr ''service.version'' resource
                     (copy_attr ''apm2go.injected'' resource
                       (copy_attr ''container.id'' resource attrs))\<rparr>))))"

fun convert_all ::
  "(f64 \<Rightarrow> string) \<Rightarrow> string \<Rightarrow> string \<Rightarrow> int \<Rightarrow> (string \<rightharpoonup> string) \<Rightarrow> otlp_span list \<Rightarrow> span list \<times> nat" where
  "convert_all fmt svc host proc resource [] = ([], 0)"
| "convert_all fmt svc host proc resource (s # ss) =
     (case convert_all fmt svc host proc resource ss of (out, skipped) \<Rightarrow>
        case convert_span fmt s svc host proc resource of
          None \<Rightarrow> (out, skipped + 1)
        | Some sp \<Rightarrow> (sp # out, skipped))"

definition convert_resource :: "(f64 \<Rightarrow> string) \<Rightarrow> resource_spans \<Rightarrow> span list \<times> nat" where
  "convert_resource fmt rs =
     (let resource = attributes_to_map fmt (rs_resource rs)
      in convert_all fmt (first_non_empty [get_str resource ''service.name'', unknown_service])
           (get_str resource ''host.name'') (atoi_val (get_str resource ''process.pid'')) resource
           (concat (rs_scopes rs)))"

fun convert :: "(f64 \<Rightarrow> string) \<Rightarrow> resource_spans list \<Rightarrow> span list \<times> nat" where
  "convert fmt [] = ([], 0)"
| "convert fmt (rs # rss) =
     (case convert_resource fmt rs of (a, m) \<Rightarrow> case convert fmt rss of (b, n) \<Rightarrow> (a @ b, m + n))"

section \<open>Metrics\<close>

datatype number_value = AsDouble f64 | AsInt int | NoNumber

record number_point =
  np_time :: "64 word"
  np_value :: number_value
  np_attributes :: key_values

record histogram_point =
  hp_time :: "64 word"
  hp_count :: "64 word"
  hp_sum :: f64
  hp_bounds :: "f64 list"
  hp_counts :: "64 word list"
  hp_attributes :: key_values

datatype metric_data =
    GaugeData "number_point list"
  | SumData bool "number_point list"
  | HistogramData "histogram_point list"
  | OtherData

record otlp_metric =
  om_name :: string
  om_unit :: string
  om_data :: metric_data

record resource_metrics =
  rm_resource :: key_values
  rm_scopes :: "otlp_metric list list"

definition point_time :: "64 word \<Rightarrow> gotime" where
  "point_time t = (if t = 0 then zero_time else sint t)"

definition number_point_metric ::
  "(f64 \<Rightarrow> string) \<Rightarrow> number_point \<Rightarrow> string \<Rightarrow> string \<Rightarrow> metric_kind \<Rightarrow> string \<Rightarrow> string \<Rightarrow> int \<Rightarrow> metric option" where
  "number_point_metric fmt p nm unt k svc host proc =
     (if is_zero_time (point_time (np_time p)) then None
      else
        (case np_value p of NoNumber \<Rightarrow> None
         | v \<Rightarrow>
            (let x = (case v of AsDouble d \<Rightarrow> d | AsInt i \<Rightarrow> Fin (of_int i) | NoNumber \<Rightarrow> Fin 0)
             in if x = NaN \<or> x = PosInf \<or> x = NegInf then None
                else Some \<lparr>m_timestamp = point_time (np_time p), m_name = nm, m_kind = k,
                           m_service = svc, m_host_name = host, m_pid = proc, m_value = x,
                           m_count = 0, m_sum = Fin 0, m_buckets = [], m_unit = unt,
                           m_attributes = attributes_to_map fmt (np_attributes p)\<rparr>)))"

definition zip_buckets :: "f64 list \<Rightarrow> 64 word list \<Rightarrow> bucket list" where
  "zip_buckets bounds counts =
     map (\<lambda>(i, c). \<lparr>upper_bound = (if i < length bounds then bounds ! i else PosInf),
                    bucket_count = c\<rparr>) (enumerate 0 counts)"

definition histogram_point_metric ::
  "(f64 \<Rightarrow> string) \<Rightarrow> histogram_point \<Rightarrow> string \<Rightarrow> string \<Rightarrow> string \<Rightarrow> string \<Rightarrow> int \<Rightarrow> metric option" where
  "histogram_point_metric fmt p nm unt svc host proc =
     (if is_zero_time (point_time (hp_time p)) then None
      else Some \<lparr>m_timestamp = point_time (hp_time p), m_name = nm, m_kind = KindHistogram,
                 m_service = svc, m_host_name = host, m_pid = proc, m_value = Fin 0,
                 m_count = hp_count p,
                 m_sum = (if hp_sum p = NaN \<or> hp_sum p = PosInf \<or> hp_sum p = NegInf then Fin 0
                          else hp_sum p),
                 m_buckets = zip_buckets (hp_bounds p) (hp_counts p), m_unit = unt,
                 m_attributes = attributes_to_map fmt (hp_attributes p)\<rparr>)"

fun keep_points :: "('p \<Rightarrow> metric option) \<Rightarrow> 'p list \<Rightarrow> metric list \<times> nat" where
  "keep_points f [] = ([], 0)"
| "keep_points f (p # ps) =
     (case keep_points f ps of (out, skipped) \<Rightarrow>
        case f p of None \<Rightarrow> (out, skipped + 1) | Some m \<Rightarrow> (m # out, skipped))"

definition convert_metric ::
  "(f64 \<Rightarrow> string) \<Rightarrow> string \<Rightarrow> string \<Rightarrow> int \<Rightarrow> otlp_metric \<Rightarrow> metric list \<times> nat" where
  "convert_metric fmt svc host proc m =
     (let nm = om_name m; unt = om_unit m
      in if nm = [] then ([], 1)
         else (case om_data m of
                 GaugeData ps \<Rightarrow>
                   keep_points (\<lambda>p. number_point_metric fmt p nm unt KindGauge svc host proc) ps
               | SumData monotonic ps \<Rightarrow>
                   keep_points (\<lambda>p. number_point_metric fmt p nm unt
                                  (if \<not> monotonic then KindGauge else KindSum) svc host proc) ps
               | HistogramData ps \<Rightarrow>
                   keep_points (\<lambda>p. histogram_point_metric fmt p nm unt svc host proc) ps
               | OtherData \<Rightarrow> ([], 1)))"

fun convert_metric_list ::
  "(f64 \<Rightarrow> string) \<Rightarrow> string \<Rightarrow> string \<Rightarrow> int \<Rightarrow> otlp_metric list \<Rightarrow> metric list \<times> nat" where
  "convert_metric_list fmt svc host proc [] = ([], 0)"
| "convert_metric_list fmt svc host proc (m # ms) =
     (case convert_metric fmt svc host proc m of (a, i) \<Rightarrow>
      case convert_metric_list fmt svc host proc ms of (b, j) \<Rightarrow> (a @ b, i + j))"

fun convert_metrics :: "(f64 \<Rightarrow> string) \<Rightarrow> resource_metrics list \<Rightarrow> metric list \<times> nat" where
  "convert_metrics fmt [] = ([], 0)"
| "convert_metrics fmt (rm # rms) =
     (let resource = attributes_to_map fmt (rm_resource rm)
      in case convert_metric_list fmt
                (first_non_empty [get_str resource ''service.name'', unknown_service])
                (get_str resource ''host.name'') (atoi_val (get_str resource ''process.pid''))
                (concat (rm_scopes rm)) of (a, i) \<Rightarrow>
         case convert_metrics fmt rms of (b, j) \<Rightarrow> (a @ b, i + j))"

section \<open>Lemmas\<close>

lemma first_non_empty_in: "first_non_empty vs \<noteq> [] \<Longrightarrow> first_non_empty vs \<in> set vs"
  by (induction vs) auto

lemma first_non_empty_default: "d \<noteq> [] \<Longrightarrow> first_non_empty [v, d] \<noteq> []"
  by simp

lemma to_id_Some: "to_id n b = Some c \<longleftrightarrow> c = b \<and> length b = n \<and> \<not> is_zero_bytes b"
  by (auto simp: to_id_def)

lemma apply_frame:
  "trace_id (apply_peer (apply_database (apply_http s m) m) m) = trace_id s"
  "span_id (apply_peer (apply_database (apply_http s m) m) m) = span_id s"
  "service (apply_peer (apply_database (apply_http s m) m) m) = service s"
  "span_duration (apply_peer (apply_database (apply_http s m) m) m) = span_duration s"
  "timestamp (apply_peer (apply_database (apply_http s m) m) m) = timestamp s"
  "parent_span_id (apply_peer (apply_database (apply_http s m) m) m) = parent_span_id s"
  by (simp_all add: apply_peer_def apply_database_def apply_http_def Let_def)

definition usable_span :: "span \<Rightarrow> bool" where
  "usable_span s \<longleftrightarrow> length (trace_id s) = 16 \<and> \<not> is_zero_bytes (trace_id s) \<and>
     length (span_id s) = 8 \<and> \<not> is_zero_bytes (span_id s) \<and>
     length (parent_span_id s) = 8 \<and> service s \<noteq> [] \<and> timestamp s \<noteq> 0"

lemma convert_span_usable:
  "svc \<noteq> [] \<Longrightarrow> convert_span fmt s svc host proc resource = Some sp \<Longrightarrow> usable_span sp"
  by (auto simp: convert_span_def to_trace_id_def to_span_id_def to_id_Some Let_def usable_span_def
      apply_frame signed_eq_0_iff split: option.splits if_splits)

lemma convert_all_spec:
  "length (fst (convert_all fmt svc host proc r ss)) + snd (convert_all fmt svc host proc r ss) = length ss \<and>
   (svc \<noteq> [] \<longrightarrow> (\<forall>sp \<in> set (fst (convert_all fmt svc host proc r ss)). usable_span sp))"
  by (induction ss) (auto split: prod.splits option.splits dest: convert_span_usable)

definition span_total :: "resource_spans list \<Rightarrow> nat" where
  "span_total rss = sum_list (map (\<lambda>rs. length (concat (rs_scopes rs))) rss)"

section \<open>Properties\<close>

text \<open>(conversion accounts for every span, and only usable spans survive) The spans kept and the
  spans reported as skipped add up to the spans received; every span kept has a trace id and a
  span id of the right size that are not zero, a start time and a service name.\<close>

theorem convert_accounts:
  "length (fst (convert fmt rss)) + snd (convert fmt rss) = span_total rss \<and>
   list_all usable_span (fst (convert fmt rss))"
proof (induction rss)
  case (Cons rs rss)
  have "length (fst (convert_resource fmt rs)) + snd (convert_resource fmt rs)
          = length (concat (rs_scopes rs)) \<and> list_all usable_span (fst (convert_resource fmt rs))"
    unfolding convert_resource_def Let_def list_all_iff
    by (intro conjI convert_all_spec [THEN conjunct1] convert_all_spec [THEN conjunct2, THEN mp])
      (auto simp: unknown_service_def)
  with Cons show ?case by (auto simp: span_total_def simp del: length_concat split: prod.splits)
qed (simp add: span_total_def)

text \<open>(what a duration is) The duration of a converted span is the difference of its end and
  start when the end comes later and zero otherwise; read as the signed \<open>time.Duration\<close> it is, it
  is not negative exactly when that difference stays below \<open>2^63\<close> nanoseconds.\<close>

theorem duration_clamped:
  "uint (span_duration_of a b) = max 0 (uint b - uint a) \<and>
   (0 \<le> sint (span_duration_of a b) \<longleftrightarrow> uint b - uint a < 2 ^ 63)"
proof -
  have u: "uint (span_duration_of a b) = max 0 (uint b - uint a)"
    unfolding span_duration_of_def word_less_def by (auto simp: uint_sub_if' max_def)
  then show ?thesis unfolding sint_nonneg_iff by (auto simp: max_def)
qed

text \<open>(a far end time gives a negative duration) The code clamps to zero so that no negative
  duration is stored, but the conversion of a difference of \<open>2^63\<close> or more to \<open>time.Duration\<close>
  wraps: a span that starts at 1 and ends at the largest time has a duration of -2.\<close>

theorem negative_duration_possible:
  "sint (span_duration_of 1 18446744073709551615) = - 2"
  by (simp add: span_duration_of_def)

text \<open>(no guess about the runtime) What \<open>detectRuntime\<close> answers is never one of the values a
  producer sends when it does not know, and for a producer that named such a value the answer is
  empty, which leaves the question to apm2go's own discovery.\<close>

theorem detect_runtime_informative:
  "detect_runtime r \<notin> uninformative_runtimes \<and>
   (to_lower (trim_space (get_str r ''telemetry.sdk.language'')) \<in> uninformative_runtimes \<longrightarrow>
      detect_runtime r = [])"
  by (auto simp: detect_runtime_def uninformative_runtimes_def runtime_aliases_def Let_def
      split: option.splits if_splits)

theorem detect_runtime_informative_witness:
  "detect_runtime [''telemetry.sdk.language'' \<mapsto> '' C++''] = []"
proof -
  have "to_lower (trim_space (get_str [''telemetry.sdk.language'' \<mapsto> '' C++''] ''telemetry.sdk.language''))
          \<in> uninformative_runtimes"
    by code_simp
  then show ?thesis using detect_runtime_informative by blast
qed

definition finite_f64 :: "f64 \<Rightarrow> bool" where
  "finite_f64 x \<longleftrightarrow> x \<noteq> NaN \<and> x \<noteq> PosInf \<and> x \<noteq> NegInf"

text \<open>A metric the store can aggregate: named, on the time axis, with finite numbers.\<close>

definition storable_metric :: "metric \<Rightarrow> bool" where
  "storable_metric m \<longleftrightarrow> \<not> metric_is_zero m \<and> finite_f64 (m_value m) \<and> finite_f64 (m_sum m) \<and>
     m_service m \<noteq> []"

lemma number_point_storable:
  "nm \<noteq> [] \<Longrightarrow> svc \<noteq> [] \<Longrightarrow> number_point_metric fmt p nm unt k svc host proc = Some m \<Longrightarrow>
     storable_metric m"
  by (auto simp: number_point_metric_def storable_metric_def metric_is_zero_def finite_f64_def Let_def
      split: if_splits number_value.splits)

lemma histogram_point_storable:
  "nm \<noteq> [] \<Longrightarrow> svc \<noteq> [] \<Longrightarrow> histogram_point_metric fmt p nm unt svc host proc = Some m \<Longrightarrow>
     storable_metric m"
  by (auto simp: histogram_point_metric_def storable_metric_def metric_is_zero_def finite_f64_def
      split: if_splits)

lemma keep_points_spec:
  "length (fst (keep_points f ps)) + snd (keep_points f ps) = length ps \<and>
   (\<forall>m \<in> set (fst (keep_points f ps)). \<exists>p. f p = Some m)"
  by (induction ps) (auto split: prod.splits option.splits)

lemma keep_points_length:
  "length (fst (keep_points f ps)) + snd (keep_points f ps) = length ps"
  using keep_points_spec [of f ps] by simp

fun points_of :: "metric_data \<Rightarrow> nat" where
  "points_of (GaugeData ps) = length ps"
| "points_of (SumData _ ps) = length ps"
| "points_of (HistogramData ps) = length ps"
| "points_of OtherData = 1"

text \<open>How many points an instrument stands for: its data points, or one when it is nameless.\<close>

definition metric_points :: "otlp_metric \<Rightarrow> nat" where
  "metric_points m = (if om_name m = [] then 1 else points_of (om_data m))"

lemma convert_metric_spec:
  assumes "svc \<noteq> []"
  shows "length (fst (convert_metric fmt svc host proc m)) + snd (convert_metric fmt svc host proc m)
           = metric_points m \<and> list_all storable_metric (fst (convert_metric fmt svc host proc m))"
proof -
  have keep: "list_all storable_metric (fst (keep_points f ps))"
    if "\<And>p m. f p = Some m \<Longrightarrow> storable_metric m" for f :: "'q \<Rightarrow> metric option" and ps
    using keep_points_spec [of f ps] that by (auto simp: list_all_iff)
  show ?thesis
    unfolding convert_metric_def metric_points_def Let_def
    using assms
    by (auto simp: keep_points_length split: metric_data.splits intro!: keep
        intro: number_point_storable histogram_point_storable)
qed

lemma convert_metric_list_spec:
  "svc \<noteq> [] \<Longrightarrow>
   length (fst (convert_metric_list fmt svc host proc ms)) + snd (convert_metric_list fmt svc host proc ms)
     = sum_list (map metric_points ms) \<and>
   list_all storable_metric (fst (convert_metric_list fmt svc host proc ms))"
proof (induction ms)
  case (Cons m ms)
  then show ?case using convert_metric_spec [of svc fmt host proc m] by (auto split: prod.splits)
qed simp

text \<open>(metric conversion accounts for every point and stores only finite numbers) Points kept
  and points skipped add up to the points received, a nameless or unsupported instrument counting
  as one; every metric kept has a name, a time, a service and no NaN or infinity in its value or
  sum.\<close>

theorem convert_metrics_accounts:
  "length (fst (convert_metrics fmt rms)) + snd (convert_metrics fmt rms) =
     sum_list (map (\<lambda>rm. sum_list (map metric_points (concat (rm_scopes rm)))) rms) \<and>
   list_all storable_metric (fst (convert_metrics fmt rms))"
proof (induction rms)
  case (Cons rm rms)
  let ?r = "attributes_to_map fmt (rm_resource rm)"
  have "first_non_empty [get_str ?r ''service.name'', unknown_service] \<noteq> []"
    by (simp add: unknown_service_def)
  from convert_metric_list_spec [OF this, of fmt "get_str ?r ''host.name''"
      "atoi_val (get_str ?r ''process.pid'')" "concat (rm_scopes rm)"] Cons
  show ?case by (auto simp: Let_def simp del: first_non_empty.simps split: prod.splits)
qed simp

text \<open>(histogram buckets) A histogram with one count more than bounds keeps every count, in
  order, with its bound, and its last bucket, and no other one with a finite bound, is the
  unbounded one.\<close>

theorem histogram_buckets:
  assumes "length counts = length bounds + 1" and "\<forall>b \<in> set bounds. finite_f64 b"
  shows "map bucket_count (zip_buckets bounds counts) = counts \<and>
         map upper_bound (butlast (zip_buckets bounds counts)) = bounds \<and>
         (\<forall>i < length counts. is_unbounded (zip_buckets bounds counts ! i) \<longleftrightarrow> i = length bounds)"
proof -
  have len: "length (zip_buckets bounds counts) = length counts" by (simp add: zip_buckets_def)
  have nth: "zip_buckets bounds counts ! i =
      \<lparr>upper_bound = (if i < length bounds then bounds ! i else PosInf), bucket_count = counts ! i\<rparr>"
    if "i < length counts" for i
    using that by (simp add: zip_buckets_def nth_enumerate_eq)
  have "map bucket_count (zip_buckets bounds counts) = counts"
    by (rule nth_equalityI) (auto simp: len nth)
  moreover have "map upper_bound (butlast (zip_buckets bounds counts)) = bounds"
    by (rule nth_equalityI) (use assms(1) in \<open>auto simp: len nth nth_butlast\<close>)
  moreover have "is_unbounded (zip_buckets bounds counts ! i) \<longleftrightarrow> i = length bounds"
    if "i < length counts" for i
    using that assms nth [OF that] by (auto simp: is_unbounded_def finite_f64_def dest: nth_mem)
  ultimately show ?thesis by blast
qed

theorem histogram_buckets_witness:
  "map bucket_count (zip_buckets [Fin 5, Fin 10] [1, 2, 3]) = [1, 2, 3]"
  using histogram_buckets [of "[1, 2, 3]" "[Fin 5, Fin 10]"] by (simp add: finite_f64_def)

end
