(* ===== verification/Ingest_Limits.thy ===== *)
theory Ingest_Limits
  imports Go_Strings
begin

text \<open>
  \<open>internal/pipeline/limits.go\<close>: the token bucket that bounds the ingest rate, and the guard
  that bounds how many names are stored.  The clock is an argument of each call; tokens are exact
  rationals where the code has a \<open>float64\<close>.
\<close>

section \<open>The rate limiter\<close>

record rate_limiter =
  rl_limit :: int
  rl_tokens :: rat
  rl_last_fill :: gotime

definition new_rate_limiter :: "int \<Rightarrow> gotime \<Rightarrow> rate_limiter" where
  "new_rate_limiter per_second now =
     \<lparr>rl_limit = per_second, rl_tokens = of_int per_second, rl_last_fill = now\<rparr>"

definition allow :: "rate_limiter \<Rightarrow> gotime \<Rightarrow> rate_limiter \<times> bool" where
  "allow r now =
     (if rl_limit r \<le> 0 then (r, True)
      else
        let elapsed = of_int (now - rl_last_fill r) / of_int second;
            filled = rl_tokens r + elapsed * of_int (rl_limit r);
            capped = (if filled > of_int (rl_limit r) then of_int (rl_limit r) else filled);
            r' = r\<lparr>rl_last_fill := now\<rparr>
        in if capped < 1 then (r'\<lparr>rl_tokens := capped\<rparr>, False)
           else (r'\<lparr>rl_tokens := capped - 1\<rparr>, True))"

text \<open>A sequence of calls at given times, and how many of them were admitted.\<close>

fun allow_run :: "rate_limiter \<Rightarrow> gotime list \<Rightarrow> rate_limiter \<times> nat" where
  "allow_run r [] = (r, 0)"
| "allow_run r (t # ts) =
     (case allow r t of (r', ok) \<Rightarrow>
        case allow_run r' ts of (r'', n) \<Rightarrow> (r'', if ok then Suc n else n))"

definition rl_ok :: "rate_limiter \<Rightarrow> bool" where
  "rl_ok r \<longleftrightarrow> 0 < rl_limit r \<and> 0 \<le> rl_tokens r \<and> rl_tokens r \<le> of_int (rl_limit r)"

fun clock_from :: "gotime \<Rightarrow> gotime list \<Rightarrow> bool" where
  "clock_from t [] = True"
| "clock_from t (u # us) = (t \<le> u \<and> clock_from u us)"

lemma rl_ok_new: "0 < n \<Longrightarrow> rl_ok (new_rate_limiter n t)"
  by (simp add: rl_ok_def new_rate_limiter_def)

lemma allow_step:
  assumes "rl_ok r" and "rl_last_fill r \<le> now" and "allow r now = (r', ok)"
  shows "rl_ok r'" and "rl_limit r' = rl_limit r" and "rl_last_fill r' = now"
    and "(if ok then 1 else 0) + rl_tokens r' \<le>
           rl_tokens r + of_int (now - rl_last_fill r) / of_int second * of_int (rl_limit r)"
proof -
  have "0 \<le> of_int (now - rl_last_fill r) / of_int second * (of_int (rl_limit r) :: rat)"
    using assms(1,2) by (auto simp: rl_ok_def)
  with assms show "rl_ok r'" "rl_limit r' = rl_limit r" "rl_last_fill r' = now"
    "(if ok then 1 else 0) + rl_tokens r' \<le>
       rl_tokens r + of_int (now - rl_last_fill r) / of_int second * of_int (rl_limit r)"
    by (auto simp: rl_ok_def allow_def Let_def split: if_splits)
qed

lemma allow_run_budget:
  "rl_ok r \<Longrightarrow> clock_from (rl_last_fill r) ts \<Longrightarrow> allow_run r ts = (r', n) \<Longrightarrow>
     rl_ok r' \<and> of_nat n + rl_tokens r' \<le>
       rl_tokens r + of_int (last (rl_last_fill r # ts) - rl_last_fill r) / of_int second
                       * of_int (rl_limit r)"
proof (induction ts arbitrary: r n)
  case Nil
  then show ?case by simp
next
  case (Cons t ts)
  obtain r1 ok where a: "allow r t = (r1, ok)" by force
  obtain n1 where rest: "allow_run r1 ts = (r', n1)" and n: "n = (if ok then Suc n1 else n1)"
    using Cons.prems(3) a by (auto split: prod.splits)
  have t: "rl_last_fill r \<le> t" "clock_from t ts" using Cons.prems(2) by auto
  note s = allow_step [OF Cons.prems(1) t(1) a]
  from Cons.IH [OF s(1) _ rest] s(3) t(2)
  have ih: "rl_ok r'" "of_nat n1 + rl_tokens r' \<le>
      rl_tokens r1 + of_int (last (t # ts) - t) / of_int second * of_int (rl_limit r)"
    using s(2) by auto
  have "of_int (t - rl_last_fill r) / of_int second * of_int (rl_limit r)
      + of_int (last (t # ts) - t) / of_int second * of_int (rl_limit r)
      = of_int (last (rl_last_fill r # t # ts) - rl_last_fill r) / of_int second
        * (of_int (rl_limit r) :: rat)"
    by (simp add: field_simps)
  with ih s(4) n show ?case by auto
qed

text \<open>(the token bucket keeps its ceiling) Over any sequence of calls on a clock that does
  not run backwards, a fresh limiter of \<open>n\<close> spans per second admits at most one second's worth
  plus \<open>n\<close> for every second that passed: an idle period never banks more than one second.\<close>

theorem rate_limiter_ceiling:
  assumes "0 < n" and "clock_from t0 ts"
  shows "of_nat (snd (allow_run (new_rate_limiter n t0) ts)) \<le>
           (of_int n + of_int (last (t0 # ts) - t0) / of_int second * of_int n :: rat)"
proof -
  obtain r' k where k: "allow_run (new_rate_limiter n t0) ts = (r', k)" by force
  have "clock_from (rl_last_fill (new_rate_limiter n t0)) ts"
    using assms(2) by (simp add: new_rate_limiter_def)
  from allow_run_budget [OF rl_ok_new [OF assms(1)] this k]
  show ?thesis using k by (auto simp: rl_ok_def new_rate_limiter_def)
qed

theorem rate_limiter_ceiling_witness:
  "of_nat (snd (allow_run (new_rate_limiter 2 0) [0, 0, 0, 250000000])) \<le> (5 / 2 :: rat) \<and>
   snd (allow_run (new_rate_limiter 2 0) [0, 0, 0, 250000000]) = 2"
  using rate_limiter_ceiling [of 2 0 "[0, 0, 0, 250000000]"]
  by (simp add: allow_def new_rate_limiter_def Let_def)

text \<open>(the limiter never starves) With a limit of at least one per second, a call made a
  second or more after the previous one is admitted, whatever happened before; a limit of zero or
  less admits everything and changes nothing.\<close>

theorem rate_limiter_recovers:
  "(rl_ok r \<and> rl_last_fill r + second \<le> now \<longrightarrow> snd (allow r now)) \<and>
   (rl_limit r \<le> 0 \<longrightarrow> allow r now = (r, True))"
proof -
  { assume a: "rl_ok r" "rl_last_fill r + second \<le> now"
    let ?L = "of_int (rl_limit r) :: rat"
    let ?e = "of_int (now - rl_last_fill r) / of_int second :: rat"
    have "of_int second \<le> (of_int (now - rl_last_fill r) :: rat)"
      using a(2) by (simp only: of_int_le_iff)
    then have "1 \<le> ?e" by simp
    moreover have L: "1 \<le> ?L" "0 \<le> rl_tokens r" using a(1) by (auto simp: rl_ok_def)
    ultimately have "?L \<le> ?e * ?L" using mult_right_mono [of 1 ?e ?L] by simp
    then have filled: "1 \<le> rl_tokens r + ?e * ?L" using L by linarith
    have "0 < rl_limit r" using a(1) by (simp add: rl_ok_def)
    with filled L(1) have "snd (allow r now)"
      unfolding allow_def Let_def by (auto simp del: of_int_diff) }
  then show ?thesis by (simp add: allow_def)
qed

theorem rate_limiter_recovers_witness:
  "snd (allow \<lparr>rl_limit = 1, rl_tokens = 0, rl_last_fill = 5\<rparr> (5 + second))"
  using rate_limiter_recovers [of "\<lparr>rl_limit = 1, rl_tokens = 0, rl_last_fill = 5\<rparr>" "5 + second"]
  by (simp add: rl_ok_def)

section \<open>The cardinality guard\<close>

definition overflow_label :: string where
  "overflow_label = ''__other__''"

abbreviation nul :: char where "nul \<equiv> CHR 0x00"

record cardinality_guard =
  cg_max_services :: int
  cg_max_operations :: int
  cg_services :: "string set"
  cg_operations :: "string set"

definition new_cardinality_guard :: "int \<Rightarrow> int \<Rightarrow> cardinality_guard" where
  "new_cardinality_guard ms mo =
     \<lparr>cg_max_services = ms, cg_max_operations = mo, cg_services = {}, cg_operations = {}\<rparr>"

text \<open>Everything after the first NUL byte, or the whole key.\<close>

fun trim_service_prefix :: "string \<Rightarrow> string" where
  "trim_service_prefix [] = []"
| "trim_service_prefix (c # cs) =
     (if nul \<notin> set (c # cs) then c # cs
      else if c = nul then cs else trim_service_prefix cs)"

text \<open>\<open>admit\<close> takes the read lock, then the write lock.  The set it finds under the second lock may
  have grown in between, so the two halves are separate: \<open>admit_read\<close> answers from the first set
  when it can, \<open>admit_write\<close> re-checks against the second.\<close>

definition admit_read :: "string set \<Rightarrow> string \<Rightarrow> int \<Rightarrow> string option" where
  "admit_read S key mx =
     (if key \<in> S then Some (trim_service_prefix key)
      else if mx > 0 \<and> int (card S) \<ge> mx then Some overflow_label else None)"

definition admit_write :: "string set \<Rightarrow> string \<Rightarrow> int \<Rightarrow> string set \<times> string" where
  "admit_write S key mx =
     (if mx > 0 \<and> int (card S) \<ge> mx \<and> key \<notin> S then (S, overflow_label)
      else (insert key S, trim_service_prefix key))"

definition admit :: "string set \<Rightarrow> string set \<Rightarrow> string \<Rightarrow> int \<Rightarrow> string set \<times> string" where
  "admit S1 S2 key mx =
     (case admit_read S1 key mx of Some l \<Rightarrow> (S2, l) | None \<Rightarrow> admit_write S2 key mx)"

definition guard_service :: "cardinality_guard \<Rightarrow> string \<Rightarrow> cardinality_guard \<times> string" where
  "guard_service g name =
     (if name = [] then (g, overflow_label)
      else (case admit (cg_services g) (cg_services g) name (cg_max_services g) of
              (S, l) \<Rightarrow> (g\<lparr>cg_services := S\<rparr>, l)))"

definition guard_operation ::
  "cardinality_guard \<Rightarrow> string \<Rightarrow> string \<Rightarrow> cardinality_guard \<times> string" where
  "guard_operation g svc name =
     (if name = [] then (g, overflow_label)
      else (case admit (cg_operations g) (cg_operations g) (svc @ nul # name) (cg_max_operations g) of
              (S, l) \<Rightarrow> (g\<lparr>cg_operations := S\<rparr>, if l = overflow_label then overflow_label else name)))"

definition guard_counts :: "cardinality_guard \<Rightarrow> nat \<times> nat" where
  "guard_counts g = (card (cg_services g), card (cg_operations g))"

definition fits_budget :: "int \<Rightarrow> string set \<Rightarrow> bool" where
  "fits_budget mx S \<longleftrightarrow> finite S \<and> (mx > 0 \<longrightarrow> int (card S) \<le> mx)"

definition guard_ok :: "cardinality_guard \<Rightarrow> bool" where
  "guard_ok g \<longleftrightarrow> fits_budget (cg_max_services g) (cg_services g) \<and>
                 fits_budget (cg_max_operations g) (cg_operations g)"

lemma trim_service_prefix_id: "nul \<notin> set s \<Longrightarrow> trim_service_prefix s = s"
  by (cases s) auto

lemma trim_service_prefix_key: "nul \<notin> set svc \<Longrightarrow> trim_service_prefix (svc @ nul # name) = name"
  by (induction svc) auto

lemma admit_write_fits: "fits_budget mx S \<Longrightarrow> fits_budget mx (fst (admit_write S key mx))"
  by (auto simp: admit_write_def fits_budget_def card_insert_if)

text \<open>The bound holds whatever other goroutines added between the two locks.\<close>

lemma admit_fits: "fits_budget mx S2 \<Longrightarrow> fits_budget mx (fst (admit S1 S2 key mx))"
  by (auto simp: admit_def admit_write_fits split: option.splits)

lemma admit_mono: "S2 \<subseteq> fst (admit S1 S2 key mx)"
  by (auto simp: admit_def admit_write_def split: option.splits)

lemma admit_known: "key \<in> S1 \<Longrightarrow> admit S1 S2 key mx = (S2, trim_service_prefix key)"
  by (simp add: admit_def admit_read_def)

lemma admit_label:
  "snd (admit S S key mx) =
     (if key \<in> fst (admit S S key mx) then trim_service_prefix key else overflow_label)"
  by (auto simp: admit_def admit_read_def admit_write_def split: option.splits if_splits)

text \<open>A run of the guard over the names of spans, service first, as \<open>normalize\<close> calls it: the
  operation is filed under the label the service got.\<close>

fun guard_run ::
  "cardinality_guard \<Rightarrow> (string \<times> string) list \<Rightarrow> cardinality_guard \<times> (string \<times> string) list" where
  "guard_run g [] = (g, [])"
| "guard_run g ((s, n) # xs) =
     (case guard_service g s of (g1, s') \<Rightarrow>
      case guard_operation g1 s' n of (g2, n') \<Rightarrow>
      case guard_run g2 xs of (g3, ys) \<Rightarrow> (g3, (s', n') # ys))"

lemma guard_service_fst:
  "fst (guard_service g n) =
     (if n = [] then g
      else g\<lparr>cg_services := fst (admit (cg_services g) (cg_services g) n (cg_max_services g))\<rparr>)"
  by (simp add: guard_service_def split: prod.splits)

lemma guard_service_snd:
  "snd (guard_service g n) =
     (if n = [] then overflow_label
      else snd (admit (cg_services g) (cg_services g) n (cg_max_services g)))"
  by (simp add: guard_service_def split: prod.splits)

lemma guard_operation_fst:
  "fst (guard_operation g s n) =
     (if n = [] then g
      else g\<lparr>cg_operations := fst (admit (cg_operations g) (cg_operations g) (s @ nul # n)
                                       (cg_max_operations g))\<rparr>)"
  by (simp add: guard_operation_def split: prod.splits)

lemma guard_run_Cons_fst:
  "fst (guard_run g ((s, n) # xs)) =
     fst (guard_run (fst (guard_operation (fst (guard_service g s)) (snd (guard_service g s)) n)) xs)"
  by (simp split: prod.splits)

lemma guard_service_ok: "guard_ok g \<Longrightarrow> guard_ok (fst (guard_service g n))"
  by (simp add: guard_service_fst guard_ok_def admit_fits)

lemma guard_operation_ok: "guard_ok g \<Longrightarrow> guard_ok (fst (guard_operation g s n))"
  by (simp add: guard_operation_fst guard_ok_def admit_fits)

lemma guard_run_ok: "guard_ok g \<Longrightarrow> guard_ok (fst (guard_run g xs))"
proof (induction xs arbitrary: g)
  case (Cons x xs)
  then show ?case
    by (cases x) (simp only: guard_run_Cons_fst guard_service_ok guard_operation_ok)
qed simp

lemma guard_ok_new: "guard_ok (new_cardinality_guard ms mo)"
  by (simp add: guard_ok_def fits_budget_def new_cardinality_guard_def)



lemma guard_run_mono: "cg_services g \<subseteq> cg_services (fst (guard_run g xs))"
proof (induction xs arbitrary: g)
  case (Cons x xs)
  obtain s n where x: "x = (s, n)" by force
  let ?g1 = "fst (guard_service g s)"
  have "cg_services g \<subseteq> cg_services ?g1" using admit_mono by (auto simp: guard_service_fst)
  also have "\<dots> = cg_services (fst (guard_operation ?g1 (snd (guard_service g s)) n))"
    by (simp add: guard_operation_fst)
  also have "\<dots> \<subseteq> cg_services (fst (guard_run g (x # xs)))"
    unfolding x guard_run_Cons_fst by (rule Cons.IH)
  finally show ?case .
qed simp

text \<open>(labels are stable) A service that was once stored under its own name keeps that name
  for the life of the process, however many other names arrive afterwards; and a name is either
  itself or the overflow bucket, never a third thing.\<close>

theorem service_label_stable:
  assumes "nul \<notin> set n" and "n \<noteq> overflow_label"
  shows "(snd (guard_service g n) = n \<or> snd (guard_service g n) = overflow_label) \<and>
         (snd (guard_service g n) = n \<longrightarrow>
            snd (guard_service (fst (guard_run (fst (guard_service g n)) xs)) n) = n)"
proof (intro conjI impI)
  show "snd (guard_service g n) = n \<or> snd (guard_service g n) = overflow_label"
    using assms admit_label [of "cg_services g" n "cg_max_services g"]
    by (auto simp: guard_service_snd trim_service_prefix_id)
next
  assume own: "snd (guard_service g n) = n"
  let ?g1 = "fst (guard_service g n)" and ?g2 = "fst (guard_run (fst (guard_service g n)) xs)"
  have "n \<noteq> []" using own assms(2) by (auto simp: guard_service_snd)
  then have "n \<in> cg_services ?g1"
    using own assms(2) admit_label [of "cg_services g" n "cg_max_services g"]
    by (auto simp: guard_service_snd guard_service_fst split: if_splits)
  then have "n \<in> cg_services ?g2" using guard_run_mono by blast
  with \<open>n \<noteq> []\<close> assms(1) show "snd (guard_service ?g2 n) = n"
    by (simp add: guard_service_snd admit_known trim_service_prefix_id)
qed

theorem service_label_stable_witness:
  "snd (guard_service (fst (guard_run (fst (guard_service (new_cardinality_guard 1 1) ''a''))
        [(''b'', ''y'')])) ''a'') = ''a''"
  by (rule service_label_stable [THEN conjunct2, THEN mp])
    (simp_all add: overflow_label_def guard_service_def admit_def admit_read_def admit_write_def
      new_cardinality_guard_def)

text \<open>(the operation budget is shared) The comment on \<open>operation\<close> says that operations are
  counted per service so that one noisy service cannot exhaust the budget of the others; the set
  they are counted in is one set for all services, so it can: after service \<open>a\<close> used the budget,
  the first operation of service \<open>b\<close> goes to the overflow bucket.\<close>

theorem operation_budget_shared:
  "snd (guard_run (new_cardinality_guard 10 2)
     [(''a'', ''one''), (''a'', ''two''), (''b'', ''login'')])
   = [(''a'', ''one''), (''a'', ''two''), (''b'', ''__other__'')]"
  by (simp add: guard_service_def guard_operation_def admit_def admit_read_def admit_write_def
      new_cardinality_guard_def overflow_label_def)

end
