(* ===== verification/Pipeline.thy ===== *)
theory Pipeline
  imports Ingest_Limits Config
begin

text \<open>
  \<open>internal/pipeline/pipeline.go\<close>: admission of spans and metrics, their normalisation, and the
  writer loop.  The two channels are lists of bounded length; the clock, the state of the
  request's context, the choice Go's \<open>select\<close> makes between two ready cases, and the store's
  answers are arguments of the steps that use them.  Logging is left out.
\<close>

section \<open>State\<close>

text \<open>The writer loop's two batches, local variables of \<open>Run\<close>, are the last two fields.\<close>

record pipeline =
  p_cfg :: pipeline_config
  p_runtimes :: "(string \<Rightarrow> string) option"
  p_queue :: "span list"
  p_metric_queue :: "metric list"
  p_limiter :: rate_limiter
  p_guard :: cardinality_guard
  queued :: nat
  written :: nat
  metrics_written :: nat
  metrics_dropped :: nat
  dropped_queue :: nat
  dropped_rate :: nat
  write_errors :: nat
  batches :: nat
  last_flush_at :: int
  last_flush_ms :: int
  p_warned :: bool
  p_batch :: "span list"
  p_metric_batch :: "metric list"

definition metric_capacity :: "pipeline_config \<Rightarrow> int" where
  "metric_capacity c = queue_size c div 10 + 1000"

definition new_pipeline :: "pipeline_config \<Rightarrow> gotime \<Rightarrow> pipeline" where
  "new_pipeline c now =
     \<lparr>p_cfg = c, p_runtimes = None, p_queue = [], p_metric_queue = [],
      p_limiter = new_rate_limiter (max_spans_per_second c) now,
      p_guard = new_cardinality_guard (max_services c) (max_operations c),
      queued = 0, written = 0, metrics_written = 0, metrics_dropped = 0, dropped_queue = 0,
      dropped_rate = 0, write_errors = 0, batches = 0, last_flush_at = 0, last_flush_ms = 0,
      p_warned = False, p_batch = [], p_metric_batch = []\<rparr>"

definition set_runtime_resolver :: "pipeline \<Rightarrow> (string \<Rightarrow> string) \<Rightarrow> pipeline" where
  "set_runtime_resolver p f = p\<lparr>p_runtimes := Some f\<rparr>"

section \<open>Normalisation\<close>

definition trunc_marker :: string where
  "trunc_marker = ''...[truncated]''"

definition truncate_val :: "string \<Rightarrow> int \<Rightarrow> string" where
  "truncate_val s mx =
     (if mx \<le> 0 \<or> int (length s) \<le> mx then s
      else if mx \<le> int (length trunc_marker) then take (nat mx) s
      else take (nat mx - length trunc_marker) s @ trunc_marker)"

definition truncate_attrs :: "int \<Rightarrow> (string \<rightharpoonup> string) \<Rightarrow> (string \<rightharpoonup> string)" where
  "truncate_attrs mx m =
     (\<lambda>k. case m k of None \<Rightarrow> None
          | Some v \<Rightarrow> Some (if int (length v) > mx then truncate_val v mx else v))"

definition normalize :: "pipeline \<Rightarrow> span \<Rightarrow> pipeline \<times> span" where
  "normalize p s =
     (case guard_service (p_guard p) (service s) of (g1, svc) \<Rightarrow>
      case guard_operation g1 svc (operation s) of (g2, opn) \<Rightarrow>
      let rt = (case p_runtimes p of
                  Some f \<Rightarrow> if runtime s = [] then f svc else runtime s
                | None \<Rightarrow> runtime s);
          mx = max_attr_bytes (p_cfg p)
      in (p\<lparr>p_guard := g2\<rparr>,
          s\<lparr>service := svc, operation := opn, runtime := rt,
            db_statement := truncate_val (db_statement s) mx,
            status_message := truncate_val (status_message s) mx,
            attributes := truncate_attrs mx (attributes s),
            events := map (\<lambda>e. e\<lparr>ev_attributes := truncate_attrs mx (ev_attributes e)\<rparr>) (events s)\<rparr>))"

section \<open>Consuming\<close>

datatype select_outcome = Sent | Cancelled | Full

text \<open>A \<open>select\<close> with a send, a receive on \<open>ctx.Done()\<close> and a default: a ready case is taken, either
  of two ready ones at the runtime's choice, and the default only when none is ready.\<close>

definition select_send :: "bool \<Rightarrow> bool \<Rightarrow> bool \<Rightarrow> select_outcome" where
  "select_send room ctx_done pick_ctx =
     (if room \<and> ctx_done then (if pick_ctx then Cancelled else Sent)
      else if room then Sent else if ctx_done then Cancelled else Full)"

record arrival =
  a_now :: gotime
  a_done :: bool
  a_pick :: bool

definition warn_overload :: "pipeline \<Rightarrow> pipeline" where
  "warn_overload p = p\<lparr>p_warned := True\<rparr>"

text \<open>One iteration of the loop in \<open>Consume\<close>; the flag says that the context was cancelled.\<close>

definition consume_span :: "pipeline \<Rightarrow> arrival \<Rightarrow> span \<Rightarrow> pipeline \<times> bool" where
  "consume_span p a s =
     (case allow (p_limiter p) (a_now a) of (l, ok) \<Rightarrow>
        if \<not> ok then (p\<lparr>p_limiter := l, dropped_rate := dropped_rate p + 1\<rparr>, False)
        else
          (case normalize (p\<lparr>p_limiter := l\<rparr>) s of (p1, s') \<Rightarrow>
             (case select_send (int (length (p_queue p1)) < queue_size (p_cfg p1))
                     (a_done a) (a_pick a) of
                Sent \<Rightarrow> (p1\<lparr>p_queue := p_queue p1 @ [s'], queued := queued p1 + 1\<rparr>, False)
              | Cancelled \<Rightarrow> (p1, True)
              | Full \<Rightarrow> (warn_overload (p1\<lparr>dropped_queue := dropped_queue p1 + 1\<rparr>), False))))"

fun consume :: "pipeline \<Rightarrow> (arrival \<times> span) list \<Rightarrow> pipeline \<times> bool" where
  "consume p [] = (p, False)"
| "consume p ((a, s) # xs) =
     (case consume_span p a s of (p', cancelled) \<Rightarrow> if cancelled then (p', True) else consume p' xs)"

definition consume_metric :: "pipeline \<Rightarrow> arrival \<Rightarrow> metric \<Rightarrow> pipeline \<times> bool" where
  "consume_metric p a m =
     (case guard_service (p_guard p) (m_service m) of (g, svc) \<Rightarrow>
        let p1 = p\<lparr>p_guard := g\<rparr>; m' = m\<lparr>m_service := svc\<rparr>
        in (case select_send (int (length (p_metric_queue p1)) < metric_capacity (p_cfg p1))
                   (a_done a) (a_pick a) of
              Sent \<Rightarrow> (p1\<lparr>p_metric_queue := p_metric_queue p1 @ [m']\<rparr>, False)
            | Cancelled \<Rightarrow> (p1, True)
            | Full \<Rightarrow> (p1\<lparr>metrics_dropped := metrics_dropped p1 + 1\<rparr>, False)))"

fun consume_metrics :: "pipeline \<Rightarrow> (arrival \<times> metric) list \<Rightarrow> pipeline \<times> bool" where
  "consume_metrics p [] = (p, False)"
| "consume_metrics p ((a, m) # xs) =
     (case consume_metric p a m of (p', cancelled) \<Rightarrow>
        if cancelled then (p', True) else consume_metrics p' xs)"

section \<open>The writer loop\<close>

text \<open>What the store answered to one write, and when.\<close>

record write_result =
  w_ok :: bool
  w_unix :: int
  w_ms :: int

text \<open>A call to the store: the batch, and whether it was persisted.\<close>

datatype store_call = WroteSpans "span list" bool | WroteMetrics "metric list" bool

definition write_batch :: "pipeline \<Rightarrow> write_result \<Rightarrow> span list \<Rightarrow> pipeline" where
  "write_batch p w b =
     (if \<not> w_ok w then p\<lparr>write_errors := write_errors p + 1\<rparr>
      else p\<lparr>written := written p + length b, batches := batches p + 1,
             last_flush_at := w_unix w, last_flush_ms := w_ms w\<rparr>)"

definition write_metrics_batch :: "pipeline \<Rightarrow> write_result \<Rightarrow> metric list \<Rightarrow> pipeline" where
  "write_metrics_batch p w b =
     (if \<not> w_ok w then p\<lparr>write_errors := write_errors p + 1\<rparr>
      else p\<lparr>metrics_written := metrics_written p + length b\<rparr>)"

definition flush_spans :: "pipeline \<Rightarrow> write_result \<Rightarrow> pipeline \<times> store_call list" where
  "flush_spans p w =
     (if p_batch p = [] then (p, [])
      else ((write_batch p w (p_batch p))\<lparr>p_batch := []\<rparr>, [WroteSpans (p_batch p) (w_ok w)]))"

definition flush_metrics :: "pipeline \<Rightarrow> write_result \<Rightarrow> pipeline \<times> store_call list" where
  "flush_metrics p w =
     (if p_metric_batch p = [] then (p, [])
      else ((write_metrics_batch p w (p_metric_batch p))\<lparr>p_metric_batch := []\<rparr>,
            [WroteMetrics (p_metric_batch p) (w_ok w)]))"

definition drain :: "pipeline \<Rightarrow> pipeline" where
  "drain p = p\<lparr>p_batch := p_batch p @ p_queue p, p_queue := []\<rparr>"

definition drain_metrics :: "pipeline \<Rightarrow> pipeline" where
  "drain_metrics p = p\<lparr>p_metric_batch := p_metric_batch p @ p_metric_queue p, p_metric_queue := []\<rparr>"

text \<open>One turn of the \<open>select\<close> in \<open>Run\<close>: which case was ready, with the answers of the (at most
  two) writes it leads to.  A receive from an empty channel is not ready, so it changes nothing.\<close>

datatype run_event = RecvSpan write_result | RecvMetric write_result
  | Tick write_result write_result | Shutdown write_result write_result

definition recv_span :: "pipeline \<Rightarrow> write_result \<Rightarrow> pipeline \<times> store_call list" where
  "recv_span p w =
     (case p_queue p of [] \<Rightarrow> (p, [])
      | s # q \<Rightarrow>
          (let p1 = p\<lparr>p_queue := q, p_batch := p_batch p @ [s]\<rparr>
           in if int (length (p_batch p1)) \<ge> batch_size (p_cfg p1) then flush_spans p1 w
              else (p1, [])))"

definition recv_metric :: "pipeline \<Rightarrow> write_result \<Rightarrow> pipeline \<times> store_call list" where
  "recv_metric p w =
     (case p_metric_queue p of [] \<Rightarrow> (p, [])
      | m # q \<Rightarrow>
          (let p1 = p\<lparr>p_metric_queue := q, p_metric_batch := p_metric_batch p @ [m]\<rparr>
           in if int (length (p_metric_batch p1)) \<ge> batch_size (p_cfg p1) then flush_metrics p1 w
              else (p1, [])))"

definition flush_both :: "pipeline \<Rightarrow> write_result \<Rightarrow> write_result \<Rightarrow> pipeline \<times> store_call list" where
  "flush_both p w1 w2 =
     (case flush_spans p w1 of (p1, c1) \<Rightarrow> case flush_metrics p1 w2 of (p2, c2) \<Rightarrow> (p2, c1 @ c2))"

fun run_step :: "pipeline \<Rightarrow> run_event \<Rightarrow> pipeline \<times> store_call list" where
  "run_step p (RecvSpan w) = recv_span p w"
| "run_step p (RecvMetric w) = recv_metric p w"
| "run_step p (Tick w1 w2) = flush_both p w1 w2"
| "run_step p (Shutdown w1 w2) = flush_both (drain_metrics (drain p)) w1 w2"

section \<open>Everything that can happen to a pipeline\<close>

datatype pipeline_event = Spans "(arrival \<times> span) list" | Metrics "(arrival \<times> metric) list"
  | Loop run_event

fun pipeline_step :: "pipeline \<Rightarrow> pipeline_event \<Rightarrow> pipeline \<times> store_call list" where
  "pipeline_step p (Spans xs) = (fst (consume p xs), [])"
| "pipeline_step p (Metrics xs) = (fst (consume_metrics p xs), [])"
| "pipeline_step p (Loop e) = run_step p e"

fun pipeline_run :: "pipeline \<Rightarrow> pipeline_event list \<Rightarrow> pipeline \<times> store_call list" where
  "pipeline_run p [] = (p, [])"
| "pipeline_run p (e # es) =
     (case pipeline_step p e of (p1, c1) \<Rightarrow> case pipeline_run p1 es of (p2, c2) \<Rightarrow> (p2, c1 @ c2))"

record pipeline_stats =
  st_queued :: nat
  st_queue_capacity :: int
  st_queue_depth :: nat
  st_written :: nat
  st_dropped_queue :: nat
  st_dropped_rate :: nat
  st_write_errors :: nat
  st_batches :: nat
  st_metrics_written :: nat
  st_metrics_dropped :: nat
  st_last_flush_at :: int
  st_last_flush_ms :: int

definition stats :: "pipeline \<Rightarrow> pipeline_stats" where
  "stats p =
     \<lparr>st_queued = queued p, st_queue_capacity = queue_size (p_cfg p),
      st_queue_depth = length (p_queue p), st_written = written p,
      st_dropped_queue = dropped_queue p, st_dropped_rate = dropped_rate p,
      st_write_errors = write_errors p, st_batches = batches p,
      st_metrics_written = metrics_written p, st_metrics_dropped = metrics_dropped p,
      st_last_flush_at = last_flush_at p, st_last_flush_ms = last_flush_ms p\<rparr>"

section \<open>Lemmas on the operations\<close>

lemmas consume_defs = consume_span_def normalize_def warn_overload_def select_send_def Let_def

lemma normalize_frame:
  assumes "normalize p s = (p', s')"
  shows "\<exists>g. p' = p\<lparr>p_guard := g\<rparr>"
  using assms by (auto simp: normalize_def Let_def split: prod.splits)

text \<open>What one iteration of \<open>Consume\<close> does to the queue and to the counters.\<close>

lemma consume_span_cases:
  assumes "consume_span p a s = (p', c)"
  shows "p_batch p' = p_batch p \<and> p_metric_batch p' = p_metric_batch p \<and>
         p_metric_queue p' = p_metric_queue p \<and> p_cfg p' = p_cfg p \<and> written p' = written p \<and>
         ((\<not> c \<and> queued p' = queued p + 1 \<and> int (length (p_queue p)) < queue_size (p_cfg p) \<and>
            (\<exists>s'. p_queue p' = p_queue p @ [s']) \<and>
            dropped_rate p' = dropped_rate p \<and> dropped_queue p' = dropped_queue p) \<or>
          (queued p' = queued p \<and> p_queue p' = p_queue p \<and>
            dropped_rate p' + dropped_queue p' =
              dropped_rate p + dropped_queue p + (if c then 0 else 1)))"
proof -
  obtain l ok where al: "allow (p_limiter p) (a_now a) = (l, ok)" by force
  show ?thesis
  proof (cases ok)
    case False
    with assms al show ?thesis by (auto simp: consume_span_def)
  next
    case True
    obtain p1 s' where n: "normalize (p\<lparr>p_limiter := l\<rparr>) s = (p1, s')" by force
    from normalize_frame [OF n] obtain g where p1: "p1 = p\<lparr>p_limiter := l, p_guard := g\<rparr>" by auto
    have "consume_span p a s =
        (case select_send (int (length (p_queue p1)) < queue_size (p_cfg p1)) (a_done a) (a_pick a) of
           Sent \<Rightarrow> (p1\<lparr>p_queue := p_queue p1 @ [s'], queued := queued p1 + 1\<rparr>, False)
         | Cancelled \<Rightarrow> (p1, True)
         | Full \<Rightarrow> (warn_overload (p1\<lparr>dropped_queue := dropped_queue p1 + 1\<rparr>), False))"
      using True al n by (simp add: consume_span_def)
    with assms show ?thesis
      unfolding p1 by (auto simp: select_send_def warn_overload_def split: if_splits)
  qed
qed

lemma consume_metric_frame:
  assumes "consume_metric p a m = (p', c)"
  shows "p_batch p' = p_batch p \<and> p_queue p' = p_queue p \<and> p_metric_batch p' = p_metric_batch p \<and>
         p_cfg p' = p_cfg p \<and> written p' = written p \<and> queued p' = queued p \<and>
         (p_metric_queue p' = p_metric_queue p \<or>
          int (length (p_metric_queue p)) < metric_capacity (p_cfg p) \<and>
          length (p_metric_queue p') = length (p_metric_queue p) + 1)"
  using assms
  by (auto simp: consume_metric_def Let_def select_send_def split: prod.splits if_splits)

text \<open>The bounds of the two queues and the two batches.\<close>

definition pipeline_ok :: "pipeline \<Rightarrow> bool" where
  "pipeline_ok p \<longleftrightarrow>
     0 < batch_size (p_cfg p) \<and> batch_size (p_cfg p) \<le> queue_size (p_cfg p) \<and>
     int (length (p_queue p)) \<le> queue_size (p_cfg p) \<and>
     int (length (p_metric_queue p)) \<le> metric_capacity (p_cfg p) \<and>
     int (length (p_batch p)) < batch_size (p_cfg p) \<and>
     int (length (p_metric_batch p)) < batch_size (p_cfg p)"

definition span_batch :: "store_call \<Rightarrow> span list" where
  "span_batch c = (case c of WroteSpans b _ \<Rightarrow> b | WroteMetrics _ _ \<Rightarrow> [])"

definition persisted_spans :: "store_call list \<Rightarrow> span list" where
  "persisted_spans cs =
     concat (map (\<lambda>c. case c of WroteSpans b ok \<Rightarrow> if ok then b else [] | WroteMetrics _ _ \<Rightarrow> []) cs)"

text \<open>Every span handed to the store, in the order of the calls.\<close>

definition handed_spans :: "store_call list \<Rightarrow> span list" where
  "handed_spans cs = concat (map span_batch cs)"

lemma handed_simps [simp]:
  "handed_spans [] = []" "handed_spans (a @ b) = handed_spans a @ handed_spans b"
  "handed_spans [WroteSpans sb ok] = sb" "handed_spans [WroteMetrics mb ok] = []"
  "persisted_spans [] = []" "persisted_spans (a @ b) = persisted_spans a @ persisted_spans b"
  "persisted_spans [WroteSpans sb ok] = (if ok then sb else [])"
  "persisted_spans [WroteMetrics mb ok] = []"
  "handed_spans (WroteSpans sb ok # cs) = sb @ handed_spans cs"
  "handed_spans (WroteMetrics mb ok # cs) = handed_spans cs"
  "persisted_spans (WroteSpans sb ok # cs) = (if ok then sb else []) @ persisted_spans cs"
  "persisted_spans (WroteMetrics mb ok # cs) = persisted_spans cs"
  by (simp_all add: handed_spans_def span_batch_def persisted_spans_def)

text \<open>What an export admits, written down from its arguments: each span, normalised in the state it
  meets, unless the limiter or the queue turns it away, up to the first cancellation.\<close>

definition admitted_span :: "pipeline \<Rightarrow> arrival \<Rightarrow> span \<Rightarrow> span list" where
  "admitted_span p a s =
     (case allow (p_limiter p) (a_now a) of (l, ok) \<Rightarrow>
        if ok \<and> select_send (int (length (p_queue p)) < queue_size (p_cfg p)) (a_done a) (a_pick a) = Sent
        then [snd (normalize (p\<lparr>p_limiter := l\<rparr>) s)] else [])"

fun admitted_spans :: "pipeline \<Rightarrow> (arrival \<times> span) list \<Rightarrow> span list" where
  "admitted_spans p [] = []"
| "admitted_spans p ((a, s) # xs) =
     admitted_span p a s @
     (if snd (consume_span p a s) then [] else admitted_spans (fst (consume_span p a s)) xs)"

fun admitted_by :: "pipeline \<Rightarrow> pipeline_event \<Rightarrow> span list" where
  "admitted_by p (Spans xs) = admitted_spans p xs"
| "admitted_by p (Metrics xs) = []"
| "admitted_by p (Loop e) = []"

fun admitted_run :: "pipeline \<Rightarrow> pipeline_event list \<Rightarrow> span list" where
  "admitted_run p [] = []"
| "admitted_run p (e # es) = admitted_by p e @ admitted_run (fst (pipeline_step p e)) es"

text \<open>The contract of a step: the spans in flight move forward in order, the admitted ones join at
  the end and are counted as queued, and what is counted as written is what the store persisted.\<close>

definition conserves :: "pipeline \<Rightarrow> span list \<Rightarrow> pipeline \<times> store_call list \<Rightarrow> bool" where
  "conserves p adm r \<longleftrightarrow>
     handed_spans (snd r) @ p_batch (fst r) @ p_queue (fst r) = p_batch p @ p_queue p @ adm \<and>
     queued (fst r) = queued p + length adm \<and>
     written (fst r) = written p + length (persisted_spans (snd r)) \<and> p_cfg (fst r) = p_cfg p"

lemma conserves_refl [simp]: "conserves p [] (p, [])"
  by (simp add: conserves_def)

lemma conserves_trans:
  assumes "conserves p a1 (p1, c1)" and "conserves p1 a2 (p2, c2)"
  shows "conserves p (a1 @ a2) (p2, c1 @ c2)"
proof -
  from assms have h:
    "handed_spans c1 @ p_batch p1 @ p_queue p1 = p_batch p @ p_queue p @ a1"
    "handed_spans c2 @ p_batch p2 @ p_queue p2 = p_batch p1 @ p_queue p1 @ a2"
    by (auto simp: conserves_def)
  have "handed_spans (c1 @ c2) @ p_batch p2 @ p_queue p2 = p_batch p @ p_queue p @ (a1 @ a2)"
    using h by (metis handed_simps(2) append.assoc)
  then show ?thesis using assms by (auto simp: conserves_def)
qed

lemma consume_span_conserves:
  "conserves p (admitted_span p a s) (fst (consume_span p a s), [])"
proof -
  obtain l ok where al: "allow (p_limiter p) (a_now a) = (l, ok)" by force
  obtain p1 s' where n: "normalize (p\<lparr>p_limiter := l\<rparr>) s = (p1, s')" by force
  from normalize_frame [OF n] obtain g where p1: "p1 = p\<lparr>p_limiter := l, p_guard := g\<rparr>" by auto
  show ?thesis
    by (cases ok; cases "select_send (int (length (p_queue p)) < queue_size (p_cfg p)) (a_done a) (a_pick a)")
      (simp_all add: consume_span_def admitted_span_def conserves_def al n p1 warn_overload_def)
qed

lemma consume_conserves: "conserves p (admitted_spans p xs) (fst (consume p xs), [])"
proof (induction xs arbitrary: p)
  case (Cons x xs)
  obtain a s where x: "x = (a, s)" by force
  obtain p1 c where c: "consume_span p a s = (p1, c)" by force
  have "conserves p (admitted_span p a s) (p1, [])"
    using consume_span_conserves [of p a s] c by simp
  with Cons.IH [of p1] conserves_trans [of p _ p1 "[]" _ _ "[]"] c x show ?case by auto
qed simp

lemma consume_metrics_conserves: "conserves p [] (fst (consume_metrics p xs), [])"
proof (induction xs arbitrary: p)
  case (Cons x xs)
  obtain a m where x: "x = (a, m)" by force
  obtain p1 c where c: "consume_metric p a m = (p1, c)" by force
  have "conserves p [] (p1, [])"
    using consume_metric_frame [OF c] by (auto simp: conserves_def)
  with Cons.IH [of p1] conserves_trans [of p "[]" p1 "[]" "[]" _ "[]"] c x show ?case by auto
qed simp

lemmas flush_defs = flush_spans_def flush_metrics_def write_batch_def write_metrics_batch_def

lemma flush_spans_conserves: "conserves p [] (flush_spans p w)"
  by (auto simp: conserves_def flush_defs)

lemma flush_metrics_conserves: "conserves p [] (flush_metrics p w)"
  by (auto simp: conserves_def flush_defs)

lemma flush_both_conserves: "conserves p [] (flush_both p w1 w2)"
proof -
  obtain p1 c1 where 1: "flush_spans p w1 = (p1, c1)" by force
  obtain p2 c2 where 2: "flush_metrics p1 w2 = (p2, c2)" by force
  from conserves_trans [of p "[]" p1 c1 "[]" p2 c2] 1 2 flush_spans_conserves [of p w1]
    flush_metrics_conserves [of p1 w2]
  show ?thesis by (simp add: flush_both_def)
qed

lemma recv_span_conserves: "conserves p [] (recv_span p w)"
  by (auto simp: recv_span_def conserves_def flush_defs Let_def split: list.splits)

lemma recv_metric_conserves: "conserves p [] (recv_metric p w)"
  by (auto simp: recv_metric_def conserves_def flush_defs Let_def split: list.splits)

lemma drain_conserves: "conserves p [] (drain_metrics (drain p), [])"
  by (auto simp: conserves_def drain_def drain_metrics_def)

lemma run_step_conserves: "conserves p [] (run_step p e)"
proof (cases e)
  case (Shutdown w1 w2)
  with conserves_trans [OF drain_conserves, of p "[]" "fst (flush_both (drain_metrics (drain p)) w1 w2)"
      "snd (flush_both (drain_metrics (drain p)) w1 w2)"] flush_both_conserves
  show ?thesis by simp
qed (simp_all add: recv_span_conserves recv_metric_conserves flush_both_conserves)

lemma pipeline_step_conserves: "conserves p (admitted_by p e) (pipeline_step p e)"
  by (cases e) (simp_all add: consume_conserves consume_metrics_conserves run_step_conserves)

lemma pipeline_run_conserves: "conserves p (admitted_run p es) (pipeline_run p es)"
proof (induction es arbitrary: p)
  case (Cons e es)
  obtain p1 c1 where s: "pipeline_step p e = (p1, c1)" by force
  obtain p2 c2 where r: "pipeline_run p1 es = (p2, c2)" by force
  from s r Cons.IH [of p1] pipeline_step_conserves [of p e] show ?case
    by (auto intro: conserves_trans)
qed simp

lemma pipeline_ok_new:
  "0 < batch_size c \<Longrightarrow> batch_size c \<le> queue_size c \<Longrightarrow> pipeline_ok (new_pipeline c t)"
  by (auto simp: pipeline_ok_def new_pipeline_def metric_capacity_def)

lemma consume_ok [inv_intros]: "pipeline_ok p \<Longrightarrow> pipeline_ok (fst (consume p xs))"
proof (induction xs arbitrary: p)
  case (Cons x xs)
  obtain a s where x: "x = (a, s)" by force
  obtain p1 c where c: "consume_span p a s = (p1, c)" by force
  have "pipeline_ok p1"
    using consume_span_cases [OF c] Cons.prems by (auto simp: pipeline_ok_def)
  with Cons.IH c x show ?case by auto
qed simp

lemma consume_metrics_ok [inv_intros]: "pipeline_ok p \<Longrightarrow> pipeline_ok (fst (consume_metrics p xs))"
proof (induction xs arbitrary: p)
  case (Cons x xs)
  obtain a m where x: "x = (a, m)" by force
  obtain p1 c where c: "consume_metric p a m = (p1, c)" by force
  have "pipeline_ok p1"
    using consume_metric_frame [OF c] Cons.prems by (auto simp: pipeline_ok_def)
  with Cons.IH c x show ?case by auto
qed simp

lemma flush_both_ok:
  assumes "0 < batch_size (p_cfg p)" "batch_size (p_cfg p) \<le> queue_size (p_cfg p)"
    and "int (length (p_queue p)) \<le> queue_size (p_cfg p)"
    and "int (length (p_metric_queue p)) \<le> metric_capacity (p_cfg p)"
  shows "pipeline_ok (fst (flush_both p w1 w2)) \<and> p_batch (fst (flush_both p w1 w2)) = [] \<and>
         p_queue (fst (flush_both p w1 w2)) = p_queue p \<and>
         p_metric_queue (fst (flush_both p w1 w2)) = p_metric_queue p \<and>
         p_metric_batch (fst (flush_both p w1 w2)) = []"
  using assms by (auto simp: flush_both_def flush_defs pipeline_ok_def)

lemma recv_span_ok [inv_intros]: "pipeline_ok p \<Longrightarrow> pipeline_ok (fst (recv_span p w))"
  by (auto simp: recv_span_def flush_defs pipeline_ok_def Let_def split: list.splits)

lemma recv_metric_ok [inv_intros]: "pipeline_ok p \<Longrightarrow> pipeline_ok (fst (recv_metric p w))"
  by (auto simp: recv_metric_def flush_defs pipeline_ok_def Let_def split: list.splits)

lemma metric_capacity_nonneg: "0 < queue_size c \<Longrightarrow> 0 \<le> metric_capacity c"
  by (simp add: metric_capacity_def)

lemma run_step_ok [inv_intros]: "pipeline_ok p \<Longrightarrow> pipeline_ok (fst (run_step p e))"
proof (cases e)
  case (Shutdown w1 w2)
  assume "pipeline_ok p"
  then have "pipeline_ok (fst (flush_both (drain_metrics (drain p)) w1 w2))"
    using metric_capacity_nonneg [of "p_cfg p"]
    by (intro flush_both_ok [THEN conjunct1]) (auto simp: pipeline_ok_def drain_def drain_metrics_def)
  with Shutdown show ?thesis by simp
next
  case (Tick w1 w2)
  assume "pipeline_ok p"
  then have "pipeline_ok (fst (flush_both p w1 w2))"
    by (intro flush_both_ok [THEN conjunct1]) (auto simp: pipeline_ok_def)
  with Tick show ?thesis by simp
qed (auto intro: inv_intros)

lemma pipeline_step_ok: "pipeline_ok p \<Longrightarrow> pipeline_ok (fst (pipeline_step p e))"
  by (cases e) (auto intro: inv_intros)

lemma pipeline_run_ok: "pipeline_ok p \<Longrightarrow> pipeline_ok (fst (pipeline_run p es))"
proof (induction es arbitrary: p)
  case (Cons e es)
  have "pipeline_ok (fst (pipeline_run (fst (pipeline_step p e)) es))"
    using Cons pipeline_step_ok [of p e] by blast
  then show ?case by (auto split: prod.splits)
qed simp

lemma truncate_val_length:
  "0 < mx \<Longrightarrow> int (length (truncate_val s mx)) \<le> mx"
  by (auto simp: truncate_val_def trunc_marker_def)

lemma truncate_val_idem: "truncate_val (truncate_val s mx) mx = truncate_val s mx"
  by (cases "0 < mx") (auto simp: truncate_val_length truncate_val_def)

section \<open>Properties\<close>

text \<open>C1 (no span is lost, doubled or reordered between admission and the store).  Run a fresh
  pipeline through any interleaving of exports, receives, ticks and shutdowns with any answers of
  the store: the spans handed to the store so far, then the batch, then the queue are exactly the
  normalised admitted spans in order of admission, \<open>queued\<close> counts them all and \<open>written\<close> counts those the
  store kept.\<close>

theorem pipeline_conservation:
  "case pipeline_run (new_pipeline c t) es of (p, calls) \<Rightarrow>
     handed_spans calls @ p_batch p @ p_queue p = admitted_run (new_pipeline c t) es \<and>
     queued p = length (admitted_run (new_pipeline c t) es) \<and>
     written p = length (persisted_spans calls)"
  using pipeline_run_conserves [of "new_pipeline c t" es]
  by (auto simp: conserves_def new_pipeline_def split: prod.splits)

text \<open>(memory is bounded) Under a configuration that \<open>Validate\<close> accepts, no interleaving of
  exports and writer steps lets a queue exceed its capacity or a batch reach the batch size.\<close>

theorem pipeline_bounded:
  assumes "0 < batch_size c" and "batch_size c \<le> queue_size c"
  shows "pipeline_ok (fst (pipeline_run (new_pipeline c t) es))"
  using assms by (intro pipeline_run_ok pipeline_ok_new)

theorem pipeline_bounded_witness:
  "pipeline_ok (fst (pipeline_run (new_pipeline default_pipeline 0)
     [Loop (Tick \<lparr>w_ok = True, w_unix = 1, w_ms = 2\<rparr> \<lparr>w_ok = True, w_unix = 1, w_ms = 2\<rparr>)]))"
  by (rule pipeline_bounded) (simp_all add: default_pipeline_def)

text \<open>(every span of an export is accounted for) An export whose context stays live never
  fails, and each of its spans is counted exactly once: as queued, as dropped by the rate limit, or
  as dropped by a full queue.\<close>

theorem consume_accounts:
  "list_all (\<lambda>(a, s). \<not> a_done a) xs \<Longrightarrow>
     \<not> snd (consume p xs) \<and>
     queued (fst (consume p xs)) + dropped_rate (fst (consume p xs)) + dropped_queue (fst (consume p xs))
       = queued p + dropped_rate p + dropped_queue p + length xs"
proof (induction xs arbitrary: p)
  case (Cons x xs)
  obtain a s where x: "x = (a, s)" by force
  obtain p1 c where c: "consume_span p a s = (p1, c)" by force
  have "\<not> a_done a" using Cons.prems x by simp
  then have "\<not> c" using c
    by (auto simp: consume_span_def select_send_def split: prod.splits if_splits)
  with consume_span_cases [OF c] Cons.IH [of p1] Cons.prems c x show ?case by auto
qed simp

definition example_span :: span where
  "example_span =
     \<lparr>timestamp = 0, span_duration = 7, trace_id = replicate 16 1, span_id = replicate 8 1,
      parent_span_id = replicate 8 0, service = ''shop'', operation = ''GET /'',
      span_kind = KindServer, status = StatusUnset, status_message = [], http_method = ''GET'',
      http_route = ''/'', http_status = 200, db_system = [], db_statement = [], db_name = [],
      peer_service = [], host_name = [], pid = 1, runtime = [], attributes = Map.empty, events = []\<rparr>"

theorem consume_accounts_witness:
  "queued (fst (consume (new_pipeline default_pipeline 0)
     [(\<lparr>a_now = 0, a_done = False, a_pick = False\<rparr>, example_span)])) +
   dropped_rate (fst (consume (new_pipeline default_pipeline 0)
     [(\<lparr>a_now = 0, a_done = False, a_pick = False\<rparr>, example_span)])) +
   dropped_queue (fst (consume (new_pipeline default_pipeline 0)
     [(\<lparr>a_now = 0, a_done = False, a_pick = False\<rparr>, example_span)])) = 1"
  using consume_accounts [of "[(\<lparr>a_now = 0, a_done = False, a_pick = False\<rparr>, example_span)]"
      "new_pipeline default_pipeline 0"]
  by (simp add: new_pipeline_def)

text \<open>(shutdown drains) The last turn of the writer loop leaves nothing behind: queues and
  batches are empty, and if the store accepts the write every span that was waiting is persisted.\<close>

theorem shutdown_drains:
  assumes "pipeline_ok p" and "w_ok w1"
  shows "p_queue (fst (run_step p (Shutdown w1 w2))) = [] \<and>
         p_batch (fst (run_step p (Shutdown w1 w2))) = [] \<and>
         p_metric_queue (fst (run_step p (Shutdown w1 w2))) = [] \<and>
         p_metric_batch (fst (run_step p (Shutdown w1 w2))) = [] \<and>
         persisted_spans (snd (run_step p (Shutdown w1 w2))) = p_batch p @ p_queue p \<and>
         written (fst (run_step p (Shutdown w1 w2))) =
           written p + length (p_batch p) + length (p_queue p)"
  using assms by (auto simp: flush_both_def flush_defs drain_def drain_metrics_def)

theorem shutdown_drains_witness:
  "persisted_spans (snd (run_step ((new_pipeline default_pipeline 0)\<lparr>p_queue := [example_span]\<rparr>)
     (Shutdown \<lparr>w_ok = True, w_unix = 1, w_ms = 2\<rparr> \<lparr>w_ok = True, w_unix = 1, w_ms = 2\<rparr>)))
   = [example_span]"
  using shutdown_drains [of "(new_pipeline default_pipeline 0)\<lparr>p_queue := [example_span]\<rparr>"
      "\<lparr>w_ok = True, w_unix = 1, w_ms = 2\<rparr>" "\<lparr>w_ok = True, w_unix = 1, w_ms = 2\<rparr>"]
  by (simp add: pipeline_ok_def new_pipeline_def default_pipeline_def metric_capacity_def)

text \<open>(oversized values are cut, once) After normalisation with a positive limit, the
  statement, the status message and every attribute value of a span and of its events fit the
  limit, and cutting a value again changes nothing.\<close>

theorem normalize_fits:
  assumes "0 < max_attr_bytes (p_cfg p)"
  shows "int (length (db_statement (snd (normalize p s)))) \<le> max_attr_bytes (p_cfg p) \<and>
         int (length (status_message (snd (normalize p s)))) \<le> max_attr_bytes (p_cfg p) \<and>
         (\<forall>k v. attributes (snd (normalize p s)) k = Some v \<longrightarrow>
                int (length v) \<le> max_attr_bytes (p_cfg p)) \<and>
         (\<forall>e \<in> set (events (snd (normalize p s))). \<forall>k v. ev_attributes e k = Some v \<longrightarrow>
                int (length v) \<le> max_attr_bytes (p_cfg p)) \<and>
         (\<forall>v. truncate_val (truncate_val v (max_attr_bytes (p_cfg p))) (max_attr_bytes (p_cfg p)) =
              truncate_val v (max_attr_bytes (p_cfg p)))"
  using assms
  by (auto simp: normalize_def Let_def truncate_attrs_def truncate_val_idem
      intro!: truncate_val_length split: prod.splits option.splits if_splits)

theorem normalize_fits_witness:
  "int (length (db_statement (snd (normalize (new_pipeline default_pipeline 0) example_span)))) \<le> 4096"
  using normalize_fits [of "new_pipeline default_pipeline 0" example_span]
  by (simp add: new_pipeline_def default_pipeline_def)

end
