(* ===== verification/Net_Addr.thy ===== *)
theory Net_Addr
  imports Go_Strings
begin

text \<open>
  Host and port texts as \<open>net.SplitHostPort\<close> and \<open>net.JoinHostPort\<close> of Go's standard library treat
  them.  The receiver, the injector and the command line take listen addresses apart with these.
\<close>

definition last_index :: "char \<Rightarrow> string \<Rightarrow> nat option" where
  "last_index c s =
     (case index_where (\<lambda>x. x = c) (rev s) of None \<Rightarrow> None | Some i \<Rightarrow> Some (length s - 1 - i))"

datatype addr_error = MissingPort | TooManyColons | MissingBracket | UnexpectedOpen | UnexpectedClose

definition split_host_port :: "string \<Rightarrow> addr_error + (string \<times> string)" where
  "split_host_port hp =
     (case last_index (CHR '':'') hp of
        None \<Rightarrow> Inl MissingPort
      | Some i \<Rightarrow>
          (let finish = (\<lambda>host j k.
                 if CHR ''['' \<in> set (drop j hp) then Inl UnexpectedOpen
                 else if CHR '']'' \<in> set (drop k hp) then Inl UnexpectedClose
                 else Inr (host, drop (i + 1) hp))
           in if has_prefix hp ''['' then
                (case index_where (\<lambda>x. x = CHR '']'') hp of
                   None \<Rightarrow> Inl MissingBracket
                 | Some e \<Rightarrow>
                     if e + 1 = length hp then Inl MissingPort
                     else if e + 1 = i then finish (drop 1 (take e hp)) 1 (e + 1)
                     else if hp ! (e + 1) = CHR '':'' then Inl TooManyColons
                     else Inl MissingPort)
              else if CHR '':'' \<in> set (take i hp) then Inl TooManyColons
              else finish (take i hp) 0 0))"

definition join_host_port :: "string \<Rightarrow> string \<Rightarrow> string" where
  "join_host_port host port =
     (if CHR '':'' \<in> set host then ''['' @ host @ '']:'' @ port else host @ '':'' @ port)"

text \<open>Characters that may appear neither in a host nor in a port.\<close>

definition addr_text :: "string \<Rightarrow> bool" where
  "addr_text s \<longleftrightarrow> CHR ''['' \<notin> set s \<and> CHR '']'' \<notin> set s"

lemma index_where_append:
  "\<forall>x \<in> set a. \<not> p x \<Longrightarrow> p c \<Longrightarrow> index_where p (a @ c # b) = Some (length a)"
  by (induction a) auto

lemma last_index_append:
  assumes "c \<notin> set b"
  shows "last_index c (a @ c # b) = Some (length a)"
proof -
  have "index_where (\<lambda>x. x = c) (rev b @ c # rev a) = Some (length b)"
    using index_where_append [of "rev b" "\<lambda>x. x = c" c "rev a"] assms by auto
  then show ?thesis by (simp add: last_index_def)
qed

lemma split_join_bracketed:
  assumes "addr_text h" "addr_text p" "CHR '':'' \<notin> set p"
  shows "split_host_port (CHR ''['' # h @ CHR '']'' # CHR '':'' # p) = Inr (h, p)" (is "split_host_port ?s = _")
proof -
  have li: "last_index (CHR '':'') ?s = Some (length h + 2)"
    using last_index_append [OF assms(3), of "CHR ''['' # h @ '']''"] by simp
  have iw: "index_where (\<lambda>x. x = CHR '']'') ?s = Some (length h + 1)"
    using index_where_append [of "CHR ''['' # h" "\<lambda>x. x = CHR '']''" "CHR '']''" "CHR '':'' # p"] assms(1)
    by (auto simp: addr_text_def)
  have hp: "has_prefix ?s ''[''" by (simp add: has_prefix_iff)
  show ?thesis
    using assms unfolding split_host_port_def li iw
    by (simp add: hp addr_text_def del: index_where.simps)
qed

lemma split_join_plain:
  assumes "addr_text h" "addr_text p" "CHR '':'' \<notin> set p" "CHR '':'' \<notin> set h"
  shows "split_host_port (h @ CHR '':'' # p) = Inr (h, p)"
proof -
  have "\<not> has_prefix (h @ CHR '':'' # p) ''[''"
    using assms(1) by (cases h) (auto simp: has_prefix_iff addr_text_def)
  then show ?thesis
    using assms unfolding split_host_port_def last_index_append [OF assms(3), of h]
    by (simp add: addr_text_def)
qed

lemma split_join_host_port:
  "addr_text h \<Longrightarrow> addr_text p \<Longrightarrow> CHR '':'' \<notin> set p \<Longrightarrow>
   split_host_port (join_host_port h p) = Inr (h, p)"
  using split_join_bracketed split_join_plain by (simp add: join_host_port_def)

lemma join_host_port_inj:
  assumes "addr_text h" "addr_text h'" "addr_text p" "CHR '':'' \<notin> set p"
    and "join_host_port h p = join_host_port h' p"
  shows "h = h'"
  using split_join_host_port [OF assms(1,3,4), unfolded assms(5)]
    split_join_host_port [OF assms(2,3,4)] by simp

lemma index_where_Some:
  "index_where p xs = Some i \<Longrightarrow> i < length xs \<and> p (xs ! i) \<and> (\<forall>x \<in> set (take i xs). \<not> p x)"
proof (induction xs arbitrary: i)
  case (Cons c cs)
  show ?case
  proof (cases "p c")
    case False
    with Cons.prems obtain j where "index_where p cs = Some j" "i = Suc j" by auto
    with Cons.IH [of j] False show ?thesis by simp
  qed (use Cons.prems in simp)
qed simp

lemma last_index_Some:
  assumes "last_index c s = Some i"
  shows "i < length s \<and> s ! i = c \<and> c \<notin> set (drop (i + 1) s)"
proof -
  from assms obtain j where j: "index_where (\<lambda>x. x = c) (rev s) = Some j" and i: "i = length s - 1 - j"
    by (auto simp: last_index_def split: option.splits)
  from index_where_Some [OF j] have "j < length s" "rev s ! j = c" "c \<notin> set (take j (rev s))" by auto
  then show ?thesis using i
    by (auto simp: rev_nth take_rev Suc_diff_Suc)
qed

lemma split_host_port_port:
  assumes "split_host_port hp = Inr (h, p)"
  shows "addr_text p \<and> CHR '':'' \<notin> set p"
proof -
  obtain i where i: "last_index (CHR '':'') hp = Some i"
    using assms by (auto simp: split_host_port_def split: option.splits)
  have p: "p = drop (i + 1) hp"
    using assms i by (auto simp: split_host_port_def Let_def split: if_splits option.splits)
  have "CHR ''['' \<notin> set (drop 0 hp) \<and> CHR '']'' \<notin> set (drop 0 hp) \<or>
        CHR ''['' \<notin> set (drop 1 hp) \<and> CHR '']'' \<notin> set (drop i hp)"
    using assms i unfolding split_host_port_def Let_def by (auto split: if_splits option.splits)
  then obtain j k where "j \<le> i + 1" "k \<le> i + 1" "CHR ''['' \<notin> set (drop j hp)"
    "CHR '']'' \<notin> set (drop k hp)" by (metis le0 le_add1 le_add2)
  then show ?thesis
    using last_index_Some [OF i] p set_drop_subset_set_drop [of j "i + 1" hp]
      set_drop_subset_set_drop [of k "i + 1" hp]
    by (auto simp: addr_text_def)
qed

end
