(* ===== verification/Receiver.thy ===== *)
theory Receiver
  imports Tokens Convert Pipeline Net_Addr
begin

text \<open>
  \<open>internal/receiver/receiver.go\<close>, \<open>http.go\<close> and \<open>binder.go\<close>: the export operations of both
  transports, their counters, and the listeners.  The consumer of the telemetry is an interface of
  the source; it is a type parameter with its two operations as arguments.  Decoding the protobuf or
  JSON body and opening a socket belong to libraries and the kernel and are arguments too.
\<close>

section \<open>The consumer's contract\<close>

text \<open>\<open>Consumer.Consume\<close> returns the new state and whether it failed.  What the receiver relies on
  is that a batch which did not fail was taken whole, and a failed one no more than once.\<close>

locale telemetry_consumer =
  fixes take_batch :: "'c \<Rightarrow> span list \<Rightarrow> 'c \<times> bool"
    and seen :: "'c \<Rightarrow> nat"
  assumes taken_whole: "\<not> snd (take_batch c ss) \<Longrightarrow> seen (fst (take_batch c ss)) = seen c + length ss"
    and taken_once: "seen c \<le> seen (fst (take_batch c ss)) \<and>
                     seen (fst (take_batch c ss)) \<le> seen c + length ss"

text \<open>The pipeline as a consumer: \<open>sched\<close> gives the clock and the context as each span of a batch
  is reached.\<close>

definition consume_at :: "(nat \<Rightarrow> arrival) \<Rightarrow> pipeline \<Rightarrow> span list \<Rightarrow> pipeline \<times> bool" where
  "consume_at sched p ss = consume p (map (\<lambda>(i, s). (sched i, s)) (enumerate 0 ss))"

definition consume_metrics_at :: "(nat \<Rightarrow> arrival) \<Rightarrow> pipeline \<Rightarrow> metric list \<Rightarrow> pipeline \<times> bool" where
  "consume_metrics_at sched p ms = consume_metrics p (map (\<lambda>(i, m). (sched i, m)) (enumerate 0 ms))"

definition accounted :: "pipeline \<Rightarrow> nat" where
  "accounted p = queued p + dropped_rate p + dropped_queue p"

lemma consume_span_accounted:
  "consume_span p a s = (p', c) \<Longrightarrow> accounted p' = accounted p + (if c then 0 else 1)"
  using consume_span_cases [of p a s p' c] by (auto simp: accounted_def)

lemma consume_accounted:
  "(\<not> snd (consume p xs) \<longrightarrow> accounted (fst (consume p xs)) = accounted p + length xs) \<and>
   accounted p \<le> accounted (fst (consume p xs)) \<and>
   accounted (fst (consume p xs)) \<le> accounted p + length xs"
proof (induction xs arbitrary: p)
  case (Cons x xs)
  obtain a s where x: "x = (a, s)" by force
  obtain p1 c where c: "consume_span p a s = (p1, c)" by force
  from consume_span_accounted [OF c] Cons.IH [of p1] c x show ?case by (cases c) auto
qed simp

interpretation pipeline_consumer: telemetry_consumer "consume_at sched" accounted for sched
proof unfold_locales
  fix c ss
  note acc = consume_accounted [of c "map (\<lambda>(i, s). (sched i, s)) (enumerate 0 ss)"]
  show "\<not> snd (consume_at sched c ss) \<Longrightarrow>
      accounted (fst (consume_at sched c ss)) = accounted c + length ss"
    and "accounted c \<le> accounted (fst (consume_at sched c ss)) \<and>
      accounted (fst (consume_at sched c ss)) \<le> accounted c + length ss"
    using acc by (simp_all add: consume_at_def)
qed

section \<open>The receiver\<close>

record counters =
  requests_grpc :: nat
  requests_http :: nat
  spans_accepted :: nat
  spans_malformed :: nat
  spans_rejected :: nat
  last_received_at :: int
  metrics_accepted :: nat
  metrics_malformed :: nat

definition zero_counters :: counters where
  "zero_counters =
     \<lparr>requests_grpc = 0, requests_http = 0, spans_accepted = 0, spans_malformed = 0,
      spans_rejected = 0, last_received_at = 0, metrics_accepted = 0, metrics_malformed = 0\<rparr>"

record 'c receiver =
  r_cfg :: receiver_config
  r_auth :: authenticator
  r_counters :: counters
  r_consumer :: 'c

definition new_receiver :: "receiver_config \<Rightarrow> 'c \<Rightarrow> registry option \<Rightarrow> 'c receiver" where
  "new_receiver cfg c tokens =
     \<lparr>r_cfg = cfg, r_auth = new_authenticator tokens (require_token cfg),
      r_counters = zero_counters, r_consumer = c\<rparr>"

definition count_request :: "bool \<Rightarrow> 'c receiver \<Rightarrow> 'c receiver" where
  "count_request is_http r =
     r\<lparr>r_counters :=
        (if is_http then (r_counters r)\<lparr>requests_http := requests_http (r_counters r) + 1\<rparr>
         else (r_counters r)\<lparr>requests_grpc := requests_grpc (r_counters r) + 1\<rparr>)\<rparr>"

text \<open>\<open>ingest\<close>: the new receiver, the number of spans skipped, and whether the consumer failed.\<close>

definition ingest ::
  "(f64 \<Rightarrow> string) \<Rightarrow> int \<Rightarrow> ('c \<Rightarrow> span list \<Rightarrow> 'c \<times> bool) \<Rightarrow> resource_spans list
     \<Rightarrow> 'c receiver \<Rightarrow> 'c receiver \<times> nat \<times> bool" where
  "ingest fmt now take_batch rss r =
     (case convert fmt rss of (spans, skipped) \<Rightarrow>
        let k = r_counters r;
            k1 = k\<lparr>spans_accepted := spans_accepted k + length spans,
                   spans_malformed := spans_malformed k + skipped, last_received_at := now\<rparr>
        in if spans = [] then (r\<lparr>r_counters := k1\<rparr>, skipped, False)
           else (case take_batch (r_consumer r) spans of (c, failed) \<Rightarrow>
             if failed
             then (r\<lparr>r_counters := k1\<lparr>spans_rejected := spans_rejected k1 + length spans\<rparr>,
                     r_consumer := c\<rparr>, skipped, True)
             else (r\<lparr>r_counters := k1, r_consumer := c\<rparr>, skipped, False)))"

definition ingest_metrics ::
  "(f64 \<Rightarrow> string) \<Rightarrow> int \<Rightarrow> ('c \<Rightarrow> metric list \<Rightarrow> 'c \<times> bool) \<Rightarrow> resource_metrics list
     \<Rightarrow> 'c receiver \<Rightarrow> 'c receiver \<times> nat \<times> bool" where
  "ingest_metrics fmt now take_metrics rms r =
     (case convert_metrics fmt rms of (ms, skipped) \<Rightarrow>
        let k = r_counters r;
            k1 = k\<lparr>metrics_accepted := metrics_accepted k + length ms,
                   metrics_malformed := metrics_malformed k + skipped, last_received_at := now\<rparr>
        in if ms = [] then (r\<lparr>r_counters := k1\<rparr>, skipped, False)
           else (case take_metrics (r_consumer r) ms of (c, failed) \<Rightarrow>
             (r\<lparr>r_counters := k1, r_consumer := c\<rparr>, skipped, failed)))"

subsection \<open>gRPC\<close>

text \<open>A successful reply carries the number of rejected items of its partial success, if any.\<close>

type_synonym export_reply = "rpc_code + nat option"

definition partial_success :: "nat \<Rightarrow> nat option" where
  "partial_success rejected = (if 0 < rejected then Some rejected else None)"

definition export_with ::
  "('c receiver \<Rightarrow> 'c receiver \<times> nat \<times> bool) \<Rightarrow> 'c receiver \<Rightarrow> 'c receiver \<times> export_reply" where
  "export_with ing r =
     (case ing (count_request False r) of (r', rejected, failed) \<Rightarrow>
        if failed then (r', Inl Unavailable) else (r', Inr (partial_success rejected)))"

definition export_traces where
  "export_traces fmt now take_batch rss = export_with (ingest fmt now take_batch rss)"

definition export_metrics where
  "export_metrics fmt now take_metrics rms = export_with (ingest_metrics fmt now take_metrics rms)"

text \<open>A unary call goes through the interceptor that \<open>Run\<close> installs.\<close>

definition grpc_call ::
  "string list option \<Rightarrow> ('c receiver \<Rightarrow> 'c receiver \<times> export_reply) \<Rightarrow> 'c receiver
     \<Rightarrow> 'c receiver \<times> export_reply" where
  "grpc_call md handler r =
     (case unary_interceptor (Some (r_auth r)) md handler r of
        (Some a, r', reply) \<Rightarrow> (r'\<lparr>r_auth := a\<rparr>, reply)
      | (None, r', reply) \<Rightarrow> (r', reply))"

subsection \<open>HTTP\<close>

datatype content_type = CtProtobuf | CtJson

definition normalize_content_type :: "string \<Rightarrow> content_type" where
  "normalize_content_type raw =
     (case cut (CHR '';'') raw of (base, _, _) \<Rightarrow>
        if trim_space (to_lower base) = ''application/json'' then CtJson else CtProtobuf)"

text \<open>A body: the bytes the peer delivers before the stream ends, and whether it ends in an error.\<close>

record body_stream =
  body_bytes :: bytes
  body_broken :: bool

text \<open>\<open>io.ReadAll(io.LimitReader(body, limit))\<close>: the limit is reported as the end of the body.\<close>

definition read_limited :: "int \<Rightarrow> body_stream \<Rightarrow> bytes option" where
  "read_limited limit b =
     (if limit \<le> int (length (body_bytes b)) then Some (take (nat limit) (body_bytes b))
      else if body_broken b then None else Some (body_bytes b))"

record http_request =
  rq_method :: string
  rq_token :: string
  rq_ctype :: string
  rq_body :: body_stream

datatype http_reply = HttpError nat | HttpOk content_type "nat option"

text \<open>\<open>encode_ok\<close> is whether the library could encode the reply.\<close>

definition handle_export ::
  "(content_type \<Rightarrow> bytes \<Rightarrow> 'm option) \<Rightarrow> bool \<Rightarrow> ('m \<Rightarrow> 'c receiver \<Rightarrow> 'c receiver \<times> nat \<times> bool)
     \<Rightarrow> http_request \<Rightarrow> 'c receiver \<Rightarrow> 'c receiver \<times> http_reply" where
  "handle_export decode encode_ok ing rq r =
     (if rq_method rq \<noteq> ''POST'' then (r, HttpError 405)
      else
        let r1 = count_request True r
        in case permits (r_auth r1) (token_from_request (rq_token rq)) of (a, ok) \<Rightarrow>
             let r2 = r1\<lparr>r_auth := a\<rparr>
             in if \<not> ok then (r2, HttpError 401)
                else case read_limited (max_recv_msg_bytes (r_cfg r2)) (rq_body rq) of
                       None \<Rightarrow> (r2, HttpError 400)
                     | Some body \<Rightarrow>
                         (let ct = normalize_content_type (rq_ctype rq)
                          in case decode ct body of
                               None \<Rightarrow> (r2, HttpError 400)
                             | Some msg \<Rightarrow>
                                 (case ing msg r2 of (r3, rejected, failed) \<Rightarrow>
                                    if failed then (r3, HttpError 503)
                                    else if \<not> encode_ok then (r3, HttpError 500)
                                    else (r3, HttpOk ct (partial_success rejected)))))"

definition handle_traces where
  "handle_traces decode encode_ok fmt now take_batch =
     handle_export decode encode_ok (ingest fmt now take_batch)"

definition handle_metrics where
  "handle_metrics decode encode_ok fmt now take_metrics =
     handle_export decode encode_ok (ingest_metrics fmt now take_metrics)"

section \<open>Listeners\<close>

text \<open>\<open>b_bound\<close> lists the addresses tried, newest first, each with its listener if the kernel gave
  one.\<close>

record addr_binder =
  b_mode :: container_bind
  b_port :: string
  b_bound :: "(string \<times> nat option) list"

text \<open>\<open>sock\<close> is what \<open>net.Listen\<close> answers for an address.\<close>

datatype bind_error = BadAddress addr_error | ListenFailed string

definition new_binder ::
  "container_bind \<Rightarrow> string \<Rightarrow> (string \<Rightarrow> nat option) \<Rightarrow> bind_error + (addr_binder \<times> nat)" where
  "new_binder m addr sock =
     (case split_host_port addr of
        Inl e \<Rightarrow> Inl (BadAddress e)
      | Inr (_, port) \<Rightarrow>
          (case sock addr of
             None \<Rightarrow> Inl (ListenFailed addr)
           | Some l \<Rightarrow> Inr (\<lparr>b_mode = m, b_port = port, b_bound = [(addr, Some l)]\<rparr>, l)))"

text \<open>\<open>listenOn\<close>: the new addr_binder, the listener to serve if there is a new one, and the error.\<close>

definition listen_on ::
  "(string \<Rightarrow> nat option) \<Rightarrow> addr_binder \<Rightarrow> string \<Rightarrow> addr_binder \<times> nat option \<times> bind_error option" where
  "listen_on sock b host =
     (if b_mode b \<noteq> BindAuto \<or> host = [] then (b, None, None)
      else
        let addr = join_host_port host (b_port b)
        in if addr \<in> fst ` set (b_bound b) then (b, None, None)
           else case sock addr of
                  None \<Rightarrow> (b\<lparr>b_bound := (addr, None) # b_bound b\<rparr>, None, Some (ListenFailed addr))
                | Some l \<Rightarrow> (b\<lparr>b_bound := (addr, Some l) # b_bound b\<rparr>, Some l, None))"

definition addresses :: "addr_binder \<Rightarrow> string list" where
  "addresses b = sort (map fst (filter (\<lambda>(a, l). l \<noteq> None) (b_bound b)))"

definition resolve_listen_addr :: "container_bind \<Rightarrow> string \<Rightarrow> addr_error + string" where
  "resolve_listen_addr m addr =
     (if m \<noteq> BindAll then Inr addr
      else case split_host_port addr of
             Inl e \<Rightarrow> Inl e
           | Inr (_, port) \<Rightarrow> Inr (join_host_port ''0.0.0.0'' port))"

text \<open>The start of \<open>Run\<close>: both binders, or the error and the addresses still open after it.\<close>

definition start_listeners ::
  "receiver_config \<Rightarrow> (string \<Rightarrow> nat option) \<Rightarrow> (string \<Rightarrow> nat option)
     \<Rightarrow> (bind_error \<times> string list) + (addr_binder \<times> addr_binder)" where
  "start_listeners cfg gsock hsock =
     (case resolve_listen_addr (recv_container_bind cfg) (grpc_addr cfg) of
        Inl e \<Rightarrow> Inl (BadAddress e, [])
      | Inr ga \<Rightarrow>
     (case resolve_listen_addr (recv_container_bind cfg) (http_addr cfg) of
        Inl e \<Rightarrow> Inl (BadAddress e, [])
      | Inr ha \<Rightarrow>
     (case new_binder (recv_container_bind cfg) ga gsock of
        Inl e \<Rightarrow> Inl (e, [])
      | Inr (gb, _) \<Rightarrow>
     (case new_binder (recv_container_bind cfg) ha hsock of
        Inl e \<Rightarrow> Inl (e, [])
      | Inr (hb, _) \<Rightarrow> Inr (gb, hb)))))"

text \<open>The listening side of a running receiver.  Both binders are set by \<open>Run\<close>; \<open>serving\<close> is closed
  once the servers exist.\<close>

record listening =
  grpc_binder :: "addr_binder option"
  http_binder :: "addr_binder option"
  serving :: bool

definition listen_on_gateway ::
  "(string \<Rightarrow> nat option) \<Rightarrow> (string \<Rightarrow> nat option) \<Rightarrow> listening \<Rightarrow> string \<Rightarrow> listening" where
  "listen_on_gateway gsock hsock l host =
     (case (grpc_binder l, http_binder l) of
        (Some gb, Some hb) \<Rightarrow>
          if \<not> serving l then l
          else l\<lparr>grpc_binder := Some (fst (listen_on gsock gb host)),
                 http_binder := Some (fst (listen_on hsock hb host))\<rparr>
      | _ \<Rightarrow> l)"

definition listen_addresses :: "listening \<Rightarrow> string list" where
  "listen_addresses l = (case grpc_binder l of None \<Rightarrow> [] | Some b \<Rightarrow> addresses b)"

subsection \<open>The gateway listener the inventory calls\<close>

locale gateway_listener =
  fixes open_on :: "'l \<Rightarrow> string \<Rightarrow> 'l"
    and tried :: "'l \<Rightarrow> string set"
    and wanted :: "'l \<Rightarrow> string \<Rightarrow> string set"
  assumes repeat: "open_on (open_on l h) h = open_on l h"
    and grows: "tried l \<subseteq> tried (open_on l h)"
    and only_wanted: "tried (open_on l h) \<subseteq> tried l \<union> wanted l h"
    and wanted_stable: "wanted (open_on l h) g = wanted l g"
begin

lemma opened_all:
  "tried l \<subseteq> tried (foldl open_on l hs) \<and> wanted (foldl open_on l hs) g = wanted l g"
proof (induction hs arbitrary: l)
  case (Cons h hs)
  from Cons.IH [of "open_on l h"] grows [of l h] show ?case by (auto simp: wanted_stable)
qed simp

lemma opened_only: "tried (foldl open_on l hs) \<subseteq> tried l \<union> (\<Union>h \<in> set hs. wanted l h)"
proof (induction hs arbitrary: l)
  case (Cons h hs)
  have "tried (foldl open_on l (h # hs)) \<subseteq> tried (open_on l h) \<union> (\<Union>g \<in> set hs. wanted l g)"
    using Cons.IH [of "open_on l h"] by (simp add: wanted_stable)
  then show ?case using only_wanted [of l h] by auto
qed simp

end

definition tried_addrs :: "addr_binder \<Rightarrow> string set" where
  "tried_addrs b = fst ` set (b_bound b)"

definition gateway_addrs :: "addr_binder \<Rightarrow> string \<Rightarrow> string set" where
  "gateway_addrs b h =
     (if b_mode b = BindAuto \<and> h \<noteq> [] then {join_host_port h (b_port b)} else {})"

lemma listen_on_frame:
  "b_mode (fst (listen_on sock b h)) = b_mode b \<and> b_port (fst (listen_on sock b h)) = b_port b"
  by (simp add: listen_on_def Let_def split: option.splits)

lemma listen_on_repeat:
  "fst (listen_on sock (fst (listen_on sock b h)) h) = fst (listen_on sock b h)"
  by (auto simp: listen_on_def Let_def split: option.splits)

interpretation binder_gateways: gateway_listener "\<lambda>b h. fst (listen_on sock b h)" tried_addrs gateway_addrs for sock
proof unfold_locales
  fix b :: addr_binder and h g :: string
  show "fst (listen_on sock (fst (listen_on sock b h)) h) = fst (listen_on sock b h)"
    by (rule listen_on_repeat)
  show "tried_addrs b \<subseteq> tried_addrs (fst (listen_on sock b h))"
    by (auto simp: listen_on_def tried_addrs_def Let_def split: option.splits)
  show "tried_addrs (fst (listen_on sock b h)) \<subseteq> tried_addrs b \<union> gateway_addrs b h"
    by (auto simp: listen_on_def tried_addrs_def gateway_addrs_def Let_def split: option.splits)
  show "gateway_addrs (fst (listen_on sock b h)) g = gateway_addrs b g"
    by (simp add: gateway_addrs_def listen_on_frame)
qed

lemma listen_on_distinct:
  "distinct (map fst (b_bound b)) \<Longrightarrow> distinct (map fst (b_bound (fst (listen_on sock b h))))"
  by (auto simp: listen_on_def Let_def split: option.splits)

lemma listen_all_distinct:
  "distinct (map fst (b_bound b)) \<Longrightarrow>
   distinct (map fst (b_bound (foldl (\<lambda>b h. fst (listen_on sock b h)) b hs)))"
  by (induction hs arbitrary: b) (auto simp: listen_on_distinct)

section \<open>Lemmas on the export operations\<close>

lemma permits_frame: "permits a t = (a', ok) \<Longrightarrow> \<exists>n. a' = a\<lparr>au_rejected := n\<rparr>"
  by (auto simp: permits_def split: if_splits option.splits intro: exI [of _ "au_rejected a"])

text \<open>The accounting relation between the receiver's counters and its consumer: every span accepted
  was seen by the consumer, except for some that were counted as rejected.\<close>

definition balanced :: "('c \<Rightarrow> nat) \<Rightarrow> nat \<Rightarrow> 'c receiver \<Rightarrow> bool" where
  "balanced seen base r \<longleftrightarrow>
     seen (r_consumer r) \<le> base + spans_accepted (r_counters r) \<and>
     base + spans_accepted (r_counters r) \<le> seen (r_consumer r) + spans_rejected (r_counters r)"

lemma balanced_frame [simp]:
  "balanced seen base (count_request h r) \<longleftrightarrow> balanced seen base r"
  "balanced seen base (r\<lparr>r_auth := a\<rparr>) \<longleftrightarrow> balanced seen base r"
  by (simp_all add: balanced_def count_request_def)

lemma handle_export_preserves:
  assumes "P r" and frame: "\<And>x h. P x \<Longrightarrow> P (count_request h x)" "\<And>x a. P x \<Longrightarrow> P (x\<lparr>r_auth := a\<rparr>)"
    and ing: "\<And>m x. P x \<Longrightarrow> P (fst (ing m x))"
  shows "P (fst (handle_export decode e ing rq r))"
proof -
  obtain a ok where a: "permits (r_auth (count_request True r)) (token_from_request (rq_token rq)) = (a, ok)"
    by force
  let ?r = "(count_request True r)\<lparr>r_auth := a\<rparr>"
  have "P ?r" using assms(1) frame by blast
  then show ?thesis using assms(1) ing [of ?r]
    by (auto simp: handle_export_def a Let_def split: prod.splits option.splits)
      (metis fst_conv)+
qed

lemma grpc_call_preserves:
  assumes "P r" and frame: "\<And>x a. P x \<Longrightarrow> P (x\<lparr>r_auth := a\<rparr>)" and h: "\<And>x. P x \<Longrightarrow> P (fst (h x))"
  shows "P (fst (grpc_call md h r))"
  using assms(1) h [of r] frame
  by (auto simp: grpc_call_def unary_interceptor_def split: prod.splits option.splits bool.splits if_splits)

context telemetry_consumer
begin

lemma ingest_balanced:
  assumes "balanced seen base r"
  shows "balanced seen base (fst (ingest fmt now take_batch rss r))"
proof -
  obtain ss k where cv: "convert fmt rss = (ss, k)" by force
  obtain c f where tb: "take_batch (r_consumer r) ss = (c, f)" by force
  from taken_whole [of "r_consumer r" ss] taken_once [of "r_consumer r" ss] assms
  show ?thesis by (cases f) (auto simp: ingest_def cv tb balanced_def Let_def)
qed

lemma traces_balanced:
  "balanced seen base r \<Longrightarrow>
     balanced seen base (fst (handle_traces decode e fmt now take_batch rq r))"
  unfolding handle_traces_def
  by (rule handle_export_preserves [where P = "balanced seen base"]) (auto intro: ingest_balanced)

lemma grpc_balanced:
  "balanced seen base r \<Longrightarrow>
     balanced seen base (fst (grpc_call md (export_traces fmt now take_batch rss) r))"
proof (rule grpc_call_preserves [where P = "balanced seen base"])
  fix x assume "balanced seen base x"
  then have "balanced seen base (fst (ingest fmt now take_batch rss (count_request False x)))"
    by (intro ingest_balanced) simp
  then show "balanced seen base (fst (export_traces fmt now take_batch rss x))"
    by (auto simp: export_traces_def export_with_def split: prod.splits)
qed auto

end

section \<open>A receiver in front of a pipeline\<close>

text \<open>Everything that happens to the two: exports over both transports, and turns of the writer loop.
  \<open>dt\<close> and \<open>dm\<close> decode HTTP bodies.\<close>

datatype ingest_event =
    GrpcTraces "nat \<Rightarrow> arrival" int "string list option" "resource_spans list"
  | GrpcMetrics "nat \<Rightarrow> arrival" int "string list option" "resource_metrics list"
  | HttpTraces "nat \<Rightarrow> arrival" int bool http_request
  | HttpMetrics "nat \<Rightarrow> arrival" int bool http_request
  | WriterTurn run_event

fun ingest_step where
  "ingest_step fmt dt dm r (GrpcTraces sched now md rss) =
     fst (grpc_call md (export_traces fmt now (consume_at sched) rss) r)"
| "ingest_step fmt dt dm r (GrpcMetrics sched now md rms) =
     fst (grpc_call md (export_metrics fmt now (consume_metrics_at sched) rms) r)"
| "ingest_step fmt dt dm r (HttpTraces sched now e rq) =
     fst (handle_traces dt e fmt now (consume_at sched) rq r)"
| "ingest_step fmt dt dm r (HttpMetrics sched now e rq) =
     fst (handle_metrics dm e fmt now (consume_metrics_at sched) rq r)"
| "ingest_step fmt dt dm r (WriterTurn e) = r\<lparr>r_consumer := fst (run_step (r_consumer r) e)\<rparr>"

definition ingest_run where
  "ingest_run fmt dt dm cfg pc t tokens evs =
     foldl (ingest_step fmt dt dm) (new_receiver cfg (new_pipeline pc t) tokens) evs"

lemma consume_metrics_accounted: "accounted (fst (consume_metrics p xs)) = accounted p"
proof (induction xs arbitrary: p)
  case (Cons x xs)
  obtain a m where x: "x = (a, m)" by force
  obtain p1 c where c: "consume_metric p a m = (p1, c)" by force
  then have "accounted p1 = accounted p"
    by (auto simp: consume_metric_def Let_def accounted_def split: prod.splits select_outcome.splits)
  with Cons.IH [of p1] c x show ?case by simp
qed simp

lemma run_step_accounted: "accounted (fst (run_step p e)) = accounted p"
  by (cases e) (auto simp: accounted_def recv_span_def recv_metric_def flush_both_def flush_spans_def
      flush_metrics_def write_batch_def write_metrics_batch_def drain_def drain_metrics_def Let_def
      split: list.splits prod.splits if_splits)

lemma ingest_metrics_balanced:
  "balanced accounted base r \<Longrightarrow>
     balanced accounted base (fst (ingest_metrics fmt now (consume_metrics_at sched) rms r))"
  using consume_metrics_accounted [of "r_consumer r"]
  by (auto simp: ingest_metrics_def balanced_def consume_metrics_at_def Let_def split: prod.splits)
    (metis fst_conv)+

lemma export_metrics_balanced:
  "balanced accounted base r \<Longrightarrow>
     balanced accounted base (fst (export_metrics fmt now (consume_metrics_at sched) rms r))"
  using ingest_metrics_balanced [of base "count_request False r" fmt now sched rms]
  by (auto simp: export_metrics_def export_with_def split: prod.splits)

lemma ingest_step_balanced:
  "balanced accounted base r \<Longrightarrow> balanced accounted base (ingest_step fmt dt dm r ev)"
proof (cases ev)
  case (HttpMetrics sched now e rq)
  assume "balanced accounted base r"
  then show ?thesis unfolding HttpMetrics ingest_step.simps handle_metrics_def
    by (intro handle_export_preserves [where P = "balanced accounted base"])
      (auto intro: ingest_metrics_balanced)
next
  case (GrpcMetrics sched now md rms)
  assume "balanced accounted base r"
  then show ?thesis unfolding GrpcMetrics ingest_step.simps
    by (intro grpc_call_preserves [where P = "balanced accounted base"])
      (auto intro: export_metrics_balanced)
next
  case (WriterTurn e)
  assume "balanced accounted base r"
  then show ?thesis by (simp add: WriterTurn balanced_def run_step_accounted)
qed (auto intro: pipeline_consumer.grpc_balanced pipeline_consumer.traces_balanced)

section \<open>Properties\<close>

text \<open>C3 (ingest accounting, end to end).  Start a receiver on a fresh pipeline and let any exports
  and writer turns happen: no span the receiver counts as accepted escapes the pipeline's own
  counters.  Each one was queued, rate limited or dropped by the full queue, except for spans of
  exports that failed, which the receiver counts as rejected; without failed exports the two sides
  agree exactly.\<close>

theorem ingest_accounting:
  "case ingest_run fmt dt dm cfg pc t tokens evs of r \<Rightarrow>
     accounted (r_consumer r) \<le> spans_accepted (r_counters r) \<and>
     spans_accepted (r_counters r) \<le> accounted (r_consumer r) + spans_rejected (r_counters r) \<and>
     (spans_rejected (r_counters r) = 0 \<longrightarrow>
        spans_accepted (r_counters r) =
          queued (r_consumer r) + dropped_rate (r_consumer r) + dropped_queue (r_consumer r))"
proof -
  have "balanced accounted 0 (foldl (ingest_step fmt dt dm) r evs)" if "balanced accounted 0 r" for r
    using that by (induction evs arbitrary: r) (auto intro: ingest_step_balanced)
  moreover have "balanced accounted 0 (new_receiver cfg (new_pipeline pc t) tokens)"
    by (simp add: balanced_def accounted_def new_receiver_def zero_counters_def new_pipeline_def)
  ultimately have "balanced accounted 0 (ingest_run fmt dt dm cfg pc t tokens evs)"
    unfolding ingest_run_def by blast
  then show ?thesis by (auto simp: balanced_def accounted_def)
qed

theorem ingest_accounting_witness:
  "spans_accepted (r_counters (ingest_run (\<lambda>_. []) (\<lambda>_ _. None) (\<lambda>_ _. None) (receiver_cfg default_config)
     default_pipeline 0 None [])) = 0"
  using ingest_accounting [of "\<lambda>_. []" "\<lambda>_ _. None" "\<lambda>_ _. None" "receiver_cfg default_config"
      default_pipeline 0 None "[]"]
  by (simp add: ingest_run_def new_receiver_def zero_counters_def)

text \<open>C11 (a refused request touches nothing).  When the credentials of a request are refused, both
  transports answer so, and nothing but the request and refusal counters changes: no span or metric
  is counted or reaches the consumer, whatever the body.\<close>

theorem refused_request_inert:
  assumes "\<not> snd (permits (r_auth r) tok)"
  shows "(rq_method rq = ''POST'' \<and> token_from_request (rq_token rq) = tok \<longrightarrow>
            handle_export decode e ing rq r =
              ((count_request True r)\<lparr>r_auth := (r_auth r)\<lparr>au_rejected := au_rejected (r_auth r) + 1\<rparr>\<rparr>,
               HttpError 401)) \<and>
         (token_from_context md = tok \<longrightarrow>
            grpc_call md h r =
              (r\<lparr>r_auth := (r_auth r)\<lparr>au_rejected := au_rejected (r_auth r) + 1\<rparr>\<rparr>, Inl Unauthenticated))"
  using assms
  by (auto simp: handle_export_def grpc_call_def unary_interceptor_def permits_def count_request_def Let_def
      split: option.splits if_splits)

theorem refused_request_inert_witness:
  "grpc_call None (export_traces (\<lambda>_. []) 0 (consume_at (\<lambda>_. \<lparr>a_now = 0, a_done = False, a_pick = False\<rparr>)) [])
     (new_receiver (receiver_cfg default_config) (new_pipeline default_pipeline 0) (Some new_registry)) =
   ((new_receiver (receiver_cfg default_config) (new_pipeline default_pipeline 0) (Some new_registry))
      \<lparr>r_auth := (new_authenticator (Some new_registry) True)\<lparr>au_rejected := 1\<rparr>\<rparr>,
    Inl Unauthenticated)"
  using refused_request_inert [where md = None and tok = "[]" and
      r = "new_receiver (receiver_cfg default_config) (new_pipeline default_pipeline 0) (Some new_registry)",
      THEN conjunct2]
  by (simp add: new_receiver_def new_authenticator_def permits_def accepts_def default_config_def
      token_from_context_def)

text \<open>(an oversized body is cut, not refused) A body that reaches the configured limit is
  handled as if it ended there: the reply and the new state are those of its prefix, so whatever
  the prefix happens to decode to is stored and acknowledged, and the peer is never told that the
  rest was dropped.  Even a stream that breaks later is acknowledged.\<close>

theorem oversized_body_cut:
  assumes "max_recv_msg_bytes (r_cfg r) \<le> int (length (body_bytes (rq_body rq)))"
  shows "handle_traces decode e fmt now take_batch rq r =
         handle_traces decode e fmt now take_batch
           (rq\<lparr>rq_body := \<lparr>body_bytes = take (nat (max_recv_msg_bytes (r_cfg r))) (body_bytes (rq_body rq)),
                          body_broken = False\<rparr>\<rparr>) r"
  using assms
  by (simp add: handle_traces_def handle_export_def read_limited_def count_request_def Let_def
      min_def split: prod.splits)

theorem oversized_body_cut_witness:
  "handle_traces (\<lambda>_ b. if b = [1] then Some [] else None) True (\<lambda>_. []) 0
     (consume_at (\<lambda>_. \<lparr>a_now = 0, a_done = False, a_pick = False\<rparr>))
     \<lparr>rq_method = ''POST'', rq_token = [], rq_ctype = [],
      rq_body = \<lparr>body_bytes = [1, 2, 3], body_broken = True\<rparr>\<rparr>
     (new_receiver ((receiver_cfg default_config)\<lparr>max_recv_msg_bytes := 1, require_token := False\<rparr>)
        (new_pipeline default_pipeline 0) None) =
   handle_traces (\<lambda>_ b. if b = [1] then Some [] else None) True (\<lambda>_. []) 0
     (consume_at (\<lambda>_. \<lparr>a_now = 0, a_done = False, a_pick = False\<rparr>))
     \<lparr>rq_method = ''POST'', rq_token = [], rq_ctype = [],
      rq_body = \<lparr>body_bytes = [1], body_broken = False\<rparr>\<rparr>
     (new_receiver ((receiver_cfg default_config)\<lparr>max_recv_msg_bytes := 1, require_token := False\<rparr>)
        (new_pipeline default_pipeline 0) None)"
  using oversized_body_cut [of "new_receiver ((receiver_cfg default_config)\<lparr>max_recv_msg_bytes := 1,
        require_token := False\<rparr>) (new_pipeline default_pipeline 0) None"
      "\<lparr>rq_method = ''POST'', rq_token = [], rq_ctype = [],
        rq_body = \<lparr>body_bytes = [1, 2, 3], body_broken = True\<rparr>\<rparr>"]
  by (simp add: new_receiver_def)

text \<open>C35 (listeners).  However often discovery asks for gateways, no address is bound twice, a failed
  one is not tried again, and the receiver listens nowhere but at its configured address and, in
  the mode \<open>auto\<close>, at the gateways it was asked for.  In any other mode nothing is ever opened.\<close>

theorem listeners_confined:
  assumes "new_binder m addr sock = Inr (b, l)"
  shows "distinct (map fst (b_bound (foldl (\<lambda>b h. fst (listen_on s b h)) b hs))) \<and>
         set (addresses (foldl (\<lambda>b h. fst (listen_on s b h)) b hs)) \<subseteq>
           insert addr (if m = BindAuto then (\<lambda>h. join_host_port h (b_port b)) ` set hs else {}) \<and>
         (\<forall>h. fst (listen_on s (fst (listen_on s b h)) h) = fst (listen_on s b h) \<and>
              fst (snd (listen_on s (fst (listen_on s b h)) h)) = None)"
proof -
  have b: "b_mode b = m" "b_bound b = [(addr, Some l)]"
    using assms by (auto simp: new_binder_def split: sum.splits option.splits)
  have "set (addresses (foldl (\<lambda>b h. fst (listen_on s b h)) b hs)) \<subseteq>
      tried_addrs (foldl (\<lambda>b h. fst (listen_on s b h)) b hs)"
    by (auto simp: addresses_def tried_addrs_def)
  also have "\<dots> \<subseteq> tried_addrs b \<union> (\<Union>h \<in> set hs. gateway_addrs b h)"
    by (rule binder_gateways.opened_only)
  also have "\<dots> \<subseteq> insert addr (if m = BindAuto then (\<lambda>h. join_host_port h (b_port b)) ` set hs else {})"
    using b by (auto simp: tried_addrs_def gateway_addrs_def)
  finally have "set (addresses (foldl (\<lambda>b h. fst (listen_on s b h)) b hs)) \<subseteq> \<dots>" .
  moreover have "distinct (map fst (b_bound (foldl (\<lambda>b h. fst (listen_on s b h)) b hs)))"
    by (rule listen_all_distinct) (simp add: b)
  moreover have "fst (snd (listen_on s (fst (listen_on s b h)) h)) = None" for h
    by (auto simp: listen_on_def Let_def split: option.splits)
  ultimately show ?thesis by (auto simp: listen_on_repeat)
qed

theorem listeners_confined_witness:
  "set (addresses (foldl (\<lambda>b h. fst (listen_on (\<lambda>_. Some 2) b h))
     \<lparr>b_mode = BindAuto, b_port = ''4317'', b_bound = [(''127.0.0.1:4317'', Some 1)]\<rparr>
     [''172.17.0.1'', ''172.17.0.1'']))
   \<subseteq> {''127.0.0.1:4317'', ''172.17.0.1:4317''}"
proof -
  have "new_binder BindAuto ''127.0.0.1:4317'' (\<lambda>_. Some 1) =
      Inr (\<lparr>b_mode = BindAuto, b_port = ''4317'', b_bound = [(''127.0.0.1:4317'', Some 1)]\<rparr>, 1)"
    by code_simp
  from listeners_confined [OF this, of "\<lambda>_. Some 2" "[''172.17.0.1'', ''172.17.0.1'']",
      THEN conjunct2, THEN conjunct1]
  show ?thesis by (simp add: join_host_port_def)
qed

end
