(* ===== verification/Containers.thy ===== *)
theory Containers
  imports Go_Strings
begin

text \<open>
  \<open>internal/container\<close>: what is known about the container of a process (\<open>info.go\<close>), the two
  metadata sources (\<open>docker.go\<close>, \<open>cgroup.go\<close>) and the caching resolver (\<open>resolver.go\<close>).  The answers
  of the Docker socket and the clock are arguments.
\<close>

section \<open>Identity\<close>

record info =
  i_id :: string
  i_name :: string
  i_image :: string
  compose_project :: string
  compose_service :: string
  pod_name :: string
  pod_namespace :: string
  i_pod_uid :: string
  app_label :: string
  i_source :: string

definition is_lower :: "char \<Rightarrow> bool" where
  "is_lower c \<longleftrightarrow> CHR ''a'' \<le> c \<and> c \<le> CHR ''z''"

definition is_generated_suffix :: "string \<Rightarrow> bool" where
  "is_generated_suffix seg \<longleftrightarrow>
     seg \<noteq> [] \<and> length seg \<le> 10 \<and> list_all (\<lambda>c. is_digit c \<or> is_lower c) seg \<and>
     (\<not> list_ex is_lower seg \<or> list_ex is_digit seg)"

definition trim_pod_suffixes :: "string \<Rightarrow> string" where
  "trim_pod_suffixes name = join ''-'' (trim_last is_generated_suffix (split_on (CHR ''-'') name))"

definition info_service_name :: "info option \<Rightarrow> string" where
  "info_service_name io =
     (case io of
        None \<Rightarrow> []
      | Some i \<Rightarrow>
          if app_label i \<noteq> [] then app_label i
          else if compose_service i \<noteq> [] then compose_service i
          else if pod_name i \<noteq> [] then trim_pod_suffixes (pod_name i)
          else if i_name i \<noteq> [] then i_name i else [])"

section \<open>Sources\<close>

record docker_inspect =
  d_id :: string
  d_name :: string
  d_image :: string
  d_labels :: "string \<rightharpoonup> string"

definition app_label_keys :: "string list" where
  "app_label_keys = [''app.kubernetes.io/name'', ''app.kubernetes.io/instance'', ''app'', ''k8s-app'']"

fun first_label :: "(string \<rightharpoonup> string) \<Rightarrow> string list \<Rightarrow> string" where
  "first_label m [] = []"
| "first_label m (k # ks) = (if get_str m k \<noteq> [] then get_str m k else first_label m ks)"

definition info_from_docker :: "docker_inspect \<Rightarrow> info" where
  "info_from_docker d =
     \<lparr>i_id = d_id d, i_name = trim_prefix (d_name d) ''/'', i_image = d_image d,
      compose_project = get_str (d_labels d) ''com.docker.compose.project'',
      compose_service = get_str (d_labels d) ''com.docker.compose.service'',
      pod_name = get_str (d_labels d) ''io.kubernetes.pod.name'',
      pod_namespace = get_str (d_labels d) ''io.kubernetes.pod.namespace'',
      i_pod_uid = get_str (d_labels d) ''io.kubernetes.pod.uid'',
      app_label = first_label (d_labels d) app_label_keys, i_source = ''docker''\<rparr>"

text \<open>What the socket did for one request: the HTTP status with the decoded body, if it decoded.\<close>

datatype docker_reply = NoConnection | Status nat "docker_inspect option"

datatype lookup_error = NoContainerId | QueryFailed | RefusedWith nat | Undecodable

definition docker_lookup :: "(string \<Rightarrow> docker_reply) \<Rightarrow> string \<Rightarrow> lookup_error + info" where
  "docker_lookup sock cid =
     (if cid = [] then Inl NoContainerId
      else case sock cid of
             NoConnection \<Rightarrow> Inl QueryFailed
           | Status code body \<Rightarrow>
               if code \<noteq> 200 then Inl (RefusedWith code)
               else case body of None \<Rightarrow> Inl Undecodable | Some d \<Rightarrow> Inr (info_from_docker d))"

definition empty_info :: info where
  "empty_info = \<lparr>i_id = [], i_name = [], i_image = [], compose_project = [], compose_service = [],
     pod_name = [], pod_namespace = [], i_pod_uid = [], app_label = [], i_source = []\<rparr>"

definition cgroup_lookup :: "string \<Rightarrow> lookup_error + info" where
  "cgroup_lookup cid = Inr (empty_info\<lparr>i_id := cid, i_source := ''cgroup''\<rparr>)"

subsection \<open>The pod UID in a cgroup path\<close>

text \<open>A regular expression that is a sequence of character classes: whether it matches a prefix, and
  the leftmost match.\<close>

fun match_classes :: "(char \<Rightarrow> bool) list \<Rightarrow> string \<Rightarrow> bool" where
  "match_classes [] s = True"
| "match_classes (p # ps) [] = False"
| "match_classes (p # ps) (c # cs) = (p c \<and> match_classes ps cs)"

fun find_classes :: "(char \<Rightarrow> bool) list \<Rightarrow> string \<Rightarrow> string option" where
  "find_classes ps [] = (if match_classes ps [] then Some [] else None)"
| "find_classes ps (c # cs) =
     (if match_classes ps (c # cs) then Some (take (length ps) (c # cs)) else find_classes ps cs)"

definition hex_class :: "char \<Rightarrow> bool" where
  "hex_class c \<longleftrightarrow> is_digit c \<or> CHR ''a'' \<le> c \<and> c \<le> CHR ''f''"

definition uid_classes :: "char \<Rightarrow> (char \<Rightarrow> bool) list" where
  "uid_classes sep =
     replicate 8 hex_class @ [\<lambda>c. c = sep] @ replicate 4 hex_class @ [\<lambda>c. c = sep] @
     replicate 4 hex_class @ [\<lambda>c. c = sep] @ replicate 4 hex_class @ [\<lambda>c. c = sep] @
     replicate 12 hex_class"

definition pod_classes :: "char \<Rightarrow> (char \<Rightarrow> bool) list" where
  "pod_classes sep =
     [\<lambda>c. c = CHR ''p'', \<lambda>c. c = CHR ''o'', \<lambda>c. c = CHR ''d''] @ uid_classes sep"

definition pod_uid_from_cgroup :: "string \<Rightarrow> string" where
  "pod_uid_from_cgroup cg =
     (case find_classes (pod_classes (CHR ''-'')) cg of
        Some m \<Rightarrow> drop 3 m
      | None \<Rightarrow>
          (case find_classes (pod_classes (CHR ''_'')) cg of
             Some m \<Rightarrow> map (\<lambda>c. if c = CHR ''_'' then CHR ''-'' else c) (drop 3 m)
           | None \<Rightarrow> []))"

text \<open>\<open>containerIDRe\<close>: the leftmost run of 64 hexadecimal digits.\<close>

definition container_id_of :: "string \<Rightarrow> string" where
  "container_id_of cg = (case find_classes (replicate 64 hex_class) cg of None \<Rightarrow> [] | Some m \<Rightarrow> m)"

section \<open>The resolver\<close>

text \<open>A source: its name and its lookup.\<close>

type_synonym runtime_source = "string \<times> (string \<Rightarrow> lookup_error + info)"

record resolver =
  rs_sources :: "runtime_source list"
  rs_cache :: "string \<rightharpoonup> info option \<times> gotime"

definition cache_ttl :: duration where "cache_ttl = 5 * minute"

text \<open>The Docker source is kept when its socket exists, the cgroup source always.\<close>

definition new_resolver :: "bool \<Rightarrow> (string \<Rightarrow> docker_reply) \<Rightarrow> resolver" where
  "new_resolver socket_there sock =
     \<lparr>rs_sources = (if socket_there then [(''docker'', docker_lookup sock)] else []) @
                   [(''cgroup'', cgroup_lookup)],
      rs_cache = Map.empty\<rparr>"

fun try_sources :: "runtime_source list \<Rightarrow> string \<Rightarrow> info option \<Rightarrow> info option" where
  "try_sources [] cid resolved = resolved"
| "try_sources ((name, lookup) # rest) cid resolved =
     (case lookup cid of
        Inl e \<Rightarrow> try_sources rest cid resolved
      | Inr i \<Rightarrow>
          if info_service_name (Some i) \<noteq> [] then Some i
          else try_sources rest cid (case resolved of None \<Rightarrow> Some i | Some r \<Rightarrow> Some r))"

text \<open>\<open>Resolve\<close>, on a resolver that may be nil; \<open>now\<close> is read before the lookup and \<open>later\<close> after
  it.\<close>

definition resolve :: "gotime \<Rightarrow> gotime \<Rightarrow> resolver option \<Rightarrow> string \<Rightarrow> resolver option \<times> info option" where
  "resolve now later ro cid =
     (case ro of
        None \<Rightarrow> (None, None)
      | Some r \<Rightarrow>
          if cid = [] then (Some r, None)
          else
            let fresh = (let i = try_sources (rs_sources r) cid None
                         in (Some (r\<lparr>rs_cache := (rs_cache r)(cid \<mapsto> (i, later + cache_ttl))\<rparr>), i))
            in case rs_cache r cid of
                 Some (i, expires) \<Rightarrow> if now < expires then (Some r, i) else fresh
               | None \<Rightarrow> fresh)"

definition sources :: "resolver option \<Rightarrow> string list" where
  "sources ro = (case ro of None \<Rightarrow> [] | Some r \<Rightarrow> map fst (rs_sources r))"

section \<open>Lemmas\<close>

lemma match_classes_iff:
  "match_classes ps s \<longleftrightarrow> length ps \<le> length s \<and> list_all2 (\<lambda>p c. p c) ps (take (length ps) s)"
  by (induction ps s rule: match_classes.induct) auto

lemma find_classes_Some:
  "find_classes ps s = Some m \<Longrightarrow> list_all2 (\<lambda>p c. p c) ps m"
  by (induction s) (auto simp: match_classes_iff split: if_splits)

lemma find_classes_None:
  "find_classes ps s = None \<longleftrightarrow> (\<forall>i < Suc (length s). \<not> match_classes ps (drop i s))"
proof (induction s)
  case (Cons c cs)
  have "(\<forall>i < Suc (length (c # cs)). \<not> match_classes ps (drop i (c # cs))) \<longleftrightarrow>
        \<not> match_classes ps (c # cs) \<and> (\<forall>i < Suc (length cs). \<not> match_classes ps (drop i cs))"
    unfolding list.size(4) add_Suc_right add_0_right by (subst All_less_Suc2) simp
  with Cons.IH show ?case by auto
qed simp

lemma find_classes_here:
  "match_classes ps s \<Longrightarrow> find_classes ps s = Some (take (length ps) s)"
  by (cases s) auto

text \<open>A pattern whose first class rejects every character of a prefix is looked for behind it.\<close>

lemma find_classes_skip:
  "\<forall>c \<in> set pre. \<not> p c \<Longrightarrow> find_classes (p # ps) (pre @ s) = find_classes (p # ps) s"
  by (induction pre) auto

lemma find_classes_absent: "\<forall>c \<in> set s. \<not> p c \<Longrightarrow> find_classes (p # ps) s = None"
  using find_classes_skip [of s p ps "[]"] by simp

definition is_uid :: "string \<Rightarrow> bool" where
  "is_uid u \<longleftrightarrow> list_all2 (\<lambda>p c. p c) (uid_classes (CHR ''-'')) u"

lemma hex_class_char: "hex_class c \<Longrightarrow> c \<noteq> CHR ''p'' \<and> c \<noteq> CHR ''-'' \<and> c \<noteq> CHR ''_''"
  by (auto simp: hex_class_def is_digit_def less_eq_char_def)

lemma uid_classes_length [simp]: "length (uid_classes sep) = 36"
  by (simp add: uid_classes_def)

lemma uid_classes_nth:
  "i < 36 \<Longrightarrow> uid_classes sep ! i = (if i \<in> {8, 13, 18, 23} then (\<lambda>c. c = sep) else hex_class)"
  by (auto simp: uid_classes_def nth_append nth_Cons split: nat.splits)

lemma uid_shape:
  "list_all2 (\<lambda>p c. p c) (uid_classes sep) u \<longleftrightarrow>
     length u = 36 \<and>
     (\<forall>i < 36. if i \<in> {8, 13, 18, 23} then u ! i = sep else hex_class (u ! i))"
  by (auto simp: list_all2_conv_all_nth uid_classes_nth)

definition underscored :: "string \<Rightarrow> string" where
  "underscored u = map (\<lambda>c. if c = CHR ''-'' then CHR ''_'' else c) u"

definition dashed :: "string \<Rightarrow> string" where
  "dashed u = map (\<lambda>c. if c = CHR ''_'' then CHR ''-'' else c) u"

lemma uid_nth:
  "list_all2 (\<lambda>p c. p c) (uid_classes sep) u \<Longrightarrow> i < 36 \<Longrightarrow>
     i \<in> {8, 13, 18, 23} \<and> u ! i = sep \<or> i \<notin> {8, 13, 18, 23} \<and> hex_class (u ! i)"
  unfolding uid_shape by (metis (full_types))

lemma underscored_uid:
  assumes "is_uid u"
  shows "list_all2 (\<lambda>p c. p c) (uid_classes (CHR ''_'')) (underscored u)"
  unfolding uid_shape
proof (intro conjI allI impI)
  show "length (underscored u) = 36" using assms by (simp add: is_uid_def uid_shape underscored_def)
  fix i :: nat assume i: "i < 36"
  have "length u = 36" using assms by (simp add: is_uid_def uid_shape)
  then have "underscored u ! i = (if u ! i = CHR ''-'' then CHR ''_'' else u ! i)"
    using i by (simp add: underscored_def)
  with uid_nth [OF assms [unfolded is_uid_def] i] hex_class_char [of "u ! i"]
  show "if i \<in> {8, 13, 18, 23} then underscored u ! i = CHR ''_'' else hex_class (underscored u ! i)"
    by (auto split: if_splits)
qed

lemma uid_char: "list_all2 (\<lambda>p c. p c) (uid_classes sep) u \<Longrightarrow> c \<in> set u \<Longrightarrow> c = sep \<or> hex_class c"
proof -
  assume u: "list_all2 (\<lambda>p c. p c) (uid_classes sep) u" and "c \<in> set u"
  then obtain i where "i < 36" "u ! i = c" by (auto simp: in_set_conv_nth uid_shape)
  with uid_nth [OF u, of i] show ?thesis by blast
qed

lemma dashed_again: "is_uid u \<Longrightarrow> dashed (underscored u) = u"
  unfolding dashed_def underscored_def map_map
proof (rule map_idI)
  fix c assume "is_uid u" "c \<in> set u"
  then have "c = CHR ''-'' \<or> hex_class c" using uid_char unfolding is_uid_def by blast
  with hex_class_char [of c]
  show "((\<lambda>c. if c = CHR ''_'' then CHR ''-'' else c) \<circ> (\<lambda>c. if c = CHR ''-'' then CHR ''_'' else c)) c = c"
    by auto
qed

lemma dashed_uid:
  assumes "list_all2 (\<lambda>p c. p c) (uid_classes (CHR ''_'')) u"
  shows "is_uid (dashed u)"
  unfolding is_uid_def uid_shape
proof (intro conjI allI impI)
  show "length (dashed u) = 36" using assms by (simp add: uid_shape dashed_def)
  fix i :: nat assume i: "i < 36"
  have "length u = 36" using assms by (simp add: uid_shape)
  then have "dashed u ! i = (if u ! i = CHR ''_'' then CHR ''-'' else u ! i)"
    using i by (simp add: dashed_def)
  with uid_nth [OF assms i] hex_class_char [of "u ! i"]
  show "if i \<in> {8, 13, 18, 23} then dashed u ! i = CHR ''-'' else hex_class (dashed u ! i)"
    by (auto split: if_splits)
qed

lemma uid_no_p:
  "list_all2 (\<lambda>p c. p c) (uid_classes sep) u \<Longrightarrow> sep \<noteq> CHR ''p'' \<Longrightarrow> CHR ''p'' \<notin> set u"
  using uid_char hex_class_char by metis

lemma match_pod:
  "match_classes (pod_classes sep) (''pod'' @ u @ post) = match_classes (uid_classes sep) (u @ post)"
  by (simp add: pod_classes_def)

lemma pod_classes_Cons:
  "pod_classes sep = (\<lambda>c. c = CHR ''p'') # (\<lambda>c. c = CHR ''o'') # (\<lambda>c. c = CHR ''d'') # uid_classes sep"
  by (simp add: pod_classes_def)

lemma find_pod_skip:
  "CHR ''p'' \<notin> set pre \<Longrightarrow> find_classes (pod_classes sep) (pre @ s) = find_classes (pod_classes sep) s"
  unfolding pod_classes_Cons by (rule find_classes_skip) auto

lemma find_pod:
  assumes "CHR ''p'' \<notin> set pre" and "list_all2 (\<lambda>p c. p c) (uid_classes sep) u"
  shows "find_classes (pod_classes sep) (pre @ ''pod'' @ u @ post) = Some (''pod'' @ u)"
proof -
  have len: "length u = 36" using assms(2) by (simp add: uid_shape)
  have "match_classes (uid_classes sep) (u @ post)"
    using assms(2) len by (simp add: match_classes_iff)
  then have "find_classes (pod_classes sep) (''pod'' @ u @ post) =
      Some (take (length (pod_classes sep)) (''pod'' @ u @ post))"
    by (intro find_classes_here) (simp only: match_pod)
  then show ?thesis unfolding find_pod_skip [OF assms(1)] using len by (simp add: pod_classes_Cons)
qed

lemma find_pod_other:
  assumes "CHR ''p'' \<notin> set pre" "CHR ''p'' \<notin> set post"
    and "list_all2 (\<lambda>p c. p c) (uid_classes (CHR ''_'')) u"
  shows "find_classes (pod_classes (CHR ''-'')) (pre @ ''pod'' @ u @ post) = None"
proof -
  have len: "length u = 36" using assms(3) by (simp add: uid_shape)
  have u8: "u ! 8 = CHR ''_''" using assms(3) unfolding uid_shape by (elim conjE allE [of _ 8]) simp
  have "\<not> match_classes (uid_classes (CHR ''-'')) (u @ post)"
  proof
    assume "match_classes (uid_classes (CHR ''-'')) (u @ post)"
    then have "list_all2 (\<lambda>p c. p c) (uid_classes (CHR ''-'')) u"
      using len by (simp add: match_classes_iff)
    then have "u ! 8 = CHR ''-''" unfolding uid_shape by (elim conjE allE [of _ 8]) simp
    with u8 show False by simp
  qed
  then have "\<not> match_classes (pod_classes (CHR ''-'')) (''pod'' @ u @ post)" by (simp only: match_pod not_False_eq_True)
  moreover have "find_classes (pod_classes (CHR ''-'')) (''od'' @ u @ post) = None"
    unfolding pod_classes_Cons
    by (rule find_classes_absent) (use assms uid_no_p [OF assms(3)] in auto)
  ultimately have "find_classes (pod_classes (CHR ''-'')) (''pod'' @ u @ post) = None" by simp
  then show ?thesis unfolding find_pod_skip [OF assms(1)] .
qed

section \<open>Properties\<close>

text \<open>(the pods of a workload share its name) Whatever generated suffixes a pod name ends in,
  trimming gives the name of the workload, provided the last segment of that name does not itself
  look generated.\<close>

theorem pods_share_name:
  assumes "base \<noteq> []" and "\<forall>s \<in> set (base @ sfx). CHR ''-'' \<notin> set s"
    and "\<not> is_generated_suffix (last base)" and "\<forall>s \<in> set sfx. is_generated_suffix s"
  shows "trim_pod_suffixes (join ''-'' (base @ sfx)) = join ''-'' base"
  using assms
  by (simp add: trim_pod_suffixes_def split_on_join trim_last_append trim_last_stop)

theorem pods_share_name_witness:
  "trim_pod_suffixes (join ''-'' ([''order'', ''api''] @ [''7d9f8b6c4d'', ''x2k9p''])) = ''order-api''"
  using pods_share_name [of "[''order'', ''api'']" "[''7d9f8b6c4d'', ''x2k9p'']"]
  by (simp add: is_generated_suffix_def is_digit_def is_lower_def less_eq_char_def)

text \<open>(a suffix of letters is kept) The suffix Kubernetes gives a pod is drawn from consonants
  and digits and may hold no digit; such a pod keeps its suffix, and with it its ReplicaSet hash,
  in the service name.\<close>

theorem lettered_pod_keeps_suffix:
  "trim_pod_suffixes ''checkout-7d9f8b6c4d-xkbwp'' = ''checkout-7d9f8b6c4d-xkbwp''"
  by code_simp

text \<open>(the pod UID in both spellings) The UID found is empty or has the canonical form, and the
  path of the cgroupfs driver and that of the systemd driver, which writes underscores, give the
  same UID.\<close>

theorem pod_uid_canonical:
  assumes "is_uid u" and "CHR ''p'' \<notin> set pre" and "CHR ''p'' \<notin> set post"
  shows "pod_uid_from_cgroup (pre @ ''pod'' @ u @ post) = u \<and>
         pod_uid_from_cgroup (pre @ ''pod'' @ underscored u @ post) = u \<and>
         (pod_uid_from_cgroup cg = [] \<or> is_uid (pod_uid_from_cgroup cg))"
proof (intro conjI)
  show "pod_uid_from_cgroup (pre @ ''pod'' @ u @ post) = u"
    unfolding pod_uid_from_cgroup_def find_pod [OF assms(2) assms(1) [unfolded is_uid_def]] by simp
  show "pod_uid_from_cgroup (pre @ ''pod'' @ underscored u @ post) = u"
    unfolding pod_uid_from_cgroup_def find_pod [OF assms(2) underscored_uid [OF assms(1)]]
      find_pod_other [OF assms(2,3) underscored_uid [OF assms(1)]]
    using dashed_again [OF assms(1)] by (simp add: dashed_def)
  show "pod_uid_from_cgroup cg = [] \<or> is_uid (pod_uid_from_cgroup cg)"
    using find_classes_Some [of "pod_classes (CHR ''-'')" cg]
      find_classes_Some [of "pod_classes (CHR ''_'')" cg] dashed_uid
    by (auto simp: pod_uid_from_cgroup_def pod_classes_Cons is_uid_def list_all2_Cons1 dashed_def
        split: option.splits)
qed

theorem pod_uid_canonical_witness:
  "pod_uid_from_cgroup (''0::/kube/'' @ ''pod'' @ underscored ''0a1b2c3d-0000-1111-2222-0123456789ab'' @ [])
   = ''0a1b2c3d-0000-1111-2222-0123456789ab''"
proof -
  have "is_uid ''0a1b2c3d-0000-1111-2222-0123456789ab''" by code_simp
  from pod_uid_canonical [OF this, of "''0::/kube/''" "[]"] show ?thesis by simp
qed

text \<open>(resolution never fails, names win, answers are kept) For a container id, a resolver always
  answers; with a usable name whenever Docker knows one; and for the next five minutes it gives the
  same answer without asking any source, even if the sources changed.\<close>

theorem resolve_spec:
  assumes "cid \<noteq> []" and "rs_cache r cid = None" and "rs_sources r = rs_sources (new_resolver b sock)"
    and "resolve now later (Some r) cid = (Some r', answer)"
  shows "answer \<noteq> None \<and>
         (b \<and> docker_lookup sock cid = Inr i \<and> info_service_name (Some i) \<noteq> [] \<longrightarrow> answer = Some i) \<and>
         (t < later + cache_ttl \<longrightarrow>
            resolve t t' (Some (r'\<lparr>rs_sources := other\<rparr>)) cid = (Some (r'\<lparr>rs_sources := other\<rparr>), answer))"
  using assms
  by (auto simp: resolve_def Let_def new_resolver_def cgroup_lookup_def split: sum.splits if_splits)

theorem resolve_spec_witness:
  "snd (resolve 0 0 (Some (new_resolver False (\<lambda>_. NoConnection))) ''c'') \<noteq> None"
proof -
  let ?r = "new_resolver False (\<lambda>_. NoConnection)"
  obtain r' a where ra: "resolve 0 0 (Some ?r) ''c'' = (Some r', a)"
    by (simp add: resolve_def new_resolver_def Let_def)
  from resolve_spec [OF _ _ refl ra, THEN conjunct1] ra show ?thesis by (simp add: new_resolver_def)
qed

end
