(* ===== verification/Hsperf.thy ===== *)
theory Hsperf
  imports Spans
begin

text \<open>
  \<open>internal/discovery/hsperf.go\<close>: decoding the performance data file every HotSpot JVM maps into its
  own \<open>/tmp\<close>.  The file belongs to the observed process, so its bytes are untrusted.  A slice
  expression or an index out of range is Go's run-time panic, a value of the result type here.
\<close>

section \<open>Byte order\<close>

datatype byte_order = BigEndian | LittleEndian

text \<open>\<open>order.Uint32(b[off:off+4])\<close>.\<close>

definition u32 :: "byte_order \<Rightarrow> bytes \<Rightarrow> nat \<Rightarrow> nat" where
  "u32 ord b off =
     (let x = (\<lambda>i. unat (b ! (off + i)))
      in case ord of
           BigEndian \<Rightarrow> ((x 0 * 256 + x 1) * 256 + x 2) * 256 + x 3
         | LittleEndian \<Rightarrow> ((x 3 * 256 + x 2) * 256 + x 1) * 256 + x 0)"

section \<open>Decoding\<close>

record perf_data =
  java_version :: string
  java_command :: string
  vm_args :: string
  vm_version :: string
  vm_name :: string

definition empty_perf :: perf_data where
  "empty_perf = \<lparr>java_version = [], java_command = [], vm_args = [], vm_version = [], vm_name = []\<rparr>"

definition hsperf_prolog_len :: nat where "hsperf_prolog_len = 32"
definition hsperf_entry_hdr :: nat where "hsperf_entry_hdr = 20"

datatype perf_error = TooShort | BadMagic | BadVersion | OutOfRange

datatype 'a parsed = Panicked | Failed perf_error | Parsed 'a

definition text_of :: "bytes \<Rightarrow> string" where
  "text_of b = map (\<lambda>w. char_of (unat w)) b"

text \<open>\<open>cstring\<close>: up to the first NUL, or everything.\<close>

definition cstring :: "bytes \<Rightarrow> string" where
  "cstring b = text_of (takeWhile (\<lambda>w. w \<noteq> 0) b)"

definition set_counter :: "string \<Rightarrow> string \<Rightarrow> perf_data \<Rightarrow> perf_data" where
  "set_counter name v pd =
     (if name = ''java.property.java.version'' then pd\<lparr>java_version := v\<rparr>
      else if name = ''sun.rt.javaCommand'' then pd\<lparr>java_command := v\<rparr>
      else if name = ''java.rt.vmArgs'' then pd\<lparr>vm_args := v\<rparr>
      else if name = ''java.property.java.vm.version'' then pd\<lparr>vm_version := v\<rparr>
      else if name = ''java.property.java.vm.name'' then pd\<lparr>vm_name := v\<rparr>
      else pd)"

text \<open>The body of the loop for the entry of \<open>len\<close> bytes at \<open>pos\<close>.  The entry is a slice of the buffer:
  slicing it further is checked against the end of the buffer, which the loop has made sure is at
  least 20 bytes away, but indexing it is checked against its own length.\<close>

definition read_entry :: "byte_order \<Rightarrow> bytes \<Rightarrow> nat \<Rightarrow> nat \<Rightarrow> perf_data \<Rightarrow> perf_data option" where
  "read_entry ord buf pos len pd =
     (if len \<le> 12 then None
      else
        let name_off = u32 ord buf (pos + 4);
            vector_len = u32 ord buf (pos + 8);
            data_type = buf ! (pos + 12);
            data_off = u32 ord buf (pos + 16);
            ent = take len (drop pos buf)
        in Some
             (if name_off < hsperf_entry_hdr \<or> len \<le> name_off \<or> data_off = 0 \<or> len < data_off then pd
              else
                let name = cstring (drop name_off ent)
                in if vector_len = 0 \<or> data_type \<noteq> 66 then pd
                   else let end_off = min (data_off + vector_len) len
                        in set_counter name
                             (trim_right (\<lambda>c. c = CHR '' '')
                               (cstring (drop data_off (take end_off ent)))) pd))"

fun read_entries :: "byte_order \<Rightarrow> bytes \<Rightarrow> nat \<Rightarrow> nat \<Rightarrow> perf_data \<Rightarrow> perf_data option" where
  "read_entries ord buf 0 pos pd = Some pd"
| "read_entries ord buf (Suc n) pos pd =
     (if length buf < pos + hsperf_entry_hdr then Some pd
      else
        let len = u32 ord buf pos
        in if len = 0 \<or> length buf < pos + len then Some pd
           else case read_entry ord buf pos len pd of
                  None \<Rightarrow> None
                | Some pd' \<Rightarrow> read_entries ord buf n (pos + len) pd')"

definition perf_order :: "bytes \<Rightarrow> byte_order" where
  "perf_order buf = (if buf ! 4 = 1 then LittleEndian else BigEndian)"

definition parse_perf_data :: "bytes \<Rightarrow> perf_data parsed" where
  "parse_perf_data buf =
     (if length buf < hsperf_prolog_len then Failed TooShort
      else if u32 BigEndian buf 0 \<noteq> 3405693120 then Failed BadMagic
      else if unat (buf ! 5) < 2 then Failed BadVersion
      else
        let entry_offset = u32 (perf_order buf) buf 24;
            num_entries = u32 (perf_order buf) buf 28
        in if entry_offset < hsperf_prolog_len \<or> length buf < entry_offset then Failed OutOfRange
           else case read_entries (perf_order buf) buf num_entries entry_offset empty_perf of
                  None \<Rightarrow> Panicked
                | Some pd \<Rightarrow> Parsed pd)"

text \<open>\<open>readPerfData\<close>: the first candidate file that is readable, of a plausible size and decodes.  A
  file is its size and its bytes, if it could be read.\<close>

definition max_perf_file_size :: nat where "max_perf_file_size = 4194304"

fun read_perf_data :: "(nat \<times> bytes option) option list \<Rightarrow> perf_data option parsed" where
  "read_perf_data [] = Parsed None"
| "read_perf_data (None # fs) = read_perf_data fs"
| "read_perf_data (Some (sz, contents) # fs) =
     (if sz < hsperf_prolog_len \<or> max_perf_file_size < sz then read_perf_data fs
      else case contents of
             None \<Rightarrow> read_perf_data fs
           | Some buf \<Rightarrow>
               (case parse_perf_data buf of
                  Panicked \<Rightarrow> Panicked
                | Failed e \<Rightarrow> read_perf_data fs
                | Parsed pd \<Rightarrow> Parsed (Some pd)))"

section \<open>Versions\<close>

text \<open>\<open>strings.FieldsFunc\<close> at the four separators of a version text.\<close>

definition version_separator :: "char \<Rightarrow> bool" where
  "version_separator c \<longleftrightarrow> c \<in> {CHR ''.'', CHR ''_'', CHR ''-'', CHR ''+''}"

definition version_fields :: "string \<Rightarrow> string list" where
  "version_fields v =
     filter (\<lambda>f. f \<noteq> []) (split_on (CHR ''.'') (map (\<lambda>c. if version_separator c then CHR ''.'' else c) v))"

definition major_java_version :: "string \<Rightarrow> int" where
  "major_java_version v =
     (case version_fields v of
        [] \<Rightarrow> 0
      | p # ps \<Rightarrow>
          (case atoi p of
             None \<Rightarrow> 0
           | Some first \<Rightarrow>
               if first = 1 \<and> ps \<noteq> [] then (case atoi (hd ps) of Some n \<Rightarrow> n | None \<Rightarrow> 0)
               else first))"

section \<open>Files as HotSpot writes them\<close>

text \<open>An encoder for the format that the comment of the source gives, to state what decoding means.\<close>

definition put_u32 :: "byte_order \<Rightarrow> nat \<Rightarrow> bytes" where
  "put_u32 ord n =
     (let b = [word_of_nat (n div 16777216), word_of_nat (n div 65536), word_of_nat (n div 256), word_of_nat n]
      in case ord of BigEndian \<Rightarrow> b | LittleEndian \<Rightarrow> rev b)"

definition bytes_of :: "string \<Rightarrow> bytes" where
  "bytes_of s = map (\<lambda>c. word_of_nat (of_char c)) s"

definition encode_counter :: "byte_order \<Rightarrow> string \<times> string \<Rightarrow> bytes" where
  "encode_counter ord c =
     (case c of (name, v) \<Rightarrow>
        let n = bytes_of name @ [0]; d = bytes_of v @ [0]
        in put_u32 ord (20 + length n + length d) @ put_u32 ord 20 @ put_u32 ord (length d) @
           [66, 0, 5, 1] @ put_u32 ord (20 + length n) @ n @ d)"

definition encode_perf :: "byte_order \<Rightarrow> (string \<times> string) list \<Rightarrow> bytes" where
  "encode_perf ord cs =
     [202, 254, 192, 192, case ord of LittleEndian \<Rightarrow> 1 | BigEndian \<Rightarrow> 0, 2, 0, 1] @ replicate 16 0 @
     put_u32 ord 32 @ put_u32 ord (length cs) @ concat (map (encode_counter ord) cs)"

definition counter_ok :: "string \<times> string \<Rightarrow> bool" where
  "counter_ok c \<longleftrightarrow>
     (case c of (name, v) \<Rightarrow>
        CHR 0x00 \<notin> set name \<and> CHR 0x00 \<notin> set v \<and> (v = [] \<or> last v \<noteq> CHR '' '') \<and>
        length name + length v + 22 < 2 ^ 32)"

lemma length_put_u32 [simp]: "length (put_u32 ord n) = 4"
  by (simp add: put_u32_def Let_def split: byte_order.split)

lemma unat_byte_mod: "unat (word_of_nat n :: 8 word) = n mod 256"
  by (simp add: unat_of_nat)

lemma top_byte: "n < 2 ^ 32 \<Longrightarrow> n div 16777216 mod 256 = n div (16777216 :: nat)"
  by (intro mod_less) (simp add: less_mult_imp_div_less)

lemma u32_bytes:
  fixes n :: nat
  assumes "n < 2 ^ 32"
  shows "((n div 16777216 mod 256 * 256 + n div 65536 mod 256) * 256 + n div 256 mod 256) * 256 + n mod 256 = n"
proof -
  have 1: "n div 16777216 * 256 + n div 65536 mod 256 = n div 65536"
    using div_mult_mod_eq [of "n div 65536" 256] by (simp add: div_mult2_eq [symmetric])
  have 2: "n div 65536 * 256 + n div 256 mod 256 = n div 256"
    using div_mult_mod_eq [of "n div 256" 256] by (simp add: div_mult2_eq [symmetric])
  show ?thesis unfolding top_byte [OF assms] 1 2 by (rule div_mult_mod_eq)
qed

lemma u32_at:
  assumes "drop off b = put_u32 ord n @ rest" and "n < 2 ^ 32"
  shows "u32 ord b off = n"
proof -
  have "off \<le> length b" using assms(1) by (metis drop_all length_put_u32 list.size(3)
      append_is_Nil_conv nat_le_linear numeral_eq_Suc zero_neq_numeral)
  then have nth: "b ! (off + i) = (put_u32 ord n @ rest) ! i" for i
    using assms(1) nth_drop [of off b i] by simp
  show ?thesis
    using u32_bytes [OF assms(2)] top_byte [OF assms(2)]
    by (simp add: u32_def nth put_u32_def Let_def unat_byte_mod nth_append split: byte_order.split)
qed

lemma text_of_bytes_of [simp]: "text_of (bytes_of s) = s"
  by (simp add: text_of_def bytes_of_def comp_def unat_byte_mod map_idI)

lemma bytes_of_length [simp]: "length (bytes_of s) = length s"
  by (simp add: bytes_of_def)

lemma bytes_of_no_nul: "CHR 0x00 \<notin> set s \<Longrightarrow> w \<in> set (bytes_of s) \<Longrightarrow> w \<noteq> 0"
proof
  assume "CHR 0x00 \<notin> set s" "w \<in> set (bytes_of s)" "w = 0"
  then obtain c where "c \<in> set s" "unat (word_of_nat (of_char c) :: 8 word) = 0"
    by (auto simp: bytes_of_def)
  then have "(of_char c :: nat) = 0" by (simp add: unat_byte_mod)
  then have "of_char c = (of_char (CHR 0x00) :: nat)" by simp
  then have "c = CHR 0x00" by (simp only: of_char_eq_iff)
  with \<open>c \<in> set s\<close> \<open>CHR 0x00 \<notin> set s\<close> show False by simp
qed

lemma cstring_bytes_of: "CHR 0x00 \<notin> set s \<Longrightarrow> cstring (bytes_of s @ 0 # r) = s"
proof -
  assume "CHR 0x00 \<notin> set s"
  then have "takeWhile (\<lambda>w. w \<noteq> 0) (bytes_of s @ 0 # r) = bytes_of s"
    using bytes_of_no_nul [of s] by (simp add: takeWhile_tail takeWhile_append2)
  then show ?thesis by (simp add: cstring_def)
qed

lemma length_encode_counter:
  "length (encode_counter ord (name, v)) = 22 + length name + length v"
  by (simp add: encode_counter_def Let_def)

lemma drop_append_exact: "length a = n \<Longrightarrow> drop n (a @ b) = b"
  by simp

lemma read_entry_counter:
  assumes "counter_ok (name, v)"
  shows "read_entry ord (pre @ encode_counter ord (name, v) @ rest) (length pre)
           (22 + length name + length v) pd = Some (set_counter name v pd)"
proof -
  let ?n = "bytes_of name @ [0]" and ?d = "bytes_of v @ [0]"
  let ?len = "22 + length name + length v"
  let ?b = "pre @ encode_counter ord (name, v) @ rest"
  have ok: "CHR 0x00 \<notin> set name" "CHR 0x00 \<notin> set v" "v = [] \<or> last v \<noteq> CHR '' ''" "?len < 2 ^ 32"
    using assms by (simp_all add: counter_ok_def)
  have enc: "encode_counter ord (name, v) = put_u32 ord ?len @ put_u32 ord 20 @ put_u32 ord (length v + 1) @
      [66, 0, 5, 1] @ put_u32 ord (21 + length name) @ ?n @ ?d"
    by (simp add: encode_counter_def Let_def algebra_simps)
  have d4: "drop (length pre + 4) ?b = put_u32 ord 20 @ (put_u32 ord (length v + 1) @
      [66, 0, 5, 1] @ put_u32 ord (21 + length name) @ ?n @ ?d @ rest)"
    and d8: "drop (length pre + 8) ?b = put_u32 ord (length v + 1) @
      ([66, 0, 5, 1] @ put_u32 ord (21 + length name) @ ?n @ ?d @ rest)"
    and d16: "drop (length pre + 16) ?b = put_u32 ord (21 + length name) @ (?n @ ?d @ rest)"
    unfolding enc by simp_all
  have u: "u32 ord ?b (length pre + 4) = 20" "u32 ord ?b (length pre + 8) = length v + 1"
    "u32 ord ?b (length pre + 16) = 21 + length name"
    using u32_at [OF d4] u32_at [OF d8] u32_at [OF d16] ok(4) by simp_all
  have t: "?b ! (length pre + 12) = 66" unfolding enc by (simp add: nth_append)
  have ent: "take ?len (drop (length pre) ?b) = encode_counter ord (name, v)"
    by (simp add: length_encode_counter)
  have name: "cstring (drop 20 (encode_counter ord (name, v))) = name"
    unfolding enc using cstring_bytes_of [OF ok(1), of "?d"] by simp
  have vd: "drop (21 + length name) (encode_counter ord (name, v)) = ?d"
  proof -
    let ?head = "put_u32 ord ?len @ put_u32 ord 20 @ put_u32 ord (length v + 1) @ [66, 0, 5, 1] @
        put_u32 ord (21 + length name) @ ?n"
    have "encode_counter ord (name, v) = ?head @ ?d" unfolding enc by simp
    moreover have "length ?head = 21 + length name" by simp
    ultimately show ?thesis by (metis drop_append_exact)
  qed
  have "cstring ?d = v" using cstring_bytes_of [OF ok(2), of "[]"] by simp
  then have "trim_right (\<lambda>c. c = CHR '' '') (cstring ?d) = v" using ok(3) by (simp add: trim_right_id)
  moreover have "min (21 + length name + (length v + 1)) ?len = ?len" by simp
  moreover have "take ?len (encode_counter ord (name, v)) = encode_counter ord (name, v)"
    by (simp add: length_encode_counter)
  ultimately show ?thesis
    unfolding read_entry_def u t ent Let_def hsperf_entry_hdr_def name by (simp add: vd)
qed

lemma read_entries_counters:
  "list_all counter_ok cs \<Longrightarrow>
   read_entries ord (pre @ concat (map (encode_counter ord) cs)) (length cs) (length pre) pd =
     Some (fold (\<lambda>(n, v). set_counter n v) cs pd)"
proof (induction cs arbitrary: pre pd)
  case (Cons c cs)
  obtain name v where c: "c = (name, v)" by force
  let ?rest = "concat (map (encode_counter ord) cs)"
  let ?b = "pre @ encode_counter ord (name, v) @ ?rest"
  have ok: "counter_ok (name, v)" using Cons.prems c by simp
  have "drop (length pre) ?b = put_u32 ord (22 + length name + length v) @
      (drop 4 (encode_counter ord (name, v)) @ ?rest)"
    by (simp add: encode_counter_def Let_def algebra_simps)
  then have len: "u32 ord ?b (length pre) = 22 + length name + length v"
    by (rule u32_at) (use ok in \<open>simp add: counter_ok_def\<close>)
  have IH: "read_entries ord ((pre @ encode_counter ord (name, v)) @ ?rest) (length cs)
      (length (pre @ encode_counter ord (name, v))) (set_counter name v pd) =
      Some (fold (\<lambda>(n, v). set_counter n v) cs (set_counter name v pd))"
    using Cons.prems by (intro Cons.IH) simp
  then show ?case
    using read_entry_counter [OF ok, of ord pre ?rest pd] len
    by (simp add: c Let_def hsperf_entry_hdr_def length_encode_counter add.assoc)
qed simp

text \<open>The lengths of the entries the loop reaches.\<close>

fun entry_lengths :: "byte_order \<Rightarrow> bytes \<Rightarrow> nat \<Rightarrow> nat \<Rightarrow> nat list" where
  "entry_lengths ord buf 0 pos = []"
| "entry_lengths ord buf (Suc n) pos =
     (let len = u32 ord buf pos
      in if length buf < pos + hsperf_entry_hdr \<or> len = 0 \<or> length buf < pos + len then []
         else len # entry_lengths ord buf n (pos + len))"

lemma read_entries_None:
  "read_entries ord buf n pos pd = None \<longleftrightarrow> (\<exists>l \<in> set (entry_lengths ord buf n pos). l \<le> 12)"
proof (induction n arbitrary: pos pd)
  case (Suc n)
  let ?len = "u32 ord buf pos"
  show ?case
  proof (cases "length buf < pos + hsperf_entry_hdr \<or> ?len = 0 \<or> length buf < pos + ?len")
    case False
    have "read_entry ord buf pos ?len pd = None \<longleftrightarrow> ?len \<le> 12"
      by (simp add: read_entry_def Let_def)
    with False Suc.IH [of "pos + ?len"] show ?thesis
      by (cases "read_entry ord buf pos ?len pd") (auto simp: Let_def)
  qed (auto simp: Let_def)
qed simp

section \<open>Properties\<close>



text \<open>C19 (when decoding panics).  Decoding panics exactly when the header is accepted and the loop
  reaches an entry of at most 12 bytes: the code checks that 20 bytes of the buffer are left, but
  reads the type byte at index 12 of the entry itself.\<close>

theorem perf_panic_iff:
  "parse_perf_data buf = Panicked \<longleftrightarrow>
     hsperf_prolog_len \<le> length buf \<and> u32 BigEndian buf 0 = 3405693120 \<and> 2 \<le> unat (buf ! 5) \<and>
     hsperf_prolog_len \<le> u32 (perf_order buf) buf 24 \<and> u32 (perf_order buf) buf 24 \<le> length buf \<and>
     list_ex (\<lambda>l. l \<le> 12)
       (entry_lengths (perf_order buf) buf (u32 (perf_order buf) buf 28) (u32 (perf_order buf) buf 24))"
  using read_entries_None [of "perf_order buf" buf "u32 (perf_order buf) buf 28" "u32 (perf_order buf) buf 24" empty_perf]
  by (auto simp: parse_perf_data_def Let_def list_ex_iff not_less split: option.splits)

text \<open>The smallest file that does it: 52 bytes that any user can place under \<open>/tmp\<close>.\<close>

definition hostile_perf_file :: bytes where
  "hostile_perf_file =
     [202, 254, 192, 192, 1, 2, 0, 1, 0, 0, 0, 0, 0, 0, 0, 0, 0, 0, 0, 0, 0, 0, 0, 0,
      32, 0, 0, 0, 1, 0, 0, 0, 12, 0, 0, 0, 0, 0, 0, 0, 0, 0, 0, 0, 0, 0, 0, 0, 0, 0, 0, 0]"

lemma hostile_fields:
  "length hostile_perf_file = 52" "u32 BigEndian hostile_perf_file 0 = 3405693120"
  "hostile_perf_file ! 5 = 2" "hostile_perf_file ! 4 = 1" "u32 LittleEndian hostile_perf_file 24 = 32"
  "u32 LittleEndian hostile_perf_file 28 = 1" "u32 LittleEndian hostile_perf_file 32 = 12"
  by (simp_all add: hostile_perf_file_def u32_def)

text \<open>(one hostile file stops the daemon) Reading the performance data of a process whose file is
  this one panics; no caller recovers, so one unprivileged user ends discovery for the host.\<close>

theorem hostile_perf_file_panics:
  "read_perf_data [Some (52, Some hostile_perf_file)] = Panicked"
proof -
  have "parse_perf_data hostile_perf_file = Panicked"
    unfolding perf_panic_iff
    by (simp add: perf_order_def hsperf_prolog_len_def hsperf_entry_hdr_def hostile_fields)
  then show ?thesis by (simp add: hsperf_prolog_len_def max_perf_file_size_def)
qed

end
