(* ===== verification/Go_Path.thy ===== *)
theory Go_Path
  imports Go_Strings
begin

text \<open>
  \<open>path/filepath\<close> on Unix, as far as the source uses it: \<open>Clean\<close>, \<open>Join\<close>, \<open>Dir\<close> and \<open>Base\<close>.
\<close>

text \<open>One element of a path on the stack of elements kept so far, last first.\<close>

fun clean_step :: "bool \<Rightarrow> string list \<Rightarrow> string \<Rightarrow> string list" where
  "clean_step rooted acc e =
     (if e = [] \<or> e = ''.'' then acc
      else if e = ''..'' then
        (case acc of
           [] \<Rightarrow> if rooted then [] else [''..'']
         | x # xs \<Rightarrow> if x = ''..'' then ''..'' # acc else xs)
      else e # acc)"

definition path_clean :: "string \<Rightarrow> string" where
  "path_clean p =
     (let rooted = has_prefix p ''/'';
          body = join ''/'' (rev (foldl (clean_step rooted) [] (split_on (CHR ''/'') p)))
      in if rooted then ''/'' @ body else if body = [] then ''.'' else body)"

definition path_join :: "string list \<Rightarrow> string" where
  "path_join es = (let ne = filter (\<lambda>e. e \<noteq> []) es in if ne = [] then [] else path_clean (join ''/'' ne))"

definition path_base :: "string \<Rightarrow> string" where
  "path_base p =
     (if p = [] then ''.''
      else let q = trim_right (\<lambda>c. c = CHR ''/'') p
           in if q = [] then ''/'' else last (split_on (CHR ''/'') q))"

definition path_dir :: "string \<Rightarrow> string" where
  "path_dir p =
     path_clean (let parts = split_on (CHR ''/'') p
                 in if length parts = 1 then [] else join ''/'' (butlast parts) @ ''/'')"

text \<open>\<open>filepath.Ext\<close>: what follows the last dot of the last element, with the dot.\<close>

definition path_ext :: "string \<Rightarrow> string" where
  "path_ext p =
     (let e = last (split_on (CHR ''/'') p) in
      case index_where (\<lambda>c. c = CHR ''.'') (rev e) of
        None \<Rightarrow> []
      | Some i \<Rightarrow> drop (length e - 1 - i) e)"

lemma path_base_no_slash: "CHR ''/'' \<in> set (path_base p) \<Longrightarrow> path_base p = ''/''"
  using split_on_parts [OF last_in_set [OF split_on_nonempty], of "CHR ''/''"]
  by (auto simp: path_base_def Let_def split: if_splits)

lemma split_on_app: "split_on c (d @ c # t) = split_on c d @ split_on c t"
proof (induction d)
  case (Cons a d)
  then show ?case by (cases "split_on c d") auto
qed simp

lemma path_base_append:
  assumes "CHR ''/'' \<notin> set f" and "f \<noteq> []"
  shows "path_base (d @ CHR ''/'' # f) = f"
proof -
  have "last f \<noteq> CHR ''/''" using assms last_in_set [OF assms(2)] by metis
  then have "trim_right (\<lambda>c. c = CHR ''/'') (d @ CHR ''/'' # f) = d @ CHR ''/'' # f"
    using assms(2) \<open>last f \<noteq> CHR ''/''\<close> by (intro trim_right_id) simp
  moreover have "last (split_on (CHR ''/'') (d @ CHR ''/'' # f)) = f"
    using assms(1) by (simp add: split_on_app split_on_no_sep)
  ultimately show ?thesis by (simp add: path_base_def)
qed

end
