(* ===== verification/Jvm.thy ===== *)
theory Jvm
  imports Hsperf Containers Go_Path
begin

text \<open>
  \<open>internal/discovery\<close>: the description of a Java process (\<open>jvm.go\<close>), what its command line and its
  performance data say about it (the parsing half of \<open>scanner.go\<close>), its service name (\<open>naming.go\<close>)
  and the operator's filter (\<open>filter.go\<close>).
\<close>

section \<open>The record\<close>

record jvm =
  j_pid :: int
  j_nspid :: int
  j_uid :: int
  j_gid :: int
  j_user :: string
  j_service :: string
  j_service_source :: string
  j_cmdline :: "string list"
  j_exe :: string
  j_java_home :: string
  j_main_class :: string
  j_jar_path :: string
  j_java_version :: string
  j_java_major :: int
  j_vm_name :: string
  j_vm_args :: "string list"
  j_props :: "string \<rightharpoonup> string"
  j_start :: gotime
  j_in_container :: bool
  j_shares_network :: bool
  j_gateway :: string
  j_container_id :: string
  j_unit :: string
  j_pod_uid :: string
  j_container :: "info option"
  j_instrumented :: bool
  j_ours :: bool

definition new_jvm :: "int \<Rightarrow> string list \<Rightarrow> string \<Rightarrow> jvm" where
  "new_jvm p cmdline exe =
     \<lparr>j_pid = p, j_nspid = p, j_uid = 0, j_gid = 0, j_user = [], j_service = [], j_service_source = [],
      j_cmdline = cmdline, j_exe = exe, j_java_home = [], j_main_class = [], j_jar_path = [],
      j_java_version = [], j_java_major = 0, j_vm_name = [], j_vm_args = [], j_props = Map.empty,
      j_start = zero_time, j_in_container = False, j_shares_network = False, j_gateway = [],
      j_container_id = [], j_unit = [], j_pod_uid = [], j_container = None, j_instrumented = False,
      j_ours = False\<rparr>"

text \<open>\<open>time.Time.UnixNano\<close>: nanoseconds in 64 bits.\<close>

definition unix_nano :: "gotime \<Rightarrow> int" where
  "unix_nano t = sint (word_of_int t :: 64 word)"

definition jvm_key :: "jvm \<Rightarrow> string" where
  "jvm_key j = itoa (j_pid j) @ ''-'' @ itoa (unix_nano (j_start j))"

datatype refusal = UnsupportedJava int | AlreadyOurs

text \<open>\<open>Attachable\<close>: the reason not to, if there is one.\<close>

definition attachable :: "jvm \<Rightarrow> refusal option" where
  "attachable j =
     (if 0 < j_java_major j \<and> j_java_major j < 8 then Some (UnsupportedJava (j_java_major j))
      else if j_ours j then Some AlreadyOurs else None)"

definition command_line :: "jvm \<Rightarrow> string" where
  "command_line j = join '' '' (j_cmdline j)"

section \<open>The filter\<close>

record jvm_filter =
  flt_include :: "string list"
  flt_exclude :: "string list"

definition matches_any :: "string \<Rightarrow> string list \<Rightarrow> bool" where
  "matches_any hay ps = list_ex (\<lambda>p. p \<noteq> [] \<and> contains hay (to_lower p)) ps"

definition haystack :: "jvm \<Rightarrow> string" where
  "haystack j = to_lower (join '' '' [j_service j, command_line j, j_unit j, j_container_id j])"

definition filter_accept :: "jvm_filter option \<Rightarrow> jvm \<Rightarrow> bool" where
  "filter_accept fo j =
     (case fo of
        None \<Rightarrow> True
      | Some f \<Rightarrow>
          if flt_include f \<noteq> [] \<and> \<not> matches_any (haystack j) (flt_include f) then False
          else \<not> matches_any (haystack j) (flt_exclude f))"

section \<open>What the command line says\<close>

definition is_java_binary :: "string \<Rightarrow> bool" where
  "is_java_binary p \<longleftrightarrow> p \<noteq> [] \<and> path_base p \<in> {''java'', ''javaw''}"

text \<open>\<open>maps\<close> is the text of \<open>/proc/pid/maps\<close> by lines, if it could be read.\<close>

definition is_jvm :: "string \<Rightarrow> string list \<Rightarrow> string list option \<Rightarrow> bool" where
  "is_jvm exe cmdline maps =
     (case cmdline of
        [] \<Rightarrow> False
      | a # as \<Rightarrow> is_java_binary exe \<or> is_java_binary a \<or>
          (case maps of None \<Rightarrow> False | Some ls \<Rightarrow> list_ex (\<lambda>l. contains l ''libjvm.so'') ls))"

definition derive_java_home :: "string \<Rightarrow> string list \<Rightarrow> string" where
  "derive_java_home exe cmdline =
     (if exe \<noteq> [] \<and> path_base (path_dir exe) = ''bin'' then path_dir (path_dir exe)
      else case filter (\<lambda>a. has_prefix a ''-Djava.home='') cmdline of
             [] \<Rightarrow> []
           | a # as \<Rightarrow> drop 12 a)"

definition parse_prop :: "(string \<rightharpoonup> string) \<Rightarrow> string \<Rightarrow> (string \<rightharpoonup> string)" where
  "parse_prop m a =
     (case cut_prefix a ''-D'' of
        None \<Rightarrow> m
      | Some rest \<Rightarrow>
          (case cut (CHR ''='') rest of (key, v, found) \<Rightarrow>
             if key \<noteq> [] then m(key \<mapsto> (if found then v else [])) else m))"

definition parse_system_props :: "string list \<Rightarrow> jvm \<Rightarrow> jvm" where
  "parse_system_props args j = j\<lparr>j_props := foldl parse_prop (j_props j) args\<rparr>"

definition parse_agent_flags :: "string list \<Rightarrow> jvm \<Rightarrow> jvm" where
  "parse_agent_flags args j =
     (let agents = filter (\<lambda>a. has_prefix a ''-javaagent:'') args
      in j\<lparr>j_instrumented := j_instrumented j \<or> agents \<noteq> [],
           j_ours := j_ours j \<or> list_ex (\<lambda>a. contains a ''apm2go'') agents\<rparr>)"

text \<open>\<open>parseEntryPoint\<close>, from the second argument on.\<close>

fun entry_point :: "string list \<Rightarrow> jvm \<Rightarrow> jvm" where
  "entry_point [] j = j"
| "entry_point (a # as) j =
     (if a = ''-jar'' then (case as of [] \<Rightarrow> j | p # ps \<Rightarrow> j\<lparr>j_jar_path := p\<rparr>)
      else if a \<in> {''-cp'', ''-classpath'', ''--module-path'', ''-p''} then entry_point (drop 1 as) j
      else if has_prefix a ''-'' then entry_point as (j\<lparr>j_vm_args := j_vm_args j @ [a]\<rparr>)
      else j\<lparr>j_main_class := a\<rparr>)"

definition parse_entry_point :: "string list \<Rightarrow> jvm \<Rightarrow> jvm" where
  "parse_entry_point cmdline j = (if length cmdline < 2 then j else entry_point (drop 1 cmdline) j)"

definition apply_perf_data :: "perf_data \<Rightarrow> jvm \<Rightarrow> jvm" where
  "apply_perf_data pd j =
     (let j1 = (if java_version pd \<noteq> []
                then j\<lparr>j_java_version := java_version pd, j_java_major := major_java_version (java_version pd)\<rparr>
                else j);
          j2 = (if vm_name pd \<noteq> [] then j1\<lparr>j_vm_name := vm_name pd\<rparr> else j1);
          j3 = (if vm_args pd \<noteq> []
                then let args = split_fields (vm_args pd)
                     in parse_agent_flags args (parse_system_props args (j2\<lparr>j_vm_args := args\<rparr>))
                else j2)
      in if java_command pd \<noteq> [] \<and> j_main_class j3 = [] \<and> j_jar_path j3 = []
         then (case cut (CHR '' '') (java_command pd) of (head, _, _) \<Rightarrow>
                 if has_suffix head ''.jar'' then j3\<lparr>j_jar_path := head\<rparr>
                 else j3\<lparr>j_main_class := head\<rparr>)
         else j3)"

section \<open>The service name\<close>

definition is_version_segment :: "string \<Rightarrow> bool" where
  "is_version_segment s =
     (let t = trim_prefix s ''v''
      in t \<noteq> [] \<and> is_digit (hd t) \<and> list_all (\<lambda>c. is_digit c \<or> c = CHR ''.'') t)"

definition jar_suffixes :: "string list" where
  "jar_suffixes = [''-SNAPSHOT'', ''-RELEASE'', ''-exec'', ''-boot'', ''-all'', ''-fat'', ''-shaded'']"

definition jar_service_name :: "string \<Rightarrow> string" where
  "jar_service_name p =
     (let base = trim_suffix (trim_suffix (path_base p) ''.jar'') ''.war''
      in if base = [] then []
         else join ''-'' (trim_last is_version_segment
                (split_on (CHR ''-'') (foldl trim_suffix base jar_suffixes))))"

definition main_class_service_name :: "string \<Rightarrow> string" where
  "main_class_service_name c =
     (let l = last (split_on (CHR ''.'') c) in if l = [] then c else l)"

definition container_name_source :: "jvm \<Rightarrow> string" where
  "container_name_source j =
     (case j_container j of
        None \<Rightarrow> ''container-name''
      | Some i \<Rightarrow>
          if app_label i \<noteq> [] then ''kubernetes-label''
          else if compose_service i \<noteq> [] then ''compose-service''
          else if pod_name i \<noteq> [] then ''kubernetes-label'' else ''container-name'')"

definition with_service :: "jvm \<Rightarrow> string \<Rightarrow> string \<Rightarrow> jvm" where
  "with_service j name src = j\<lparr>j_service := name, j_service_source := src\<rparr>"

definition derive_service_name :: "jvm \<Rightarrow> jvm" where
  "derive_service_name j =
     (let otel = get_str (j_props j) ''otel.service.name'';
          spring = get_str (j_props j) ''spring.application.name'';
          cname = info_service_name (j_container j);
          jar = (if j_jar_path j = [] then [] else jar_service_name (j_jar_path j))
      in if otel \<noteq> [] then with_service j otel ''otel.service.name''
         else if spring \<noteq> [] then with_service j spring ''spring.application.name''
         else if cname \<noteq> [] then with_service j cname (container_name_source j)
         else if jar \<noteq> [] then with_service j jar ''jar''
         else if j_unit j \<noteq> [] then with_service j (j_unit j) ''systemd-unit''
         else if j_main_class j \<noteq> []
              then with_service j (main_class_service_name (j_main_class j)) ''main-class''
         else with_service j (''java-'' @ itoa (j_pid j)) ''pid'')"

section \<open>Lemmas\<close>

lemma itoa_nonneg: "0 \<le> i \<Longrightarrow> itoa i = dec_nat (nat i)"
  by (simp add: itoa_def)

lemma cut_itoa: "0 \<le> i \<Longrightarrow> cut (CHR ''-'') (itoa i @ CHR ''-'' # r) = (itoa i, r, True)"
  by (simp add: itoa_nonneg cut_found)

definition int64 :: "int \<Rightarrow> bool" where
  "int64 t \<longleftrightarrow> - (2 ^ 63) \<le> t \<and> t < 2 ^ 63"

lemma unix_nano_id: "int64 t \<Longrightarrow> unix_nano t = t"
  unfolding unix_nano_def int64_def by (simp add: int_word_sint)

section \<open>Properties\<close>

text \<open>(keys tell processes apart) Two processes have the same key exactly when they have the same
  pid and the same start time, so a reused pid is a new process.\<close>

theorem jvm_key_identifies:
  assumes "0 \<le> j_pid j" "0 \<le> j_pid k" "int64 (j_start j)" "int64 (j_start k)"
  shows "jvm_key j = jvm_key k \<longleftrightarrow> j_pid j = j_pid k \<and> j_start j = j_start k"
proof
  assume eq: "jvm_key j = jvm_key k"
  then have "cut (CHR ''-'') (jvm_key j) = cut (CHR ''-'') (jvm_key k)" by simp
  then have "itoa (j_pid j) = itoa (j_pid k)" "itoa (j_start j) = itoa (j_start k)"
    using assms by (simp_all add: jvm_key_def cut_itoa unix_nano_id)
  then show "j_pid j = j_pid k \<and> j_start j = j_start k" by (auto dest: itoa_inj)
qed (simp add: jvm_key_def)

theorem jvm_key_identifies_witness:
  "jvm_key ((new_jvm 7 [] [])\<lparr>j_start := 100\<rparr>) \<noteq> jvm_key ((new_jvm 7 [] [])\<lparr>j_start := 200\<rparr>)"
  using jvm_key_identifies [of "(new_jvm 7 [] [])\<lparr>j_start := 100\<rparr>" "(new_jvm 7 [] [])\<lparr>j_start := 200\<rparr>"]
  by (simp add: new_jvm_def int64_def)

text \<open>(every process gets a name, the deliberate one first) The derived name is never empty; an
  OpenTelemetry name on the command line beats everything, a Spring name everything else, and the
  identity the container runtime knows beats jar, unit and class.\<close>

theorem service_name_precedence:
  "j_service (derive_service_name j) \<noteq> [] \<and>
   (get_str (j_props j) ''otel.service.name'' \<noteq> [] \<longrightarrow>
      j_service (derive_service_name j) = get_str (j_props j) ''otel.service.name'') \<and>
   (get_str (j_props j) ''otel.service.name'' = [] \<and> get_str (j_props j) ''spring.application.name'' \<noteq> [] \<longrightarrow>
      j_service (derive_service_name j) = get_str (j_props j) ''spring.application.name'') \<and>
   (get_str (j_props j) ''otel.service.name'' = [] \<and> get_str (j_props j) ''spring.application.name'' = [] \<and>
      info_service_name (j_container j) \<noteq> [] \<longrightarrow>
      j_service (derive_service_name j) = info_service_name (j_container j)) \<and>
   j_pid (derive_service_name j) = j_pid j \<and> j_start (derive_service_name j) = j_start j"
  by (auto simp: derive_service_name_def with_service_def main_class_service_name_def Let_def)

theorem service_name_precedence_witness:
  "j_service (derive_service_name (parse_system_props [''java'', ''-Dotel.service.name=shop''] (new_jvm 7 [] []))) = ''shop''"
proof -
  let ?j = "parse_system_props [''java'', ''-Dotel.service.name=shop''] (new_jvm 7 [] [])"
  have "get_str (j_props ?j) ''otel.service.name'' = ''shop''" by code_simp
  with service_name_precedence [of ?j] show ?thesis by simp
qed

text \<open>(releases of an artifact share its name) A jar whose name ends in any number of version
  segments is named after what stands before them, wherever it lies.\<close>

theorem jar_versions_dropped:
  assumes "base \<noteq> []" and "\<forall>s \<in> set (base @ vers). CHR ''-'' \<notin> set s \<and> CHR ''/'' \<notin> set s"
    and "\<forall>s \<in> set vers. is_version_segment s" and "\<not> is_version_segment (last base)"
    and "join ''-'' (base @ vers) \<noteq> []"
    and "\<forall>x \<in> set (''.war'' # jar_suffixes). \<not> has_suffix (join ''-'' (base @ vers)) x"
  shows "jar_service_name (dir @ ''/'' @ join ''-'' (base @ vers) @ ''.jar'') = join ''-'' base"
proof -
  let ?n = "join ''-'' (base @ vers)"
  have "CHR ''/'' \<notin> set ?n" using set_join [of "''-''" "base @ vers"] assms(2) by fastforce
  then have "path_base (dir @ CHR ''/'' # (?n @ ''.jar'')) = ?n @ ''.jar''"
    by (intro path_base_append) auto
  moreover have "trim_suffix (?n @ ''.jar'') ''.jar'' = ?n" by (simp add: trim_suffix_def)
  moreover have "foldl trim_suffix (trim_suffix ?n ''.war'') jar_suffixes = ?n"
    using assms(6) by (simp add: jar_suffixes_def trim_suffix_def)
  moreover have "trim_suffix ?n ''.war'' = ?n" using assms(6) by (simp add: trim_suffix_def)
  moreover have "split_on (CHR ''-'') ?n = base @ vers"
    using assms(1,2) by (intro split_on_join) auto
  moreover have "trim_last is_version_segment (base @ vers) = base"
    using assms(1,3,4) by (simp add: trim_last_append trim_last_stop)
  ultimately show ?thesis using assms(5) by (simp add: jar_service_name_def)
qed

theorem jar_versions_dropped_witness:
  "jar_service_name (''/opt'' @ ''/'' @ join ''-'' ([''orders'', ''service''] @ [''1.4.2'']) @ ''.jar'') = ''orders-service''"
proof -
  have "\<not> list_ex (\<lambda>x. has_suffix (join ''-'' ([''orders'', ''service''] @ [''1.4.2''])) x) (''.war'' # jar_suffixes)"
    "is_version_segment ''1.4.2''" "\<not> is_version_segment ''service''" by code_simp+
  then show ?thesis
    using jar_versions_dropped [of "[''orders'', ''service'']" "[''1.4.2'']" "''/opt''"]
    by (simp add: list_ex_iff)
qed

text \<open>(suffixes are tried in one order only) The Maven suffixes are cut in a fixed order, each
  once: an executable snapshot keeps its version in the service name.\<close>

theorem exec_snapshot_keeps_version:
  "jar_service_name ''/opt/orders-1.4.2-SNAPSHOT-exec.jar'' = ''orders-1.4.2-SNAPSHOT''"
  by code_simp

text \<open>(the long class path option is not skipped) Of the options that take a separate value only
  four are known; \<open>--class-path\<close>, which the launcher accepts as well, is taken for a flag of its
  own and the class path for the main class.\<close>

theorem class_path_taken_for_main:
  "j_main_class (parse_entry_point [''java'', ''--class-path'', ''lib.jar'', ''com.acme.Main''] (new_jvm 7 [] []))
   = ''lib.jar''"
  by code_simp

end
