(* ===== verification/Inventory.thy ===== *)
theory Inventory
  imports Jvm Config "HOL-Library.AList" "HOL-Library.Product_Lexorder"
begin

text \<open>
  \<open>internal/inventory\<close>: the life of every tracked JVM (\<open>state.go\<close>), the manager that drives it
  (\<open>manager.go\<close>) and the event bus (\<open>events.go\<close>).  The manager is a state machine whose steps are the
  critical sections of the source: one sighting, one reaping, the start and the end of one attach,
  and the operator's requests.  A goroutine that has been started but has not yet run waits in
  \<open>m_spawned\<close>; one that is inside the injector is in \<open>m_inflight\<close>.  The outcome of an injection and
  the clock are arguments.
\<close>

section \<open>Entries\<close>

datatype jstate = StateDiscovered | StatePending | StateAttaching | StateAttached | StateFailed
  | StateSkipped | StateExited

datatype reason = NoReason | ExcludedByFilter | StartedWithAgent | Refused refusal
  | Waiting duration | AutoDisabled | AttachError string

record tracked =
  e_jvm :: jvm
  e_state :: jstate
  e_reason :: reason
  e_warnings :: "string list"
  e_first_seen :: gotime
  e_last_seen :: gotime
  e_attempts :: int
  e_next :: gotime
  e_attached_at :: gotime
  e_exited_at :: gotime
  e_endpoint :: string
  e_manual :: bool

definition new_entry :: "jvm \<Rightarrow> gotime \<Rightarrow> tracked" where
  "new_entry j now =
     \<lparr>e_jvm = j, e_state = StateDiscovered, e_reason = NoReason, e_warnings = [], e_first_seen = now,
      e_last_seen = zero_time, e_attempts = 0, e_next = zero_time, e_attached_at = zero_time,
      e_exited_at = zero_time, e_endpoint = [], e_manual = False\<rparr>"

text \<open>What the injector reports on success.\<close>

record inject_result =
  ir_already :: bool
  ir_endpoint :: string
  ir_warnings :: "string list"

definition already_note :: string where
  "already_note = ''this JVM was already instrumented by apm2go, so nothing was injected''"

definition apply_result :: "gotime \<Rightarrow> inject_result \<Rightarrow> tracked \<Rightarrow> tracked" where
  "apply_result now res e =
     e\<lparr>e_state := StateAttached, e_attached_at := now, e_reason := NoReason, e_next := zero_time,
       e_endpoint := ir_endpoint res,
       e_warnings := filter (\<lambda>w. w \<noteq> []) (ir_warnings res) @ (if ir_already res then [already_note] else [])\<rparr>"

section \<open>Classification\<close>

definition other_agent_note :: string where
  "other_agent_note =
     ''this JVM already runs another Java agent; loading a second one can cause conflicts''"

text \<open>\<open>Duration.Round\<close> of a positive duration.\<close>

definition round_to :: "duration \<Rightarrow> duration \<Rightarrow> duration" where
  "round_to unt d = (let r = d mod unt in if r + r < unt then d - r else d + unt - r)"

definition the_filter :: "config \<Rightarrow> jvm_filter option" where
  "the_filter c =
     Some \<lparr>flt_include = includes_any (discovery_cfg c), flt_exclude = excludes_any (discovery_cfg c)\<rparr>"

definition classify :: "config \<Rightarrow> gotime \<Rightarrow> tracked \<Rightarrow> tracked" where
  "classify c now e =
     (let j = e_jvm e
      in if \<not> filter_accept (the_filter c) j
         then e\<lparr>e_state := StateSkipped, e_reason := ExcludedByFilter\<rparr>
         else case attachable j of
                Some r \<Rightarrow>
                  if j_ours j
                  then e\<lparr>e_state := StateAttached, e_reason := StartedWithAgent, e_attached_at := j_start j\<rparr>
                  else e\<lparr>e_state := StateSkipped, e_reason := Refused r\<rparr>
              | None \<Rightarrow>
                  (let e1 = (if j_instrumented j then e\<lparr>e_warnings := e_warnings e @ [other_agent_note]\<rparr> else e);
                       age = now - j_start j
                   in if is_zero_time (j_start j) \<or> min_uptime (discovery_cfg c) \<le> age
                      then e1\<lparr>e_state := StateDiscovered, e_reason := NoReason\<rparr>
                      else e1\<lparr>e_state := StatePending,
                              e_reason := Waiting (round_to second (min_uptime (discovery_cfg c) - age))\<rparr>))"

definition should_attach :: "config \<Rightarrow> tracked \<Rightarrow> gotime \<Rightarrow> bool" where
  "should_attach c e now \<longleftrightarrow>
     auto_attach (attach_cfg c) \<and> \<not> e_manual e \<and>
     (case e_state e of
        StateDiscovered \<Rightarrow> True
      | StateFailed \<Rightarrow>
          e_attempts e < max_retries (attach_cfg c) \<and> \<not> is_zero_time (e_next e) \<and> e_next e < now
      | _ \<Rightarrow> False)"

section \<open>The manager\<close>

datatype event_type = EventDiscovered | EventStateChanged | EventAttached | EventAttachFailed | EventExited

text \<open>What the manager does to the outside, oldest first: asking the receiver to listen at a gateway,
  calling the injector for a process (with the gateway of that process), publishing an event.\<close>

datatype effect = Listen string | Inject string string | Publish event_type string

record manager =
  m_cfg :: config
  m_gateways :: bool
  m_entries :: "(string \<times> tracked) list"
  m_spawned :: "string list"
  m_inflight :: "(string \<times> int) list"
  m_log :: "effect list"

definition new_manager :: "config \<Rightarrow> bool \<Rightarrow> manager" where
  "new_manager c g =
     \<lparr>m_cfg = c, m_gateways = g, m_entries = [], m_spawned = [], m_inflight = [], m_log = []\<rparr>"

definition entry_of :: "manager \<Rightarrow> string \<Rightarrow> tracked option" where
  "entry_of m k = map_of (m_entries m) k"

definition put_entry :: "string \<Rightarrow> tracked \<Rightarrow> manager \<Rightarrow> manager" where
  "put_entry k e m = m\<lparr>m_entries := AList.update k e (m_entries m)\<rparr>"

definition emit :: "effect list \<Rightarrow> manager \<Rightarrow> manager" where
  "emit xs m = m\<lparr>m_log := m_log m @ xs\<rparr>"

definition observe :: "manager \<Rightarrow> jvm \<Rightarrow> gotime \<Rightarrow> manager \<times> tracked" where
  "observe m j now =
     (let k = jvm_key j
      in case entry_of m k of
           None \<Rightarrow>
             (let e = (classify (m_cfg m) now (new_entry j now))\<lparr>e_last_seen := now\<rparr>
              in (emit [Publish EventDiscovered k] (put_entry k e m), e))
         | Some old \<Rightarrow>
             (let e0 = old\<lparr>e_jvm := j\<rparr>;
                  e = (if e_state e0 = StatePending then classify (m_cfg m) now e0 else e0)\<lparr>e_last_seen := now\<rparr>
              in (put_entry k e m, e)))"

text \<open>The body of the loop in \<open>reconcile\<close>.\<close>

definition sight :: "gotime \<Rightarrow> manager \<Rightarrow> jvm \<Rightarrow> manager" where
  "sight now m j =
     (case observe m j now of (m1, e) \<Rightarrow>
        let m2 = (if m_gateways m1 \<and> j_gateway j \<noteq> [] then emit [Listen (j_gateway j)] m1 else m1)
        in if should_attach (m_cfg m2) e now then m2\<lparr>m_spawned := m_spawned m2 @ [jvm_key j]\<rparr> else m2)"

definition exited_retention :: duration where "exited_retention = 10 * minute"

definition reap_entry :: "string list \<Rightarrow> gotime \<Rightarrow> string \<times> tracked \<Rightarrow> (string \<times> tracked) option" where
  "reap_entry seen now ke =
     (case ke of (k, e) \<Rightarrow>
        if k \<in> set seen then Some (k, e)
        else if e_state e \<noteq> StateExited
             then Some (k, e\<lparr>e_state := StateExited, e_exited_at := now, e_next := zero_time\<rparr>)
        else if exited_retention < now - e_exited_at e then None else Some (k, e))"

definition reap_missing :: "manager \<Rightarrow> string list \<Rightarrow> gotime \<Rightarrow> manager" where
  "reap_missing m seen now =
     emit (map (\<lambda>(k, e). Publish EventExited k)
             (filter (\<lambda>(k, e). k \<notin> set seen \<and> e_state e \<noteq> StateExited) (m_entries m)))
       (m\<lparr>m_entries := List.map_filter (reap_entry seen now) (m_entries m)\<rparr>)"

definition reconcile :: "manager \<Rightarrow> jvm list option \<Rightarrow> gotime \<Rightarrow> manager" where
  "reconcile m found now =
     (case found of
        None \<Rightarrow> m
      | Some js \<Rightarrow> reap_missing (foldl (sight now) m js) (map jvm_key js) now)"

subsection \<open>Attaching\<close>

datatype attach_refusal = AlreadyInProgress | NotTracked

text \<open>\<open>attach\<close> up to the call of the injector.\<close>

definition attach_begin :: "manager \<Rightarrow> string \<Rightarrow> manager \<times> attach_refusal option" where
  "attach_begin m k =
     (if k \<in> fst ` set (m_inflight m) then (m, Some AlreadyInProgress)
      else case entry_of m k of
             None \<Rightarrow> (m, Some NotTracked)
           | Some e \<Rightarrow>
               (let e' = e\<lparr>e_state := StateAttaching, e_attempts := e_attempts e + 1\<rparr>
                in (emit [Publish EventStateChanged k, Inject k (j_gateway (e_jvm e'))]
                      ((put_entry k e' m)\<lparr>m_inflight := (k, e_attempts e') # m_inflight m\<rparr>), None)))"

text \<open>\<open>attach\<close> from the return of the injector on; \<open>attempt\<close> is the number it remembers.\<close>

definition attach_end :: "manager \<Rightarrow> string \<Rightarrow> int \<Rightarrow> string + inject_result \<Rightarrow> gotime \<Rightarrow> manager" where
  "attach_end m k attempt res now =
     (let m0 = m\<lparr>m_inflight := filter (\<lambda>(k', a). k' \<noteq> k) (m_inflight m)\<rparr>
      in case entry_of m k of
           None \<Rightarrow> m0
         | Some e \<Rightarrow>
             (case res of
                Inl err \<Rightarrow>
                  emit [Publish EventAttachFailed k]
                    (put_entry k
                      (e\<lparr>e_state := StateFailed, e_reason := AttachError err,
                         e_next := (if attempt < max_retries (attach_cfg (m_cfg m))
                                    then now + retry_backoff (attach_cfg (m_cfg m)) else zero_time)\<rparr>) m0)
              | Inr r \<Rightarrow> emit [Publish EventAttached k] (put_entry k (apply_result now r e) m0)))"

subsection \<open>The operator\<close>

definition key_for_pid :: "manager \<Rightarrow> int \<Rightarrow> string option" where
  "key_for_pid m p =
     map_option fst (find (\<lambda>(k, e). j_pid (e_jvm e) = p \<and> e_state e \<noteq> StateExited) (m_entries m))"

text \<open>\<open>Attach\<close> up to its call of \<open>attach\<close>.\<close>

definition manual_attach :: "manager \<Rightarrow> int \<Rightarrow> manager option" where
  "manual_attach m p =
     (case key_for_pid m p of
        None \<Rightarrow> None
      | Some k \<Rightarrow>
          (case entry_of m k of
             None \<Rightarrow> None
           | Some e \<Rightarrow>
               Some ((put_entry k (e\<lparr>e_attempts := 0, e_manual := False\<rparr>) m)\<lparr>m_spawned := m_spawned m @ [k]\<rparr>)))"

definition set_manual_only :: "manager \<Rightarrow> int \<Rightarrow> bool \<Rightarrow> manager option" where
  "set_manual_only m p manual =
     (case key_for_pid m p of
        None \<Rightarrow> None
      | Some k \<Rightarrow>
          (case entry_of m k of
             None \<Rightarrow> None
           | Some e0 \<Rightarrow>
               (let e = e0\<lparr>e_manual := manual\<rparr>;
                    e1 = (if manual \<and> e_state e = StateDiscovered
                          then e\<lparr>e_state := StateSkipped, e_reason := AutoDisabled\<rparr> else e);
                    e2 = (if \<not> manual \<and> e_state e1 = StateSkipped \<and> e_reason e1 = AutoDisabled
                          then e1\<lparr>e_state := StateDiscovered, e_reason := NoReason\<rparr> else e1)
                in Some (emit [Publish EventStateChanged k] (put_entry k e2 m)))))"

definition get_entry :: "manager \<Rightarrow> int \<Rightarrow> tracked option" where
  "get_entry m p = (case key_for_pid m p of None \<Rightarrow> None | Some k \<Rightarrow> entry_of m k)"

fun state_priority :: "jstate \<Rightarrow> nat" where
  "state_priority StateFailed = 0"
| "state_priority StateAttaching = 1"
| "state_priority StateDiscovered = 2"
| "state_priority StatePending = 2"
| "state_priority StateAttached = 3"
| "state_priority StateSkipped = 4"
| "state_priority StateExited = 5"

text \<open>The comparison \<open>List\<close> sorts by.\<close>

definition list_less :: "tracked \<Rightarrow> tracked \<Rightarrow> bool" where
  "list_less a b =
     (if e_state a \<noteq> e_state b then state_priority (e_state a) < state_priority (e_state b)
      else j_start (e_jvm b) < j_start (e_jvm a))"

section \<open>The state machine\<close>

datatype action = Sight jvm gotime | Reap "string list" gotime | Begin string
  | Finish string "string + inject_result" gotime | Attach int | SetManual int bool

inductive manager_step :: "manager \<Rightarrow> action \<Rightarrow> manager \<Rightarrow> bool" where
  sight: "manager_step m (Sight j now) (sight now m j)"
| reap: "manager_step m (Reap seen now) (reap_missing m seen now)"
| attach_start: "k \<in> set (m_spawned m) \<Longrightarrow>
    manager_step m (Begin k) (fst (attach_begin (m\<lparr>m_spawned := remove1 k (m_spawned m)\<rparr>) k))"
| attach_done: "(k, a) \<in> set (m_inflight m) \<Longrightarrow> manager_step m (Finish k res now) (attach_end m k a res now)"
| operator_attach: "manual_attach m p = Some m' \<Longrightarrow> manager_step m (Attach p) m'"
| operator_manual: "set_manual_only m p b = Some m' \<Longrightarrow> manager_step m (SetManual p b) m'"

inductive_cases step_beginE: "manager_step m (Begin k) m'"
inductive_cases step_reapE: "manager_step m (Reap seen now) m'"
inductive_simps step_sight_iff: "manager_step m (Sight j now) m'"

inductive manager_reachable :: "config \<Rightarrow> bool \<Rightarrow> manager \<Rightarrow> bool" for c g where
  start: "manager_reachable c g (new_manager c g)"
| step: "manager_reachable c g m \<Longrightarrow> manager_step m a m' \<Longrightarrow> manager_reachable c g m'"

lemma reconcile_reachable:
  "manager_reachable c g m \<Longrightarrow> manager_reachable c g (reconcile m found now)"
proof -
  have "manager_reachable c g (foldl (sight now) m js)" if "manager_reachable c g m" for m js
    using that by (induction js arbitrary: m) (auto intro: manager_reachable.step manager_step.sight)
  then show "manager_reachable c g m \<Longrightarrow> manager_reachable c g (reconcile m found now)"
    by (auto simp: reconcile_def split: option.split intro: manager_reachable.step manager_step.reap)
qed

section \<open>Invariants\<close>

definition busy :: "manager \<Rightarrow> string set" where
  "busy m = fst ` set (m_inflight m)"

text \<open>Keys are the keys of the entries' processes, and unique; at most one attach per key is in
  flight; an entry is in \<open>StateAttaching\<close> only while one is.\<close>

definition manager_ok :: "manager \<Rightarrow> bool" where
  "manager_ok m \<longleftrightarrow>
     distinct (map fst (m_entries m)) \<and> distinct (map fst (m_inflight m)) \<and>
     (\<forall>k e. entry_of m k = Some e \<longrightarrow> jvm_key (e_jvm e) = k \<and> 0 \<le> e_attempts e \<and>
        (e_state e = StateAttaching \<longrightarrow> k \<in> busy m))"

lemma put_entry_frame [simp]:
  "m_inflight (put_entry k e m) = m_inflight m" "m_cfg (put_entry k e m) = m_cfg m"
  "m_gateways (put_entry k e m) = m_gateways m" "m_spawned (put_entry k e m) = m_spawned m"
  "m_log (put_entry k e m) = m_log m"
  "entry_of (put_entry k e m) = (entry_of m)(k \<mapsto> e)"
  "busy (put_entry k e m) = busy m"
  by (simp_all add: put_entry_def entry_of_def fun_eq_iff update_conv' busy_def)

lemma emit_frame [simp]:
  "m_inflight (emit xs m) = m_inflight m" "m_cfg (emit xs m) = m_cfg m"
  "m_gateways (emit xs m) = m_gateways m" "m_spawned (emit xs m) = m_spawned m"
  "m_entries (emit xs m) = m_entries m" "entry_of (emit xs m) = entry_of m"
  "m_log (emit xs m) = m_log m @ xs" "busy (emit xs m) = busy m"
  by (simp_all add: emit_def entry_of_def fun_eq_iff busy_def)

lemma spawned_frame [simp]:
  "entry_of (m\<lparr>m_spawned := x\<rparr>) = entry_of m" "busy (m\<lparr>m_spawned := x\<rparr>) = busy m"
  "entry_of (m\<lparr>m_inflight := y\<rparr>) = entry_of m" "busy (m\<lparr>m_inflight := y\<rparr>) = fst ` set y"
  by (simp_all add: entry_of_def fun_eq_iff busy_def)

lemma put_entry_distinct:
  "distinct (map fst (m_entries m)) \<Longrightarrow> distinct (map fst (m_entries (put_entry k e m)))"
  by (simp add: put_entry_def distinct_update)

lemma classify_frame [simp]:
  "e_jvm (classify c now e) = e_jvm e" "e_attempts (classify c now e) = e_attempts e"
  "e_manual (classify c now e) = e_manual e" "e_state (classify c now e) \<noteq> StateAttaching"
  "e_state (classify c now e) \<noteq> StateExited" "e_state (classify c now e) \<noteq> StateFailed"
  by (simp_all add: classify_def Let_def split: option.splits)

lemma new_entry_frame [simp]:
  "e_jvm (new_entry j now) = j" "e_attempts (new_entry j now) = 0" "e_manual (new_entry j now) = False"
  by (simp_all add: new_entry_def)

lemma observe_spec:
  assumes "observe m j now = (m1, e)"
  shows "\<exists>xs. m1 = emit xs (put_entry (jvm_key j) e m) \<and> (\<forall>g. Listen g \<notin> set xs) \<and> (\<forall>k g. Inject k g \<notin> set xs)"
  using assms
  by (auto simp: observe_def Let_def emit_def split: option.splits intro: exI [of _ "[]"])

lemma observe_entry:
  assumes "observe m j now = (m1, e)"
  shows "e_jvm e = j \<and> e_last_seen e = now \<and>
         (case entry_of m (jvm_key j) of
            None \<Rightarrow> e_attempts e = 0 \<and> e_state e \<noteq> StateAttaching \<and>
                    e = (classify (m_cfg m) now (new_entry j now))\<lparr>e_last_seen := now\<rparr>
          | Some old \<Rightarrow> e_attempts e = e_attempts old \<and> e_manual e = e_manual old \<and>
              (e_state e = e_state old \<or> e_state old = StatePending \<and> e_state e \<noteq> StateAttaching \<and>
                 e_state e \<noteq> StateFailed))"
proof (cases "entry_of m (jvm_key j)")
  case None
  with assms show ?thesis by (auto simp: observe_def Let_def)
next
  case (Some old)
  with assms show ?thesis by (cases "e_state old = StatePending") (auto simp: observe_def Let_def)
qed

lemma sight_ok: "manager_ok m \<Longrightarrow> manager_ok (sight now m j)"
proof -
  assume ok: "manager_ok m"
  obtain m1 e where o: "observe m j now = (m1, e)" by force
  from observe_spec [OF o] obtain xs where m1: "m1 = emit xs (put_entry (jvm_key j) e m)" by blast
  from observe_entry [OF o] ok have e: "e_jvm e = j" "0 \<le> e_attempts e"
    "e_state e = StateAttaching \<Longrightarrow> jvm_key j \<in> busy m"
    by (auto simp: manager_ok_def split: option.splits)
  have "manager_ok m1"
    using ok e by (auto simp: m1 manager_ok_def put_entry_distinct)
  then show ?thesis
    by (simp add: sight_def o Let_def manager_ok_def)
qed

lemma reap_entry_key: "reap_entry seen now (k', e) = Some (k'', e') \<Longrightarrow> k'' = k'"
  by (auto simp: reap_entry_def split: if_splits)

lemma map_of_reap:
  assumes "distinct (map fst es)"
  shows "map_of (List.map_filter (reap_entry seen now) es) k =
         (case map_of es k of None \<Rightarrow> None | Some e \<Rightarrow> map_option snd (reap_entry seen now (k, e)))"
proof -
  note key = reap_entry_key
  have none: "k \<notin> fst ` set xs \<Longrightarrow> map_of (List.map_filter (reap_entry seen now) xs) k = None" for xs
    by (induction xs) (auto simp: List.map_filter_simps split: option.splits dest: key)
  show ?thesis using assms
  proof (induction es)
    case (Cons x es)
    obtain k' e where x: "x = (k', e)" by force
    show ?case
    proof (cases "reap_entry seen now (k', e)")
      case None
      with Cons none [of es] show ?thesis
        by (auto simp: x List.map_filter_simps map_of_eq_None_iff)
    next
      case (Some y)
      obtain e' where "y = (k', e')" using key Some by (cases y) auto
      with Cons Some show ?thesis by (auto simp: x List.map_filter_simps)
    qed
  qed (simp add: List.map_filter_simps)
qed

lemma distinct_reap:
  "distinct (map fst es) \<Longrightarrow> distinct (map fst (List.map_filter (reap_entry seen now) es))"
proof (induction es)
  case (Cons x es)
  obtain k e where x: "x = (k, e)" by force
  have "fst ` set (List.map_filter (reap_entry seen now) es) \<subseteq> fst ` set es"
  proof
    fix k assume "k \<in> fst ` set (List.map_filter (reap_entry seen now) es)"
    then obtain k' e' e'' where "(k', e') \<in> set es" "reap_entry seen now (k', e') = Some (k, e'')"
      by (auto simp: List.map_filter_def)
    with reap_entry_key show "k \<in> fst ` set es" by force
  qed
  with Cons show ?case
  proof (cases "reap_entry seen now (k, e)")
    case (Some y)
    then have "fst y = k" using reap_entry_key [of seen now k e "fst y" "snd y"] by simp
    with Some Cons \<open>_ \<subseteq> _\<close> show ?thesis by (auto simp: x List.map_filter_simps)
  qed (use Cons in \<open>auto simp: x List.map_filter_simps\<close>)
qed (simp add: List.map_filter_simps)

lemma reap_entry_of:
  "distinct (map fst (m_entries m)) \<Longrightarrow>
   entry_of (reap_missing m seen now) k =
     (case entry_of m k of None \<Rightarrow> None | Some e \<Rightarrow> map_option snd (reap_entry seen now (k, e)))"
  by (simp add: reap_missing_def entry_of_def map_of_reap)

lemma reap_ok: "manager_ok m \<Longrightarrow> manager_ok (reap_missing m seen now)"
proof -
  assume ok: "manager_ok m"
  then have d: "distinct (map fst (m_entries m))" by (simp add: manager_ok_def)
  have "busy (reap_missing m seen now) = busy m" "m_inflight (reap_missing m seen now) = m_inflight m"
    "distinct (map fst (m_entries (reap_missing m seen now)))"
    using d by (simp_all add: reap_missing_def busy_def distinct_reap)
  with ok show ?thesis
    by (auto simp: manager_ok_def reap_entry_of [OF d] reap_entry_def split: option.splits if_splits)
qed

lemma manager_ok_emit: "manager_ok (emit xs m) \<longleftrightarrow> manager_ok m"
  by (simp add: manager_ok_def)

lemma attach_begin_ok: "manager_ok m \<Longrightarrow> manager_ok (fst (attach_begin m k))"
proof -
  assume ok: "manager_ok m"
  show ?thesis
  proof (cases "k \<in> busy m \<or> entry_of m k = None")
    case False
    then obtain e where e: "entry_of m k = Some e" "k \<notin> fst ` set (m_inflight m)" by (auto simp: busy_def)
    with ok show ?thesis
      by (auto simp: attach_begin_def Let_def manager_ok_def put_entry_distinct busy_def)
  qed (use ok in \<open>auto simp: attach_begin_def busy_def\<close>)
qed

lemma busy_after_end:
  "busy (m\<lparr>m_inflight := filter (\<lambda>(k', a). k' \<noteq> k) (m_inflight m)\<rparr>) = busy m - {k}"
  by (force simp: busy_def)

text \<open>Replacing an entry by one of the same process that is not newly attaching.\<close>

lemma put_ok:
  assumes "manager_ok m" "entry_of m k = Some e" "e_jvm e' = e_jvm e" "0 \<le> e_attempts e'"
    and "e_state e' = StateAttaching \<Longrightarrow> e_state e = StateAttaching"
  shows "manager_ok (put_entry k e' m)"
  using assms by (auto simp: manager_ok_def put_entry_distinct)

lemma attach_end_ok: "manager_ok m \<Longrightarrow> manager_ok (attach_end m k a res now)"
proof -
  assume ok: "manager_ok m"
  have d: "distinct (map fst (filter (\<lambda>(k', a). k' \<noteq> k) (m_inflight m)))"
    using ok by (auto simp: manager_ok_def distinct_map inj_on_def)
  let ?m0 = "m\<lparr>m_inflight := filter (\<lambda>(k', a). k' \<noteq> k) (m_inflight m)\<rparr>"
  have put: "manager_ok (put_entry k e ?m0)"
    if "jvm_key (e_jvm e) = k" "0 \<le> e_attempts e" "e_state e \<noteq> StateAttaching" for e
    using ok d that put_entry_distinct [of ?m0]
    by (auto simp: manager_ok_def busy_after_end simp del: spawned_frame(4))
  show ?thesis
  proof (cases "entry_of m k")
    case None
    with ok d show ?thesis
      by (auto simp: attach_end_def manager_ok_def busy_after_end simp del: spawned_frame(4))
  next
    case (Some e)
    then have "jvm_key (e_jvm e) = k" "0 \<le> e_attempts e" using ok by (auto simp: manager_ok_def)
    with Some put show ?thesis
      by (cases res) (simp_all add: attach_end_def Let_def manager_ok_emit apply_result_def)
  qed
qed

lemma key_for_pid_entry:
  "key_for_pid m p = Some k \<Longrightarrow> distinct (map fst (m_entries m)) \<Longrightarrow>
     \<exists>e. entry_of m k = Some e \<and> j_pid (e_jvm e) = p \<and> e_state e \<noteq> StateExited"
  by (auto simp: key_for_pid_def find_Some_iff entry_of_def in_set_conv_nth
      intro!: map_of_is_SomeI) (metis nth_mem)

lemma manager_ok_spawned: "manager_ok (m\<lparr>m_spawned := x\<rparr>) \<longleftrightarrow> manager_ok m"
  by (simp add: manager_ok_def)

lemma manual_attach_ok: "manager_ok m \<Longrightarrow> manual_attach m p = Some m' \<Longrightarrow> manager_ok m'"
proof -
  assume ok: "manager_ok m" and "manual_attach m p = Some m'"
  then obtain k e where e: "entry_of m k = Some e"
    and m': "m' = (put_entry k (e\<lparr>e_attempts := 0, e_manual := False\<rparr>) m)\<lparr>m_spawned := m_spawned m @ [k]\<rparr>"
    by (auto simp: manual_attach_def split: option.splits)
  show ?thesis unfolding m' manager_ok_spawned by (rule put_ok [OF ok e]) simp_all
qed

text \<open>What \<open>SetManualOnly\<close> does to the entry itself.\<close>

definition set_manual :: "bool \<Rightarrow> tracked \<Rightarrow> tracked" where
  "set_manual manual e =
     (if manual \<and> e_state e = StateDiscovered
      then e\<lparr>e_manual := True, e_state := StateSkipped, e_reason := AutoDisabled\<rparr>
      else if \<not> manual \<and> e_state e = StateSkipped \<and> e_reason e = AutoDisabled
      then e\<lparr>e_manual := False, e_state := StateDiscovered, e_reason := NoReason\<rparr>
      else e\<lparr>e_manual := manual\<rparr>)"

lemma set_manual_only_eq:
  "set_manual_only m p b =
     (case key_for_pid m p of
        None \<Rightarrow> None
      | Some k \<Rightarrow> (case entry_of m k of
                    None \<Rightarrow> None
                  | Some e \<Rightarrow> Some (emit [Publish EventStateChanged k] (put_entry k (set_manual b e) m))))"
  by (simp add: set_manual_only_def set_manual_def Let_def split: option.split)

lemma set_manual_only_ok: "manager_ok m \<Longrightarrow> set_manual_only m p b = Some m' \<Longrightarrow> manager_ok m'"
proof -
  assume ok: "manager_ok m" and "set_manual_only m p b = Some m'"
  then obtain k e where e: "entry_of m k = Some e"
    and m': "m' = emit [Publish EventStateChanged k] (put_entry k (set_manual b e) m)"
    by (auto simp: set_manual_only_eq split: option.splits)
  have "0 \<le> e_attempts e" using ok e by (auto simp: manager_ok_def)
  then show ?thesis unfolding m' manager_ok_emit
    by (intro put_ok [OF ok e]) (auto simp: set_manual_def split: if_splits)
qed

lemma manager_step_ok: "manager_step m a m' \<Longrightarrow> manager_ok m \<Longrightarrow> manager_ok m'"
proof (induction rule: manager_step.induct)
  case (attach_start k m)
  then have "manager_ok (m\<lparr>m_spawned := remove1 k (m_spawned m)\<rparr>)" by (simp add: manager_ok_def)
  then show ?case by (rule attach_begin_ok)
qed (auto intro: sight_ok reap_ok attach_end_ok manual_attach_ok set_manual_only_ok)

lemma reachable_ok: "manager_reachable c g m \<Longrightarrow> manager_ok m"
proof (induction rule: manager_reachable.induct)
  case start
  then show ?case by (simp add: manager_ok_def new_manager_def entry_of_def)
qed (auto intro: manager_step_ok)

text \<open>What the log of a reachable manager looks like: every gateway of a tracked process was asked for,
  and no process is injected before its gateway was.\<close>

fun listens_first :: "string set \<Rightarrow> effect list \<Rightarrow> bool" where
  "listens_first gs [] = True"
| "listens_first gs (Listen g # xs) = listens_first (insert g gs) xs"
| "listens_first gs (Inject k g # xs) = ((g = [] \<or> g \<in> gs) \<and> listens_first gs xs)"
| "listens_first gs (Publish t k # xs) = listens_first gs xs"

definition listened :: "effect list \<Rightarrow> string set" where
  "listened xs = {g. Listen g \<in> set xs}"

lemma listened_append [simp]: "listened (xs @ ys) = listened xs \<union> listened ys"
  by (auto simp: listened_def)

lemma listens_first_append:
  "listens_first gs (xs @ ys) \<longleftrightarrow> listens_first gs xs \<and> listens_first (gs \<union> listened xs) ys"
proof (induction gs xs rule: listens_first.induct)
  case (2 gs g xs)
  have "insert g gs \<union> listened xs = gs \<union> listened (Listen g # xs)" by (auto simp: listened_def)
  with 2 show ?case by simp
qed (simp_all add: listened_def)

definition log_ok :: "manager \<Rightarrow> bool" where
  "log_ok m \<longleftrightarrow> m_gateways m \<and> listens_first {} (m_log m) \<and>
     (\<forall>k e. entry_of m k = Some e \<longrightarrow> j_gateway (e_jvm e) = [] \<or> j_gateway (e_jvm e) \<in> listened (m_log m))"

lemma listened_publish [simp]: "listened [Publish t k] = {}" "listened [] = {}"
  "listened (map (\<lambda>(k, e). Publish t k) xs) = {}" "listened [Listen g] = {g}"
  "listened [Publish t k, Inject k g] = {}"
  by (auto simp: listened_def)

lemma listens_first_publish [simp]: "listens_first gs (map (\<lambda>(k, e). Publish t k) xs)"
  by (induction xs) auto

lemma log_ok_emit_publish [simp]: "log_ok (emit [Publish t k] m) \<longleftrightarrow> log_ok m"
  by (simp add: log_ok_def emit_def listens_first_append entry_of_def)

lemma log_ok_put:
  "log_ok m \<Longrightarrow> entry_of m k = Some e \<Longrightarrow> e_jvm e' = e_jvm e \<Longrightarrow> log_ok (put_entry k e' m)"
  by (auto simp: log_ok_def put_entry_def entry_of_def update_conv')

lemma sight_log: "log_ok m \<Longrightarrow> log_ok (sight now m j)"
proof -
  assume ok: "log_ok m"
  obtain m1 e where o: "observe m j now = (m1, e)" by force
  from observe_spec [OF o] obtain xs where m1: "m1 = emit xs (put_entry (jvm_key j) e m)"
    and xs: "\<forall>g. Listen g \<notin> set xs" "\<forall>k g. Inject k g \<notin> set xs" by blast
  from xs have "listens_first gs xs" for gs
    by (induction xs) (auto split: effect.splits, metis effect.exhaust listens_first.simps(4))
  moreover have "listened xs = {}" using xs by (auto simp: listened_def)
  ultimately show ?thesis
    using ok observe_entry [OF o]
    by (auto simp: sight_def o Let_def m1 log_ok_def listens_first_append)
qed

lemma reap_log: "manager_ok m \<Longrightarrow> log_ok m \<Longrightarrow> log_ok (reap_missing m seen now)"
proof -
  assume "manager_ok m" and ok: "log_ok m"
  then have d: "distinct (map fst (m_entries m))" by (simp add: manager_ok_def)
  have "m_log (reap_missing m seen now) = m_log m @ map (\<lambda>(k, e). Publish EventExited k)
      (filter (\<lambda>(k, e). k \<notin> set seen \<and> e_state e \<noteq> StateExited) (m_entries m))"
    and "m_gateways (reap_missing m seen now) = m_gateways m"
    by (simp_all add: reap_missing_def)
  with ok show ?thesis
    by (auto simp: log_ok_def reap_entry_of [OF d] reap_entry_def listens_first_append
        split: option.splits if_splits)
qed

lemma attach_begin_log: "log_ok m \<Longrightarrow> log_ok (fst (attach_begin m k))"
  by (auto simp: attach_begin_def Let_def log_ok_def listens_first_append split: option.splits)

lemma attach_end_log: "log_ok m \<Longrightarrow> log_ok (attach_end m k a res now)"
proof -
  assume ok: "log_ok m"
  then have "log_ok (m\<lparr>m_inflight := x\<rparr>)" for x by (simp add: log_ok_def)
  with log_ok_put [OF this] show ?thesis
    by (auto simp: attach_end_def Let_def apply_result_def split: option.splits sum.splits)
qed

lemma step_log: "manager_step m a m' \<Longrightarrow> manager_ok m \<Longrightarrow> log_ok m \<Longrightarrow> log_ok m'"
proof (induction rule: manager_step.induct)
  case (attach_start k m)
  then have "log_ok (m\<lparr>m_spawned := remove1 k (m_spawned m)\<rparr>)" by (simp add: log_ok_def)
  then show ?case by (rule attach_begin_log)
next
  case (operator_attach m p m')
  then obtain k e x where e: "entry_of m k = Some e"
    and m': "m' = (put_entry k (e\<lparr>e_attempts := 0, e_manual := False\<rparr>) m)\<lparr>m_spawned := x\<rparr>"
    by (auto simp: manual_attach_def split: option.splits)
  have "log_ok (put_entry k (e\<lparr>e_attempts := 0, e_manual := False\<rparr>) m)"
    by (rule log_ok_put [OF operator_attach(3) e]) simp
  then show ?case by (simp add: m' log_ok_def)
next
  case (operator_manual m p b m')
  then obtain k e where e: "entry_of m k = Some e"
    and m': "m' = emit [Publish EventStateChanged k] (put_entry k (set_manual b e) m)"
    by (auto simp: set_manual_only_eq split: option.splits)
  have "e_jvm (set_manual b e) = e_jvm e" by (simp add: set_manual_def)
  from log_ok_put [OF operator_manual(3) e this] show ?case by (simp add: m')
qed (auto intro: sight_log reap_log attach_end_log)

lemma reachable_log: "manager_reachable c True m \<Longrightarrow> log_ok m"
proof (induction rule: manager_reachable.induct)
  case start
  then show ?case by (simp add: log_ok_def new_manager_def entry_of_def)
qed (auto intro: step_log reachable_ok)

section \<open>Properties\<close>


definition sample_config :: config where
  "sample_config = default_config"

definition sample_jvm :: jvm where
  "sample_jvm = (new_jvm 7 [''java''] [])\<lparr>j_start := 5, j_gateway := ''172.17.0.1''\<rparr>"



text \<open>A run in which the reconcile loop instruments one process.\<close>

definition first_pass :: manager where
  "first_pass = reconcile (new_manager sample_config True) (Some [sample_jvm]) (20 * second)"

definition first_attach :: manager where
  "first_attach = fst (attach_begin (first_pass\<lparr>m_spawned := remove1 (jvm_key sample_jvm) (m_spawned first_pass)\<rparr>)
     (jvm_key sample_jvm))"


text \<open>(what the loop attaches to by itself) When a sighting starts an attach, auto-attach is on,
  the operator has not disabled it for the process, and the entry waits for its first attempt or
  for a retry that is due and within the budget; a process seen for the first time has moreover
  passed the filter, is attachable, and is past its start-up grace period.\<close>

theorem sighting_attaches_only:
  assumes "m_spawned (sight now m j) \<noteq> m_spawned m"
    and "entry_of (sight now m j) (jvm_key j) = Some e"
  shows "auto_attach (attach_cfg (m_cfg m)) \<and> \<not> e_manual e \<and>
         (e_state e = StateDiscovered \<or>
          e_state e = StateFailed \<and> e_attempts e < max_retries (attach_cfg (m_cfg m)) \<and> e_next e < now) \<and>
         (entry_of m (jvm_key j) = None \<longrightarrow>
            filter_accept (the_filter (m_cfg m)) j \<and> attachable j = None \<and>
            (is_zero_time (j_start j) \<or> min_uptime (discovery_cfg (m_cfg m)) \<le> now - j_start j))"
proof -
  obtain m1 e1 where o: "observe m j now = (m1, e1)" by force
  from observe_spec [OF o] obtain xs where m1: "m1 = emit xs (put_entry (jvm_key j) e1 m)" by blast
  have e: "e1 = e" and sa: "should_attach (m_cfg m) e now"
    using assms o by (auto simp: sight_def Let_def m1 split: if_splits)
  have new: "filter_accept (the_filter (m_cfg m)) j \<and> attachable j = None \<and>
      (is_zero_time (j_start j) \<or> min_uptime (discovery_cfg (m_cfg m)) \<le> now - j_start j)"
    if "entry_of m (jvm_key j) = None"
  proof -
    have "e_state (classify (m_cfg m) now (new_entry j now)) = StateDiscovered"
      using observe_entry [OF o] that sa e by (auto simp: should_attach_def split: jstate.splits)
    then show ?thesis by (auto simp: classify_def Let_def split: if_splits option.splits)
  qed
  from sa new show ?thesis by (auto simp: should_attach_def split: jstate.splits)
qed

theorem sighting_attaches_only_witness:
  "filter_accept (the_filter sample_config) sample_jvm"
proof -
  let ?m = "new_manager sample_config True"
  have "map_option e_attempts (entry_of (sight (20 * second) ?m sample_jvm) (jvm_key sample_jvm)) = Some 0"
    by code_simp
  then obtain e where e: "entry_of (sight (20 * second) ?m sample_jvm) (jvm_key sample_jvm) = Some e"
    by auto
  have "m_spawned (sight (20 * second) ?m sample_jvm) \<noteq> m_spawned ?m" by code_simp
  from sighting_attaches_only [OF this e] show ?thesis by (simp add: new_manager_def entry_of_def)
qed

text \<open>(backoff and budget) After a failed attempt the loop leaves the process alone until the
  backoff has passed, and for good once the attempt used up the budget.\<close>

theorem failed_attach_waits:
  assumes "entry_of m k = Some e" and "t + retry_backoff (attach_cfg (m_cfg m)) \<noteq> zero_time"
    and "e_attempts e = a"
  shows "case entry_of (attach_end m k a (Inl err) t) k of
           None \<Rightarrow> False
         | Some e' \<Rightarrow> e_state e' = StateFailed \<and>
             (should_attach (m_cfg m) e' now \<longleftrightarrow>
                auto_attach (attach_cfg (m_cfg m)) \<and> \<not> e_manual e \<and>
                a < max_retries (attach_cfg (m_cfg m)) \<and> t + retry_backoff (attach_cfg (m_cfg m)) < now)"
  using assms by (auto simp: attach_end_def Let_def should_attach_def is_zero_time_def)

theorem failed_attach_waits_witness:
  "case entry_of (attach_end first_attach (jvm_key sample_jvm) 1 (Inl ''refused'') (21 * second)) (jvm_key sample_jvm) of
     None \<Rightarrow> False
   | Some e' \<Rightarrow> e_state e' = StateFailed \<and>
       (should_attach (m_cfg first_attach) e' (22 * second) \<longleftrightarrow>
          auto_attach (attach_cfg (m_cfg first_attach)) \<and> \<not> False \<and>
          1 < max_retries (attach_cfg (m_cfg first_attach)) \<and>
          21 * second + retry_backoff (attach_cfg (m_cfg first_attach)) < 22 * second)"
proof -
  have "map_option e_attempts (entry_of first_attach (jvm_key sample_jvm)) = Some 1"
    "map_option e_manual (entry_of first_attach (jvm_key sample_jvm)) = Some False" by code_simp+
  then obtain e where e: "entry_of first_attach (jvm_key sample_jvm) = Some e" "e_attempts e = 1" "\<not> e_manual e"
    by auto
  have "21 * second + retry_backoff (attach_cfg (m_cfg first_attach)) \<noteq> zero_time" by code_simp
  from failed_attach_waits [OF e(1) this e(2), where err = "''refused''" and now = "22 * second"]
  show ?thesis using e(3) by (auto split: option.splits)
qed

text \<open>(entries are forgotten only after the retention) No step makes an entry disappear except a
  reaping that did not see the process, found it already exited, and came more than ten minutes
  after it was found so; a process that is seen, or that exits now, keeps its entry.\<close>

theorem entry_retained:
  assumes "manager_reachable c g m" and "manager_step m a m'"
    and "entry_of m k = Some e" and "entry_of m' k = None"
  shows "\<exists>seen now. a = Reap seen now \<and> k \<notin> set seen \<and> e_state e = StateExited \<and>
                    10 * minute < now - e_exited_at e"
  using assms(2-4) reachable_ok [OF assms(1)]
proof (induction rule: manager_step.induct)
  case (sight m j now)
  obtain m1 e1 where o: "observe m j now = (m1, e1)" by force
  from observe_spec [OF o] obtain xs where "m1 = emit xs (put_entry (jvm_key j) e1 m)" by blast
  with sight show ?case by (auto simp: sight_def o Let_def split: if_splits)
next
  case (reap m seen now)
  then have d: "distinct (map fst (m_entries m))" by (simp add: manager_ok_def)
  from reap show ?case
    by (auto simp: reap_entry_of [OF d] reap_entry_def exited_retention_def split: if_splits)
next
  case (attach_start k m)
  then show ?case by (auto simp: attach_begin_def Let_def split: if_splits option.splits)
next
  case (attach_done k' a m res now)
  then show ?case by (auto simp: attach_end_def Let_def split: option.splits sum.splits if_splits)
qed (auto simp: manual_attach_def set_manual_only_eq split: option.splits if_splits)

theorem entry_retained_witness:
  "\<exists>seen now. Reap [] (700 * second) = Reap seen now \<and> jvm_key sample_jvm \<notin> set seen"
proof -
  let ?m = "reap_missing first_pass [] (30 * second)"
  have r: "manager_reachable sample_config True ?m"
    using reconcile_reachable [OF manager_reachable.start] unfolding first_pass_def
    by (rule manager_reachable.step [OF _ manager_step.reap])
  have "entry_of ?m (jvm_key sample_jvm) \<noteq> None" by code_simp
  then obtain e where e: "entry_of ?m (jvm_key sample_jvm) = Some e" by blast
  have "entry_of (reap_missing ?m [] (700 * second)) (jvm_key sample_jvm) = None" by code_simp
  from entry_retained [OF r manager_step.reap e this] show ?thesis by blast
qed

text \<open>(an exited entry never comes back) A process that one scan missed is marked as exited; when
  the next scan sees it again, under the same key, its entry stays exited: no attach is started,
  and the operator's requests for its pid no longer find it.\<close>

theorem exited_stays_exited:
  assumes "entry_of m (jvm_key j) = Some e" and "e_state e = StateExited"
  shows "map_option e_state (entry_of (sight now m j) (jvm_key j)) = Some StateExited \<and>
         m_spawned (sight now m j) = m_spawned m"
proof -
  obtain m1 e1 where o: "observe m j now = (m1, e1)" by force
  from observe_spec [OF o] obtain xs where m1: "m1 = emit xs (put_entry (jvm_key j) e1 m)" by blast
  from observe_entry [OF o] assms have "e_state e1 = StateExited" by simp
  then show ?thesis by (simp add: sight_def o Let_def m1 should_attach_def)
qed

theorem exited_stays_exited_witness:
  "m_spawned (sight (40 * second) (reap_missing first_pass [] (30 * second)) sample_jvm) =
   m_spawned (reap_missing first_pass [] (30 * second))"
proof -
  let ?m = "reap_missing first_pass [] (30 * second)"
  have "map_option e_state (entry_of ?m (jvm_key sample_jvm)) = Some StateExited" by code_simp
  then obtain e where "entry_of ?m (jvm_key sample_jvm) = Some e" "e_state e = StateExited" by auto
  from exited_stays_exited [OF this] show ?thesis by blast
qed

text \<open>(a late attach revives an exited entry) The process exits while its injection runs; the
  injection then ends and the entry, already exited, is attached again, so the next scan reports
  the same exit a second time.\<close>

theorem late_attach_revives:
  "filter (\<lambda>x. x = Publish EventExited ''7-5'')
     (m_log (reap_missing
       (attach_end (reap_missing first_attach [] (30 * second)) ''7-5'' 1
          (Inr \<lparr>ir_already = False, ir_endpoint = [], ir_warnings = []\<rparr>) (31 * second)) [] (33 * second)))
   = [Publish EventExited ''7-5'', Publish EventExited ''7-5'']"
  by code_simp

text \<open>(disabling can come too late) An attach that the loop has started is not stopped by the
  operator's decision to disable it: \<open>attach\<close> checks neither the flag nor the state again.\<close>

theorem disable_comes_too_late:
  "map_option (\<lambda>m. let m' = fst (attach_begin m ''7-5'')
                    in (map_option e_manual (entry_of m' ''7-5''), map_option e_state (entry_of m' ''7-5'')))
     (set_manual_only first_pass 7 True)
   = Some (Some True, Some StateAttaching)"
  by code_simp

text \<open>(the order of the list is not one) The comparison handed to \<open>sort.Slice\<close> is not a strict weak
  order: a discovered process is neither before nor after any pending one, so incomparability is
  not transitive.\<close>

theorem list_order_inconsistent:
  "\<exists>a b c. \<not> list_less a b \<and> \<not> list_less b a \<and> \<not> list_less b c \<and> \<not> list_less c b \<and> list_less a c"
proof (intro exI conjI)
  let ?e = "\<lambda>st t. (new_entry (sample_jvm\<lparr>j_start := t\<rparr>) 0)\<lparr>e_state := st\<rparr>"
  show "\<not> list_less (?e StateDiscovered 2) (?e StatePending 0)"
    "\<not> list_less (?e StatePending 0) (?e StateDiscovered 2)"
    "\<not> list_less (?e StatePending 0) (?e StateDiscovered 1)"
    "\<not> list_less (?e StateDiscovered 1) (?e StatePending 0)"
    "list_less (?e StateDiscovered 2) (?e StateDiscovered 1)"
    by (simp_all add: list_less_def new_entry_def)
qed

section \<open>The event bus\<close>

text \<open>A subscriber's channel holds 64 events; publishing to a full one drops the event.\<close>

definition subscriber_buffer :: nat where "subscriber_buffer = 64"

record 'e event_bus =
  next_id :: nat
  subs :: "(nat \<times> 'e list) list"

definition new_event_bus :: "'e event_bus" where
  "new_event_bus = \<lparr>next_id = 0, subs = []\<rparr>"

definition subscribe :: "'e event_bus \<Rightarrow> 'e event_bus \<times> nat" where
  "subscribe b = (b\<lparr>next_id := next_id b + 1, subs := (next_id b, []) # subs b\<rparr>, next_id b)"

definition cancel :: "nat \<Rightarrow> 'e event_bus \<Rightarrow> 'e event_bus" where
  "cancel i b = b\<lparr>subs := filter (\<lambda>(j, q). j \<noteq> i) (subs b)\<rparr>"

definition publish :: "'e event_bus \<Rightarrow> 'e \<Rightarrow> 'e event_bus" where
  "publish b ev =
     b\<lparr>subs := map (\<lambda>(j, q). (j, if length q < subscriber_buffer then q @ [ev] else q)) (subs b)\<rparr>"

lemma publish_all:
  "map_of (subs b) i = Some q \<Longrightarrow> length q \<le> subscriber_buffer \<Longrightarrow>
   map_of (subs (foldl publish b evs)) i = Some (take subscriber_buffer (q @ evs))"
proof (induction evs arbitrary: b q)
  case (Cons ev evs)
  let ?q = "if length q < subscriber_buffer then q @ [ev] else q"
  have "map_of (subs (publish b ev)) i = Some ?q"
    using Cons.prems(1) by (simp add: publish_def map_of_map [unfolded comp_def, of "\<lambda>q. if length q < subscriber_buffer then q @ [ev] else q", symmetric] map_of_map)
  moreover have "length ?q \<le> subscriber_buffer" using Cons.prems(2) by auto
  moreover have "take subscriber_buffer (?q @ evs) = take subscriber_buffer (q @ ev # evs)"
    using Cons.prems(2) by (auto simp: take_Cons' Suc_diff_Suc)
  ultimately show ?case using Cons.IH [of "publish b ev" ?q] by simp
qed simp

text \<open>(a slow subscriber loses the newest events only) A subscriber that does not read sees the
  first 64 events published after it subscribed, in order, whatever the others do; publishing
  always returns.\<close>

theorem slow_subscriber:
  "map_of (subs (foldl publish (fst (subscribe b)) evs)) (snd (subscribe b)) =
     Some (take subscriber_buffer evs)"
  using publish_all [of "fst (subscribe b)" "snd (subscribe b)" "[]" evs]
  by (simp add: subscribe_def)

end
