(* ===== verification/Netns.thy ===== *)
theory Netns
  imports Go_Strings
begin

text \<open>
  \<open>internal/netns/route.go\<close>: the default gateway of a process's network namespace, read from its
  \<open>net/route\<close> file.  The file is the list of its lines; a read error is an argument.
\<close>

section \<open>Addresses\<close>

text \<open>\<open>strconv.ParseUint(s, 16, 32)\<close>.\<close>

definition parse_hex32 :: "string \<Rightarrow> int option" where
  "parse_hex32 s =
     (if s \<noteq> [] \<and> list_all is_hex s \<and> int (val_hex s) < 4294967296 then Some (int (val_hex s)) else None)"

type_synonym ipv4 = "int list"

definition parse_hex_address :: "string \<Rightarrow> ipv4 option" where
  "parse_hex_address s =
     map_option (\<lambda>v. [v mod 256, v div 256 mod 256, v div 65536 mod 256, v div 16777216]) (parse_hex32 s)"

definition ipv4_string :: "ipv4 \<Rightarrow> string" where
  "ipv4_string a = join ''.'' (map itoa a)"

section \<open>Routes\<close>

definition zero_address :: string where "zero_address = ''00000000''"

text \<open>A row of the file as a default route with a gateway: its address and metric.\<close>

definition usable_route :: "string \<Rightarrow> (ipv4 \<times> int) option" where
  "usable_route line =
     (let f = split_fields line
      in if length f < 8 then None
         else if f ! 1 \<noteq> zero_address \<or> f ! 7 \<noteq> zero_address then None
         else if f ! 2 = zero_address then None
         else case parse_hex_address (f ! 2) of
                None \<Rightarrow> None
              | Some a \<Rightarrow> Some (a, case atoi (f ! 6) of Some m \<Rightarrow> m | None \<Rightarrow> 0))"

definition better_route :: "ipv4 option \<times> int \<Rightarrow> string \<Rightarrow> ipv4 option \<times> int" where
  "better_route best line =
     (case usable_route line of
        None \<Rightarrow> best
      | Some (a, m) \<Rightarrow> if snd best < 0 \<or> m < snd best then (Some a, m) else best)"

datatype gateway_error = Unreadable | NoDefaultRoute

definition gateway :: "string list option \<Rightarrow> gateway_error + ipv4" where
  "gateway file =
     (case file of
        None \<Rightarrow> Inl Unreadable
      | Some lines \<Rightarrow>
          (case fst (foldl better_route (None, - 1) (drop 1 lines)) of
             None \<Rightarrow> Inl NoDefaultRoute
           | Some a \<Rightarrow> Inr a))"

section \<open>Lemmas\<close>

definition usable_routes :: "string list \<Rightarrow> (ipv4 \<times> int) list" where
  "usable_routes lines = List.map_filter usable_route lines"

definition better :: "ipv4 option \<times> int \<Rightarrow> ipv4 \<times> int \<Rightarrow> ipv4 option \<times> int" where
  "better best r = (if snd best < 0 \<or> snd r < snd best then (Some (fst r), snd r) else best)"

lemma foldl_better_route: "foldl better_route b lines = foldl better b (usable_routes lines)"
  by (induction lines arbitrary: b)
    (auto simp: better_route_def better_def usable_routes_def List.map_filter_simps split: option.splits)

text \<open>The first of the routes with the lowest metric.\<close>

definition first_lowest :: "(ipv4 \<times> int) list \<Rightarrow> ipv4 \<Rightarrow> bool" where
  "first_lowest rs a \<longleftrightarrow>
     (\<exists>pre m post. rs = pre @ (a, m) # post \<and> list_all (\<lambda>y. m < snd y) pre \<and> list_all (\<lambda>y. m \<le> snd y) post)"

lemma foldl_better_min:
  assumes "list_all (\<lambda>r. 0 \<le> snd r) rs" and "0 \<le> m"
  shows "\<exists>b n. foldl better (Some a, m) rs = (Some b, n) \<and> n \<le> m \<and>
           (\<exists>pre post. (a, m) # rs = pre @ (b, n) # post \<and>
              list_all (\<lambda>y. n < snd y) pre \<and> list_all (\<lambda>y. n \<le> snd y) post)"
  using assms
proof (induction rs arbitrary: a m)
  case (Cons r rs)
  obtain c k where r: "r = (c, k)" by force
  show ?case
  proof (cases "k < m")
    case True
    have step: "foldl better (Some a, m) (r # rs) = foldl better (Some c, k) rs"
      using True Cons.prems r by (simp add: better_def)
    obtain b n pre post where h: "foldl better (Some c, k) rs = (Some b, n)" "n \<le> k"
      "(c, k) # rs = pre @ (b, n) # post" "list_all (\<lambda>y. n < snd y) pre" "list_all (\<lambda>y. n \<le> snd y) post"
      using Cons.IH [of k c] Cons.prems r by auto
    have "(a, m) # r # rs = ((a, m) # pre) @ (b, n) # post" using h(3) r by simp
    moreover have "list_all (\<lambda>y. n < snd y) ((a, m) # pre)" using h(2,4) True by simp
    moreover have "n \<le> m" using h(2) True by simp
    ultimately show ?thesis unfolding step using h(1,5) by blast
  next
    case False
    have step: "foldl better (Some a, m) (r # rs) = foldl better (Some a, m) rs"
      using False Cons.prems r by (simp add: better_def)
    obtain b n pre post where h: "foldl better (Some a, m) rs = (Some b, n)" "n \<le> m"
      "(a, m) # rs = pre @ (b, n) # post" "list_all (\<lambda>y. n < snd y) pre" "list_all (\<lambda>y. n \<le> snd y) post"
      using Cons.IH [of m a] Cons.prems by auto
    show ?thesis
    proof (cases pre)
      case Nil
      then have "(a, m) # r # rs = [] @ (b, n) # (r # post)" using h(3) by simp
      moreover have "list_all (\<lambda>y. n \<le> snd y) (r # post)" using h(2,5) r False by simp
      ultimately show ?thesis unfolding step using h(1,2) list.pred_inject(1) by blast
    next
      case (Cons p ps)
      then have eq: "(a, m) # r # rs = (p # r # ps) @ (b, n) # post" using h(3) by simp
      have "n < m" using h(3,4) Cons by auto
      then have "list_all (\<lambda>y. n < snd y) (p # r # ps)" using h(4) Cons r False by simp
      with eq show ?thesis unfolding step using h(1,2,5) by blast
    qed
  qed
next
  case Nil
  have "[(a, m)] = [] @ (a, m) # []" by simp
  then show ?case by fastforce
qed

section \<open>Properties\<close>

text \<open>(the kernel's choice) When no metric is negative, the gateway is that of the first default
  route among those with the lowest metric, and an error is reported exactly when there is no
  default route with a gateway.\<close>

theorem gateway_lowest_metric:
  assumes "list_all (\<lambda>r. 0 \<le> snd r) (usable_routes (drop 1 lines))"
  shows "case gateway (Some lines) of
           Inl e \<Rightarrow> e = NoDefaultRoute \<and> usable_routes (drop 1 lines) = []
         | Inr a \<Rightarrow> first_lowest (usable_routes (drop 1 lines)) a"
proof (cases "usable_routes (drop 1 lines)")
  case Nil
  then show ?thesis by (simp add: gateway_def foldl_better_route)
next
  case (Cons r rs)
  obtain a m where r: "r = (a, m)" by force
  have ok: "list_all (\<lambda>r. 0 \<le> snd r) rs" "0 \<le> m" using assms Cons r by simp_all
  obtain b n where b: "foldl better (Some a, m) rs = (Some b, n)" "first_lowest ((a, m) # rs) b"
    using foldl_better_min [OF ok, of a] unfolding first_lowest_def by blast
  have "foldl better (None, - 1) (r # rs) = (Some b, n)" using b(1) r by (simp add: better_def)
  then have "gateway (Some lines) = Inr b" using Cons by (simp add: gateway_def foldl_better_route)
  with b(2) Cons r show ?thesis by simp
qed

definition sample_routes :: "string list" where
  "sample_routes =
     [''Iface Destination Gateway Flags RefCnt Use Metric Mask'',
      ''eth0 00000000 00000001 0003 0 0 100 00000000'', ''eth1 00000000 00000002 0003 0 0 50 00000000'']"

lemma sample_usable: "usable_routes (drop 1 sample_routes) = [([1, 0, 0, 0], 100), ([2, 0, 0, 0], 50)]"
  by code_simp

theorem gateway_lowest_metric_witness:
  "case gateway (Some sample_routes) of Inl e \<Rightarrow> False | Inr a \<Rightarrow> first_lowest [([1, 0, 0, 0], 100), ([2, 0, 0, 0], 50)] a"
proof -
  have "list_all (\<lambda>r. 0 \<le> snd r) (usable_routes (drop 1 sample_routes))"
    unfolding sample_usable by simp
  from gateway_lowest_metric [OF this] show ?thesis
    unfolding sample_usable by (cases "gateway (Some sample_routes)") auto
qed

text \<open>(a negative metric spoils the choice) The kernel prints metrics from \<open>2^31\<close> on as negative
  numbers, and the code marks "none yet" by a negative metric: after such a route the next one is
  taken whatever its metric.\<close>

theorem negative_metric_spoils_choice:
  "gateway (Some [''h'', ''e 00000000 00000001 3 0 0 -1 00000000'', ''f 00000000 00000002 3 0 0 7 00000000'']) =
     Inr [2, 0, 0, 0]"
  by code_simp

end
