(* ===== verification/Attach.thy ===== *)
theory Attach
  imports Go_Strings
begin

text \<open>
  \<open>internal/attach/protocol.go\<close>, \<open>attach.go\<close> and \<open>properties.go\<close>: the frames of HotSpot's attach
  protocol, the interpretation of its replies, and the property dump.  The socket handshake is an
  argument: for a request frame it delivers the bytes of the reply and says whether the stream
  broke, or it fails.
\<close>

section \<open>Requests\<close>

abbreviation nul_byte :: char where "nul_byte \<equiv> CHR 0x00"
abbreviation newline :: char where "newline \<equiv> CHR 0x0A"

datatype frame_error = TooManyArguments nat | NulInArgument | EmptyCommand

definition frame_part :: "string \<Rightarrow> string" where
  "frame_part s = s @ [nul_byte]"

definition encode_request :: "string \<Rightarrow> string list \<Rightarrow> frame_error + string" where
  "encode_request cmd args =
     (if 3 < length args then Inl (TooManyArguments (length args))
      else if list_ex (\<lambda>a. nul_byte \<in> set a) args then Inl NulInArgument
      else Inr (frame_part ''1'' @ frame_part cmd @
                concat (map (\<lambda>i. frame_part (if i < length args then args ! i else [])) [0, 1, 2])))"

definition jcmd_request :: "string \<Rightarrow> frame_error + string" where
  "jcmd_request cmd = (if trim_space cmd = [] then Inl EmptyCommand else encode_request ''jcmd'' [cmd])"

definition load_agent_request :: "string \<Rightarrow> string \<Rightarrow> frame_error + string" where
  "load_agent_request jar opts =
     encode_request ''load'' [''instrument'', ''false'', if opts \<noteq> [] then jar @ ''='' @ opts else jar]"

section \<open>Replies\<close>

text \<open>\<open>rp_agent\<close> is the agent's own code when one was seen (\<open>AgentCode\<close>, \<open>HasAgentCode\<close>).\<close>

record response =
  rp_code :: int
  rp_body :: string
  rp_agent :: "int option"
  rp_truncated :: bool

definition response_ok :: "response \<Rightarrow> bool" where
  "response_ok r \<longleftrightarrow> rp_code r = 0 \<and> (case rp_agent r of None \<Rightarrow> True | Some n \<Rightarrow> n = 0)"

datatype response_error = Rejected int string | AgentFailed int string

definition response_err :: "response \<Rightarrow> response_error option" where
  "response_err r =
     (if response_ok r then None
      else if rp_code r \<noteq> 0 then Some (Rejected (rp_code r) (trim_space (rp_body r)))
      else case rp_agent r of
             None \<Rightarrow> None
           | Some n \<Rightarrow> Some (AgentFailed n (trim_space (rp_body r))))"

definition agent_return_code_prefix :: string where
  "agent_return_code_prefix = ''return code: ''"

definition agent_code_of_line :: "string \<Rightarrow> int option" where
  "agent_code_of_line line =
     (case cut_prefix (trim_space line) agent_return_code_prefix of
        None \<Rightarrow> None
      | Some after \<Rightarrow> atoi (trim_space after))"

text \<open>The last line that states a code decides.\<close>

definition agent_code :: "string \<Rightarrow> int option" where
  "agent_code body =
     foldl (\<lambda>acc l. case agent_code_of_line l of None \<Rightarrow> acc | Some n \<Rightarrow> Some n) None (split_on newline body)"

datatype decode_error = ReadError | EmptyReply | MalformedReply

definition max_response_bytes :: int where "max_response_bytes = 1048576"

definition decode_response :: "string \<times> bool \<Rightarrow> int \<Rightarrow> decode_error + response" where
  "decode_response stream limit0 =
     (case stream of (bs, broken) \<Rightarrow>
        let limit = (if limit0 \<le> 0 then max_response_bytes else limit0)
        in if broken \<and> int (length bs) < limit + 1 then Inl ReadError
           else
             let data = take (nat (limit + 1)) bs
             in if data = [] then Inl EmptyReply
                else
                  let truncated = limit < int (length data);
                      txt1 = (if truncated then take (nat limit) data else data)
                  in case cut newline txt1 of (first, rest, _) \<Rightarrow>
                       (case atoi (trim_space first) of
                          None \<Rightarrow> Inl MalformedReply
                        | Some code \<Rightarrow>
                            Inr \<lparr>rp_code = code, rp_body = rest, rp_agent = agent_code rest,
                                 rp_truncated = truncated\<rparr>))"

section \<open>Operations\<close>

record attach_options =
  o_proc_root :: string
  o_pid :: int
  o_nspid :: int
  o_uid :: int
  o_gid :: int
  o_jar :: string
  o_agent_options :: string
  o_timeout :: int
  o_max_response :: int

definition apply_defaults :: "attach_options \<Rightarrow> attach_options" where
  "apply_defaults o1 =
     o1\<lparr>o_proc_root := (if o_proc_root o1 = [] then ''/proc'' else o_proc_root o1),
        o_nspid := (if o_nspid o1 = 0 then o_pid o1 else o_nspid o1),
        o_timeout := (if o_timeout o1 \<le> 0 then 30 * second else o_timeout o1)\<rparr>"

datatype attach_error = InvalidPid int | NoJar | Frame frame_error | NoConnection | Decode decode_error
  | Response response_error | BodyError string | TruncatedOutput

type_synonym transport = "attach_options \<Rightarrow> string \<Rightarrow> (string \<times> bool) option"

definition execute :: "transport \<Rightarrow> attach_options \<Rightarrow> string \<Rightarrow> attach_error + response" where
  "execute tr o1 req =
     (case tr o1 req of
        None \<Rightarrow> Inl NoConnection
      | Some stream \<Rightarrow>
          (case decode_response stream (o_max_response o1) of Inl e \<Rightarrow> Inl (Decode e) | Inr r \<Rightarrow> Inr r))"

definition checked :: "attach_error + response \<Rightarrow> attach_error + response" where
  "checked x =
     (case x of
        Inl e \<Rightarrow> Inl e
      | Inr r \<Rightarrow> (case response_err r of None \<Rightarrow> Inr r | Some e \<Rightarrow> Inl (Response e)))"

definition load_agent :: "transport \<Rightarrow> attach_options \<Rightarrow> attach_error + response" where
  "load_agent tr o0 =
     (let o1 = apply_defaults o0
      in if o_pid o1 \<le> 0 then Inl (InvalidPid (o_pid o1))
         else if o_jar o1 = [] then Inl NoJar
         else case load_agent_request (o_jar o1) (o_agent_options o1) of
                Inl e \<Rightarrow> Inl (Frame e)
              | Inr req \<Rightarrow> checked (execute tr o1 req))"

definition ping :: "transport \<Rightarrow> attach_options \<Rightarrow> attach_error + response" where
  "ping tr o0 =
     (let o1 = apply_defaults o0
      in if o_pid o1 \<le> 0 then Inl (InvalidPid (o_pid o1))
         else case encode_request ''properties'' [] of
                Inl e \<Rightarrow> Inl (Frame e)
              | Inr req \<Rightarrow> checked (execute tr o1 req))"

definition jcmd_body_error :: "string \<Rightarrow> bool" where
  "jcmd_body_error body \<longleftrightarrow>
     list_ex (has_prefix (trim_space body))
       [''Unknown diagnostic command'', ''java.lang.IllegalArgumentException'', ''Invalid argument'']"

text \<open>\<open>JCmd\<close>: the output, and the error beside it.\<close>

definition jcmd :: "transport \<Rightarrow> attach_options \<Rightarrow> string \<Rightarrow> string \<times> attach_error option" where
  "jcmd tr o0 cmd =
     (let o1 = apply_defaults o0
      in if o_pid o1 \<le> 0 then ([], Some (InvalidPid (o_pid o1)))
         else case jcmd_request cmd of
                Inl e \<Rightarrow> ([], Some (Frame e))
              | Inr req \<Rightarrow>
                  (case execute tr o1 req of
                     Inl e \<Rightarrow> ([], Some e)
                   | Inr r \<Rightarrow>
                       if rp_code r \<noteq> 0 then ([], Some (Response (Rejected (rp_code r) (trim_space (rp_body r)))))
                       else if jcmd_body_error (rp_body r) then ([], Some (BodyError (trim_space (rp_body r))))
                       else if rp_truncated r then (rp_body r, Some TruncatedOutput)
                       else (rp_body r, None)))"

section \<open>The property dump\<close>

fun unescape_property :: "string \<Rightarrow> string" where
  "unescape_property [] = []"
| "unescape_property [c] = [c]"
| "unescape_property (c # d # cs) =
     (if c \<noteq> CHR 0x5C then c # unescape_property (d # cs)
      else (if d = CHR ''n'' then CHR 0x0A else if d = CHR ''r'' then CHR 0x0D
            else if d = CHR ''t'' then CHR 0x09 else if d = CHR ''f'' then CHR 0x0C else d)
           # unescape_property cs)"

definition parse_property :: "(string \<rightharpoonup> string) \<Rightarrow> string \<Rightarrow> (string \<rightharpoonup> string)" where
  "parse_property m line0 =
     (let line = trim_space line0
      in if line = [] \<or> has_prefix line ''#'' \<or> has_prefix line ''!'' then m
         else case cut (CHR ''='') line of (key, v, found) \<Rightarrow>
                if \<not> found then m else m(trim_space key \<mapsto> unescape_property v))"

definition parse_properties :: "string \<Rightarrow> (string \<rightharpoonup> string)" where
  "parse_properties body = foldl parse_property Map.empty (split_on newline body)"

definition properties_of :: "transport \<Rightarrow> attach_options \<Rightarrow> attach_error + (string \<rightharpoonup> string)" where
  "properties_of tr o0 =
     (case ping tr o0 of Inl e \<Rightarrow> Inl e | Inr r \<Rightarrow> Inr (parse_properties (rp_body r)))"

section \<open>Lemmas\<close>

lemma cut_newline_itoa: "cut newline (itoa code @ newline # body) = (itoa code, body, True)"
proof (rule cut_found)
  have "newline \<notin> set (dec_nat n)" for n by (rule not_digit_in_dec_nat) (simp add: is_digit_def less_eq_char_def)
  then show "newline \<notin> set (itoa code)" by (simp add: itoa_def)
qed

lemma digit_not_space: "is_digit c \<Longrightarrow> \<not> is_space c"
  by (auto simp: is_digit_def is_space_def less_eq_char_def)

lemma trim_space_itoa [simp]: "trim_space (itoa code) = itoa code"
proof -
  have d: "list_all is_digit (dec_nat n)" "dec_nat n \<noteq> []" for n by (simp_all add: dec_nat_digits)
  have "\<not> is_space (CHR ''-'')" by (simp add: is_space_def)
  then have no: "c \<in> set (itoa code) \<Longrightarrow> \<not> is_space c" for c
    using d(1) digit_not_space [of c] by (auto simp: itoa_def list_all_iff split: if_splits)
  have ne: "itoa code \<noteq> []" using d(2) by (simp add: itoa_def)
  show ?thesis unfolding trim_space_def
    by (rule trim_both_id) (use no ne in \<open>auto simp: hd_in_set last_in_set\<close>)
qed

lemma decode_response_inv:
  assumes "decode_response (bs, broken) limit = Inr r" and "0 < limit"
  shows "(rp_truncated r \<longleftrightarrow> limit < int (length bs)) \<and> (\<not> rp_truncated r \<longrightarrow> \<not> broken)"
  using assms
  by (auto simp: decode_response_def Let_def min_def split: prod.splits option.splits if_splits)

section \<open>Properties\<close>

text \<open>(framing) A frame is refused exactly when it has more than three arguments or a NUL in one;
  otherwise the listener, which reads NUL-terminated strings, reads the version, the command and
  exactly three arguments, the given ones first and empty ones after them.\<close>

theorem frame_roundtrip:
  assumes "nul_byte \<notin> set cmd"
  shows "case encode_request cmd args of
           Inl e \<Rightarrow> 3 < length args \<or> list_ex (\<lambda>a. nul_byte \<in> set a) args
         | Inr f \<Rightarrow> length args \<le> 3 \<and>
             split_on nul_byte f = ''1'' # cmd # args @ replicate (3 - length args) [] @ [[]]"
proof (cases "3 < length args \<or> list_ex (\<lambda>a. nul_byte \<in> set a) args")
  case False
  then have no: "\<forall>a \<in> set args. nul_byte \<notin> set a" and len: "length args \<le> 3" by (auto simp: list_ex_iff)
  define a where "a i = (if i < length args then args ! i else [])" for i
  have na: "nul_byte \<notin> set (a i)" for i using no by (auto simp: a_def)
  have "split_on nul_byte ([CHR ''1''] @ nul_byte # cmd @ nul_byte # a 0 @ nul_byte # a 1 @ nul_byte # a 2 @ [nul_byte]) =
      [''1'', cmd, a 0, a 1, a 2, []]"
    using assms na by (simp add: split_on_append)
  moreover have "[a 0, a 1, a 2] = args @ replicate (3 - length args) []"
    using len by (cases args rule: list.exhaust; cases "tl args"; cases "tl (tl args)"; cases "tl (tl (tl args))")
      (auto simp: a_def numeral_eq_Suc)
  ultimately show ?thesis
    using False len by (simp add: encode_request_def frame_part_def a_def [symmetric])
qed (auto simp: encode_request_def)

theorem frame_roundtrip_witness:
  "case encode_request ''load'' [''instrument'', ''false''] of
     Inl e \<Rightarrow> 3 < length [''instrument'', ''false''] \<or> list_ex (\<lambda>a. nul_byte \<in> set a) [''instrument'', ''false'']
   | Inr f \<Rightarrow> length [''instrument'', ''false''] \<le> 3 \<and>
       split_on nul_byte f = [''1'', ''load'', ''instrument'', ''false'', [], []]"
  using frame_roundtrip [of "''load''" "[''instrument'', ''false'']"] by (simp split: sum.splits)

text \<open>(replies) A reply within the bound is decoded to its code and body; and whatever arrives, a
  decoded response is marked as truncated exactly when the reply was longer than the bound, and a
  broken stream is never taken for a complete reply.\<close>

theorem reply_decoding:
  assumes "0 < limit" and "- (2 ^ 63) \<le> code" and "code < 2 ^ 63"
  shows "(int (length (itoa code @ newline # body)) \<le> limit \<longrightarrow>
            decode_response (itoa code @ newline # body, False) limit =
              Inr \<lparr>rp_code = code, rp_body = body, rp_agent = agent_code body, rp_truncated = False\<rparr>) \<and>
         (decode_response (bs, broken) limit = Inr r \<longrightarrow>
            (rp_truncated r \<longleftrightarrow> limit < int (length bs)) \<and> (\<not> rp_truncated r \<longrightarrow> \<not> broken))"
proof (intro conjI impI)
  let ?s = "itoa code @ newline # body"
  assume len: "int (length ?s) \<le> limit"
  then have "take (nat (limit + 1)) ?s = ?s" by (intro take_all) simp
  then show "decode_response (?s, False) limit =
      Inr \<lparr>rp_code = code, rp_body = body, rp_agent = agent_code body, rp_truncated = False\<rparr>"
    using assms len atoi_itoa [OF assms(2,3)]
    by (simp add: decode_response_def Let_def cut_newline_itoa del: take_append)
qed (use assms decode_response_inv in blast)+

theorem reply_decoding_witness:
  "decode_response (itoa 0 @ newline # ''return code: 0'', False) 100 =
     Inr \<lparr>rp_code = 0, rp_body = ''return code: 0'', rp_agent = Some 0, rp_truncated = False\<rparr>"
proof -
  have "agent_code ''return code: 0'' = Some 0" "length (itoa 0) = 1" by code_simp+
  with reply_decoding [of 100 0 "''return code: 0''"] show ?thesis by simp
qed

text \<open>(a load is reported as done only when it was) Loading an agent succeeds only if the listener
  answered 0 and the agent's own last return code, if it stated one, was 0 as well.\<close>

theorem load_agent_sound:
  assumes "load_agent tr opts = Inr r"
  shows "rp_code r = 0 \<and> (rp_agent r = None \<or> rp_agent r = Some 0) \<and> 0 < o_pid opts \<and> o_jar opts \<noteq> []"
  using assms
  by (auto simp: load_agent_def checked_def response_err_def response_ok_def apply_defaults_def Let_def
      split: if_splits sum.splits option.splits)

theorem load_agent_sound_witness:
  "rp_code \<lparr>rp_code = 0, rp_body = ''return code: 0'', rp_agent = Some 0, rp_truncated = False\<rparr> = 0"
proof -
  let ?o = "\<lparr>o_proc_root = [], o_pid = 7, o_nspid = 0, o_uid = 0, o_gid = 0, o_jar = ''/tmp/a.jar'',
      o_agent_options = [], o_timeout = 0, o_max_response = 100\<rparr>"
  have "load_agent (\<lambda>_ _. Some (itoa 0 @ newline # ''return code: 0'', False)) ?o =
      Inr \<lparr>rp_code = 0, rp_body = ''return code: 0'', rp_agent = Some 0, rp_truncated = False\<rparr>"
    by code_simp
  from load_agent_sound [OF this] show ?thesis by blast
qed

end
