(* ===== verification/Injector.thy ===== *)
theory Injector
  imports Attach Inventory Tokens Net_Addr
begin

text \<open>
  \<open>internal/injector/injector.go\<close>: instrumenting one JVM.  The endpoint handed to it, the warning about
  a route that is missing, its OpenTelemetry configuration, and the sequence of effects of \<open>Inject\<close>.
  The answers of the target, of the file system and of the attach helper are arguments, and so are
  the formatted time and the printing of floating-point numbers.
\<close>

section \<open>Endpoints\<close>

text \<open>\<open>url.Parse\<close> of an endpoint \<open>scheme://authority tail\<close>; other texts have no host.\<close>

definition split_endpoint :: "string \<Rightarrow> (string \<times> string \<times> string) option" where
  "split_endpoint s =
     (case index_of s ''://'' of
        None \<Rightarrow> None
      | Some i \<Rightarrow>
          (let rest = drop (i + 3) s;
               auth = takeWhile (\<lambda>c. c \<notin> {CHR ''/'', CHR ''?'', CHR ''#''}) rest
           in if i = 0 \<or> auth = [] then None else Some (take (i + 3) s, auth, drop (length auth) rest)))"

text \<open>\<open>URL.Port\<close>: the digits after the last colon.\<close>

definition url_port :: "string \<Rightarrow> string" where
  "url_port auth =
     (case last_index (CHR '':'') auth of
        None \<Rightarrow> []
      | Some i \<Rightarrow> if list_all is_digit (drop (i + 1) auth) then drop (i + 1) auth else [])"

definition rewrite_host :: "string \<Rightarrow> string \<Rightarrow> string" where
  "rewrite_host endpoint host =
     (case split_endpoint endpoint of
        None \<Rightarrow> endpoint
      | Some (scheme, auth, tail) \<Rightarrow>
          scheme @ (if url_port auth \<noteq> [] then join_host_port host (url_port auth) else host) @ tail)"

definition endpoint_for :: "attach_config \<Rightarrow> jvm \<Rightarrow> string" where
  "endpoint_for c j =
     (if j_shares_network j then otlp_endpoint c
      else if container_otlp_endpoint c \<noteq> [] then container_otlp_endpoint c
      else if j_gateway j \<noteq> [] then rewrite_host (otlp_endpoint c) (j_gateway j)
      else otlp_endpoint c)"

datatype reach_warning = LoopbackOnly string | NoRoute

definition reachability_warning :: "attach_config \<Rightarrow> jvm \<Rightarrow> reach_warning option" where
  "reachability_warning c j =
     (if j_shares_network j then None
      else if container_otlp_endpoint c \<noteq> [] then None
      else if j_gateway j \<noteq> []
           then (if attach_container_bind c = BindOff then Some (LoopbackOnly (j_gateway j)) else None)
      else Some NoRoute)"

section \<open>Configuration\<close>

definition metrics_exporter :: "attach_config \<Rightarrow> string" where
  "metrics_exporter c = (if metrics_enabled c then ''otlp'' else ''none'')"

definition agent_log :: "attach_config \<Rightarrow> string" where
  "agent_log c = (if agent_logging c = [] then ''none'' else agent_logging c)"

definition format_bool :: "bool \<Rightarrow> string" where
  "format_bool b = (if b then ''true'' else ''false'')"

definition resource_attributes :: "string \<Rightarrow> jvm \<Rightarrow> string" where
  "resource_attributes host j =
     join '',''
       ([''host.name='' @ host, ''process.pid='' @ itoa (j_pid j),
         ''process.runtime.version='' @ j_java_version j, ''apm2go.injected=true''] @
        (if j_container_id j \<noteq> [] then [''container.id='' @ j_container_id j] else []) @
        (if j_unit j \<noteq> [] then [''apm2go.systemd.unit='' @ j_unit j] else []))"

definition base_properties :: "(f64 \<Rightarrow> string) \<Rightarrow> attach_config \<Rightarrow> string \<Rightarrow> jvm \<Rightarrow> (string \<rightharpoonup> string)" where
  "base_properties fmt c host j =
     [''otel.service.name'' \<mapsto> j_service j,
      ''otel.exporter.otlp.protocol'' \<mapsto> ''grpc'',
      ''otel.exporter.otlp.endpoint'' \<mapsto> endpoint_for c j,
      ''otel.traces.exporter'' \<mapsto> ''otlp'',
      ''otel.metrics.exporter'' \<mapsto> metrics_exporter c,
      ''otel.metric.export.interval'' \<mapsto> itoa (metrics_interval c div millisecond),
      ''otel.instrumentation.runtime-telemetry.enabled'' \<mapsto> format_bool (metrics_enabled c),
      ''otel.logs.exporter'' \<mapsto> ''none'',
      ''otel.traces.sampler'' \<mapsto> ''parentbased_traceidratio'',
      ''otel.traces.sampler.arg'' \<mapsto> fmt (sample_ratio c),
      ''otel.javaagent.logging'' \<mapsto> agent_log c,
      ''otel.resource.attributes'' \<mapsto> resource_attributes host j]"

text \<open>The properties without and with an ingest token; the operator's own win.\<close>

definition jvm_properties ::
  "(f64 \<Rightarrow> string) \<Rightarrow> attach_config \<Rightarrow> string \<Rightarrow> jvm \<Rightarrow> string option \<Rightarrow> (string \<rightharpoonup> string)" where
  "jvm_properties fmt c host j token =
     (case token of
        None \<Rightarrow> base_properties fmt c host j
      | Some t \<Rightarrow> (base_properties fmt c host j)(''otel.exporter.otlp.headers'' \<mapsto> header_name @ ''='' @ t))
     ++ extra_properties c"

definition escape_char :: "char \<Rightarrow> string" where
  "escape_char c =
     (if c \<in> {CHR 0x5C, CHR ''='', CHR '':'', CHR ''#'', CHR ''!''} then [CHR 0x5C, c]
      else if c = CHR 0x0A then [CHR 0x5C, CHR ''n'']
      else if c = CHR 0x0D then [CHR 0x5C, CHR ''r'']
      else if c = CHR 0x09 then [CHR 0x5C, CHR ''t'']
      else [c])"

definition escape_property :: "string \<Rightarrow> string" where
  "escape_property s = concat (map escape_char s)"

definition property_line :: "(string \<rightharpoonup> string) \<Rightarrow> string \<Rightarrow> string" where
  "property_line m k = escape_property k @ ''='' @ escape_property (get_str m k)"

definition render_lines :: "string \<Rightarrow> (string \<rightharpoonup> string) \<Rightarrow> string list \<Rightarrow> string" where
  "render_lines header m ks = concat (map (\<lambda>l. l @ [newline]) (header # map (property_line m) ks))"

definition render_properties :: "string \<Rightarrow> (string \<rightharpoonup> string) \<Rightarrow> string" where
  "render_properties header m = render_lines header m (sorted_list_of_set (dom m))"

definition config_header :: "jvm \<Rightarrow> string \<Rightarrow> string" where
  "config_header j time = ''# Generated by apm2go for pid '' @ itoa (j_pid j) @ '' at '' @ time"

definition inline_option_budget :: nat where "inline_option_budget = 900"

definition fits_inline :: "string \<Rightarrow> string \<Rightarrow> bool" where
  "fits_inline jar txt1 \<longleftrightarrow> length jar + 1 + length txt1 \<le> inline_option_budget"

section \<open>Injection\<close>

definition staging_paths :: "string \<Rightarrow> jvm \<Rightarrow> string \<times> string" where
  "staging_paths pr j =
     (path_join [pr, itoa (j_pid j), ''root'', ''tmp'', ''apm2go''], path_join [''/tmp'', ''apm2go''])"

definition attach_options_for :: "attach_config \<Rightarrow> string \<Rightarrow> jvm \<Rightarrow> attach_options" where
  "attach_options_for c pr j =
     \<lparr>o_proc_root = pr, o_pid = j_pid j, o_nspid = j_nspid j, o_uid = j_uid j, o_gid = j_gid j,
      o_jar = [], o_agent_options = [], o_timeout = attach_timeout c, o_max_response = 0\<rparr>"

text \<open>What the outside does during one injection.\<close>

record surroundings =
  s_properties :: "(string \<rightharpoonup> string) option"
  s_jars :: "(string \<times> string) option"
  s_random :: "bytes option"
  s_save :: save_outcome
  s_time :: string
  s_write_ok :: bool
  s_bootstrap_ok :: bool
  s_otel_ok :: bool

datatype inject_error = NotAttachable refusal | StagingFailed | TokenFailed token_error
  | WriteConfigFailed | BootstrapFailed | OtelFailed

datatype inject_effect = ReadProperties | StageJars string | WriteConfig string string
  | LoadBootstrap attach_options | LoadOtel attach_options

record injector =
  in_cfg :: attach_config
  in_root :: string
  in_host :: string
  in_tokens :: "registry option"
  in_disk :: disk

definition marker_property :: string where "marker_property = ''apm2go.bootstrap.applied''"

definition foreign_credentials_note :: string where
  "foreign_credentials_note =
     ''this JVM was instrumented by an earlier apm2go whose ingest credentials this one '' @
     ''does not have, so its telemetry is being refused. Restart the service to '' @
     ''re-instrument it; nothing about a running JVM's exporter can be changed in place.''"

definition warning_text :: "reach_warning \<Rightarrow> string" where
  "warning_text w =
     (case w of
        LoopbackOnly g \<Rightarrow>
          ''this JVM is on its own network and reaches this host at '' @ g @
          '', but apm2go is listening on loopback only. Set receiver.container_bind to \"auto\" '' @
          ''so it also listens on container gateways, or its traces will never arrive.''
      | NoRoute \<Rightarrow>
          ''this JVM is on its own network and no route from it to this host could be determined, '' @
          ''so its traces will not arrive. Set attach.container_otlp_endpoint to an address reachable '' @
          ''from inside it.'')"

text \<open>Issuing the token inside \<open>properties\<close>: the new injector, and the token if there is a registry.\<close>

definition issue_token :: "surroundings \<Rightarrow> injector \<Rightarrow> string \<Rightarrow> injector \<times> (token_error + string option)" where
  "issue_token s i svc =
     (case in_tokens i of
        None \<Rightarrow> (i, Inr None)
      | Some r \<Rightarrow>
          (case issue (s_random s) (s_save s) r (in_disk i) svc of
             (r', d', Inl e) \<Rightarrow> (i\<lparr>in_tokens := Some r', in_disk := d'\<rparr>, Inl e)
           | (r', d', Inr t) \<Rightarrow> (i\<lparr>in_tokens := Some r', in_disk := d'\<rparr>, Inr (Some t))))"

text \<open>The two loads, once the configuration is rendered: the effects and the outcome.\<close>

definition load_both ::
  "surroundings \<Rightarrow> attach_options \<Rightarrow> string \<Rightarrow> string \<Rightarrow> string \<Rightarrow> inject_effect list \<times> inject_error option" where
  "load_both s base boot otel opts =
     (let b = LoadBootstrap (base\<lparr>o_jar := boot, o_agent_options := opts\<rparr>)
      in if \<not> s_bootstrap_ok s then ([b], Some BootstrapFailed)
         else ([b, LoadOtel (base\<lparr>o_jar := otel\<rparr>)], if s_otel_ok s then None else Some OtelFailed))"

definition inject ::
  "(f64 \<Rightarrow> string) \<Rightarrow> surroundings \<Rightarrow> injector \<Rightarrow> jvm \<Rightarrow> injector \<times> inject_effect list \<times> (inject_error + inject_result)" where
  "inject fmt s i j =
     (case attachable j of
        Some r \<Rightarrow> (i, [], Inl (NotAttachable r))
      | None \<Rightarrow>
     (let base = attach_options_for (in_cfg i) (in_root i) j;
          warns = (case reachability_warning (in_cfg i) j of None \<Rightarrow> [] | Some w \<Rightarrow> [warning_text w]);
          applied = (case s_properties s of None \<Rightarrow> False | Some m \<Rightarrow> m marker_property \<noteq> None);
          res = \<lparr>ir_already = False, ir_endpoint = endpoint_for (in_cfg i) j, ir_warnings = warns\<rparr>
      in if applied then
           (i, [ReadProperties],
            Inr (res\<lparr>ir_already := True,
                     ir_warnings := warns @
                       (if attach_require_token (in_cfg i) \<and> in_tokens i \<noteq> None \<and>
                           \<not> has_token_for (in_tokens i) (j_service j)
                        then [foreign_credentials_note] else [])\<rparr>))
         else case staging_paths (in_root i) j of (host, target) \<Rightarrow>
           (case s_jars s of
              None \<Rightarrow> (i, [ReadProperties, StageJars host], Inl StagingFailed)
            | Some (boot, otel) \<Rightarrow>
           (case issue_token s i (j_service j) of
              (i', Inl e) \<Rightarrow> (i', [ReadProperties, StageJars host], Inl (TokenFailed e))
            | (i', Inr token) \<Rightarrow>
           (let config = render_properties (config_header j (s_time s))
                           (jvm_properties fmt (in_cfg i) (in_host i) j token);
                boot_path = path_join [target, boot];
                otel_path = path_join [target, otel];
                file = ''agent-'' @ itoa (j_nspid j) @ ''.properties'';
                finish = (\<lambda>pre effs_err. (i', [ReadProperties, StageJars host] @ pre @ fst effs_err,
                            case snd effs_err of None \<Rightarrow> Inr res | Some e \<Rightarrow> Inl e))
            in if fits_inline boot_path config
               then finish [] (load_both s base boot_path otel_path config)
               else if \<not> s_write_ok s
               then (i', [ReadProperties, StageJars host, WriteConfig (path_join [host, file]) config], Inl WriteConfigFailed)
               else finish [WriteConfig (path_join [host, file]) config]
                      (load_both s base boot_path otel_path (path_join [target, file])))))))"

section \<open>Lemmas\<close>

lemma escape_no_newline: "newline \<notin> set (escape_property s)"
  by (auto simp: escape_property_def escape_char_def)

lemma unescape_plain: "c \<noteq> CHR 0x5C \<Longrightarrow> unescape_property (c # s) = c # unescape_property s"
  by (cases s) auto

lemma unescape_pair:
  "unescape_property (CHR 0x5C # d # s) =
     (if d = CHR ''n'' then CHR 0x0A else if d = CHR ''r'' then CHR 0x0D
      else if d = CHR ''t'' then CHR 0x09 else if d = CHR ''f'' then CHR 0x0C else d) # unescape_property s"
  by simp

lemma unescape_escape: "unescape_property (escape_property s) = s"
proof (induction s)
  case (Cons c s)
  have "unescape_property (escape_char c @ t) = c # unescape_property t" for t
    by (auto simp: escape_char_def unescape_pair unescape_plain)
  with Cons show ?case by (simp add: escape_property_def)
qed (simp add: escape_property_def)

text \<open>Keys that need no escaping, and values that survive the trimming of a line.\<close>

definition plain_key :: "string \<Rightarrow> bool" where
  "plain_key k \<longleftrightarrow> k \<noteq> [] \<and> escape_property k = k \<and> trim_space k = k"

definition settled_value :: "string \<Rightarrow> bool" where
  "settled_value v \<longleftrightarrow> v = [] \<or> \<not> is_space (last (escape_property v))"

lemma escape_property_Nil [simp]: "escape_property v = [] \<longleftrightarrow> v = []"
  by (cases v) (auto simp: escape_property_def escape_char_def)

lemma escape_fixed:
  assumes "escape_property k = k" and "c \<in> set k"
  shows "c \<notin> {CHR 0x5C, CHR ''='', CHR '':'', CHR ''#'', CHR ''!'', newline}"
proof
  assume c: "c \<in> {CHR 0x5C, CHR ''='', CHR '':'', CHR ''#'', CHR ''!'', newline}"
  have len: "length (escape_property s) \<ge> length s \<and> (c \<in> set s \<longrightarrow> length (escape_property s) > length s)" for s
    using c by (induction s) (auto simp: escape_property_def escape_char_def)
  from len [of k] assms show False by simp
qed

lemma parse_property_line:
  assumes k: "plain_key k" and v: "settled_value (get_str m k)"
  shows "parse_property acc (property_line m k) = acc(k \<mapsto> get_str m k)"
proof -
  let ?e = "escape_property (get_str m k)"
  have line: "property_line m k = k @ CHR ''='' # ?e" using k by (simp add: property_line_def plain_key_def)
  have kne: "k \<noteq> []" and ke: "escape_property k = k" and kt: "trim_space k = k"
    using k by (simp_all add: plain_key_def)
  have kh: "\<not> is_space (hd k)"
    using kt kne trim_both_ends [of is_space k] unfolding trim_space_def by metis
  have "\<not> is_space (last (CHR ''='' # ?e))"
    using v by (auto simp: settled_value_def is_space_def)
  then have trim: "trim_space (property_line m k) = property_line m k"
    unfolding line trim_space_def using kne kh by (intro trim_both_id) simp
  have eq: "CHR ''='' \<notin> set k" using escape_fixed [OF ke, of "CHR ''=''"] by blast
  have "hd k \<noteq> CHR ''#''" "hd k \<noteq> CHR ''!''"
    using escape_fixed [OF ke, of "hd k"] kne by auto
  then have "\<not> has_prefix (property_line m k) ''#''" "\<not> has_prefix (property_line m k) ''!''"
    using kne unfolding line by (auto simp: has_prefix_iff neq_Nil_conv)
  moreover have "property_line m k \<noteq> []" unfolding line by simp
  moreover have "cut (CHR ''='') (property_line m k) = (k, ?e, True)"
    unfolding line by (rule cut_found [OF eq])
  ultimately show ?thesis
    by (simp add: parse_property_def trim kt unescape_escape)
qed

lemma split_lines:
  "\<forall>l \<in> set ls. c \<notin> set l \<Longrightarrow> split_on c (concat (map (\<lambda>l. l @ [c]) ls)) = ls @ [[]]"
  by (induction ls) (simp_all add: split_on_append)

lemma foldl_updates:
  "foldl (\<lambda>acc k. acc(k \<mapsto> get_str m k)) m0 ks = (\<lambda>k. if k \<in> set ks then Some (get_str m k) else m0 k)"
  by (induction ks arbitrary: m0) (auto simp: fun_eq_iff)

lemma foldl_cong_set:
  "(\<And>a x. x \<in> set xs \<Longrightarrow> f a x = g a x) \<Longrightarrow> foldl f a xs = foldl g a xs"
  by (induction xs arbitrary: a) simp_all

section \<open>Properties\<close>

text \<open>(escaping loses nothing) Unescaping an escaped text gives it back, whatever it contains, and an
  escaped text never breaks a line.\<close>

theorem escape_roundtrip:
  "unescape_property (escape_property s) = s \<and> newline \<notin> set (escape_property s)"
  using unescape_escape escape_no_newline by blast



end
