(* ===== verification/Go_Regexp.thy ===== *)
theory Go_Regexp
  imports Go_Strings
begin

text \<open>
  The part of Go's \<open>regexp\<close> package the program uses: expressions as a datatype, and a matcher that
  lists every way an expression can match at a position in the order of preference that the package
  documents (leftmost first, greedy and lazy repetition), so that the first element of the list is the
  match \<open>FindStringSubmatch\<close> reports.  A position is the character before it, the text after it and
  the groups captured so far.  The second half shows that every match the matcher reports is a word
  of the language of the expression, and every captured text a word of the language of its group.
\<close>

section \<open>Expressions\<close>

datatype re =
    Eps
  | One "char \<Rightarrow> bool"
  | Seq re re
  | Alt re re
  | Many bool re
  | Group nat re
  | Bound
  | End

type_synonym position = "char option \<times> string \<times> (nat \<times> string) list"

definition is_word :: "char \<Rightarrow> bool" where
  "is_word c \<longleftrightarrow>
     (CHR ''a'' \<le> c \<and> c \<le> CHR ''z'') \<or> (CHR ''A'' \<le> c \<and> c \<le> CHR ''Z'') \<or> is_digit c \<or> c = CHR ''_''"

text \<open>The class \<open>\s\<close> of the package, which does not have the vertical tab.\<close>

definition re_space :: "char \<Rightarrow> bool" where
  "re_space c \<longleftrightarrow> c \<in> {CHR '' '', CHR 0x09, CHR 0x0A, CHR 0x0C, CHR 0x0D}"

definition at_bound :: "char option \<Rightarrow> string \<Rightarrow> bool" where
  "at_bound p s \<longleftrightarrow>
     (case p of None \<Rightarrow> False | Some c \<Rightarrow> is_word c) \<noteq> (case s of [] \<Rightarrow> False | c # _ \<Rightarrow> is_word c)"

text \<open>Repetition: at most \<open>n\<close> rounds, each of which has to consume something.\<close>

fun rounds :: "bool \<Rightarrow> (position \<Rightarrow> position list) \<Rightarrow> nat \<Rightarrow> position \<Rightarrow> position list" where
  "rounds greedy f 0 q = [q]"
| "rounds greedy f (Suc n) q =
     (let more = concat (map (rounds greedy f n)
                   (filter (\<lambda>q'. length (fst (snd q')) < length (fst (snd q))) (f q)))
      in if greedy then more @ [q] else q # more)"

fun runs :: "re \<Rightarrow> position \<Rightarrow> position list" where
  "runs Eps q = [q]"
| "runs (One p) q =
     (case q of (prev, c # s, g) \<Rightarrow> if p c then [(Some c, s, g)] else [] | _ \<Rightarrow> [])"
| "runs (Seq a b) q = concat (map (runs b) (runs a q))"
| "runs (Alt a b) q = runs a q @ runs b q"
| "runs (Many greedy a) q = rounds greedy (runs a) (length (fst (snd q))) q"
| "runs (Group i a) q =
     map (\<lambda>(prev, s, g). (prev, s, (i, take (length (fst (snd q)) - length s) (fst (snd q))) # g)) (runs a q)"
| "runs Bound q = (case q of (prev, s, g) \<Rightarrow> if at_bound prev s then [q] else [])"
| "runs End q = (if fst (snd q) = [] then [q] else [])"

text \<open>The match at a position, the leftmost match, and a match anchored at the start.\<close>

fun find_from :: "re \<Rightarrow> nat \<Rightarrow> char option \<Rightarrow> string \<Rightarrow> (nat \<times> (nat \<times> string) list) option" where
  "find_from r i prev [] =
     (case runs r (prev, [], []) of [] \<Rightarrow> None | (_, _, g) # _ \<Rightarrow> Some (i, g))"
| "find_from r i prev (c # s) =
     (case runs r (prev, c # s, []) of
        [] \<Rightarrow> find_from r (Suc i) (Some c) s
      | (_, _, g) # _ \<Rightarrow> Some (i, g))"

definition re_find :: "re \<Rightarrow> string \<Rightarrow> (nat \<times> (nat \<times> string) list) option" where
  "re_find r s = find_from r 0 None s"

definition re_matches :: "re \<Rightarrow> string \<Rightarrow> bool" where
  "re_matches r s \<longleftrightarrow> re_find r s \<noteq> None"

definition re_at_start :: "re \<Rightarrow> string \<Rightarrow> (nat \<times> string) list option" where
  "re_at_start r s = (case runs r (None, s, []) of [] \<Rightarrow> None | (_, _, g) # _ \<Rightarrow> Some g)"

text \<open>A group that did not take part in the match reads as the empty string.\<close>

definition sub :: "(nat \<times> string) list \<Rightarrow> nat \<Rightarrow> string" where
  "sub g i = (case map_of g i of None \<Rightarrow> [] | Some t \<Rightarrow> t)"

section \<open>Notation of the source\<close>

fun lit :: "string \<Rightarrow> re" where
  "lit [] = Eps"
| "lit (c # s) = Seq (One (\<lambda>d. d = c)) (lit s)"

fun seqs :: "re list \<Rightarrow> re" where
  "seqs [] = Eps"
| "seqs [r] = r"
| "seqs (r # rs) = Seq r (seqs rs)"

definition star :: "re \<Rightarrow> re" where "star r = Many True r"
definition star_lazy :: "re \<Rightarrow> re" where "star_lazy r = Many False r"
definition plus :: "re \<Rightarrow> re" where "plus r = Seq r (Many True r)"
definition opt :: "re \<Rightarrow> re" where "opt r = Alt r Eps"

definition dot :: re where "dot = One (\<lambda>c. c \<noteq> CHR 0x0A)"
definition space_re :: re where "space_re = One re_space"
definition digit_re :: re where "digit_re = One is_digit"
definition hex_re :: re where "hex_re = One is_hex"

lemmas re_notation = star_def star_lazy_def plus_def opt_def dot_def space_re_def digit_re_def hex_re_def

section \<open>Languages\<close>

inductive lang :: "re \<Rightarrow> string \<Rightarrow> bool" where
  lang_eps: "lang Eps []"
| lang_one: "p c \<Longrightarrow> lang (One p) [c]"
| lang_seq: "lang a u \<Longrightarrow> lang b v \<Longrightarrow> lang (Seq a b) (u @ v)"
| lang_alt1: "lang a u \<Longrightarrow> lang (Alt a b) u"
| lang_alt2: "lang b u \<Longrightarrow> lang (Alt a b) u"
| lang_none: "lang (Many g a) []"
| lang_more: "lang a u \<Longrightarrow> lang (Many g a) v \<Longrightarrow> lang (Many g a) (u @ v)"
| lang_group: "lang a u \<Longrightarrow> lang (Group i a) u"
| lang_bound: "lang Bound []"
| lang_end: "lang End []"

inductive_simps lang_simps [simp]:
  "lang Eps u" "lang (One p) u" "lang (Seq a b) u" "lang (Alt a b) u" "lang (Group i a) u"
  "lang Bound u" "lang End u"

fun groups :: "re \<Rightarrow> (nat \<times> re) set" where
  "groups (Seq a b) = groups a \<union> groups b"
| "groups (Alt a b) = groups a \<union> groups b"
| "groups (Many g a) = groups a"
| "groups (Group i a) = insert (i, a) (groups a)"
| "groups _ = {}"

text \<open>What a run from \<open>q\<close> to \<open>q'\<close> that consumes a word of \<open>L\<close> looks like.\<close>

definition run_ok :: "(string \<Rightarrow> bool) \<Rightarrow> (nat \<times> re) set \<Rightarrow> position \<Rightarrow> position \<Rightarrow> bool" where
  "run_ok L G q q' \<longleftrightarrow>
     (\<exists>u. fst (snd q) = u @ fst (snd q') \<and> L u) \<and>
     (\<forall>(i, t) \<in> set (snd (snd q')). (i, t) \<in> set (snd (snd q)) \<or> (\<exists>r. (i, r) \<in> G \<and> lang r t))"

lemma run_okD: "run_ok L G q q' \<Longrightarrow> \<exists>u. fst (snd q) = u @ fst (snd q') \<and> L u"
  by (simp add: run_ok_def)

lemma run_ok_trans:
  "run_ok L G q q' \<Longrightarrow> run_ok M G q' q'' \<Longrightarrow> (\<And>u v. L u \<Longrightarrow> M v \<Longrightarrow> N (u @ v)) \<Longrightarrow> run_ok N G q q''"
proof -
  assume 1: "run_ok L G q q'" and 2: "run_ok M G q' q''" and c: "\<And>u v. L u \<Longrightarrow> M v \<Longrightarrow> N (u @ v)"
  from 1 obtain u where u: "fst (snd q) = u @ fst (snd q')" "L u" by (auto simp: run_ok_def)
  from 2 obtain v where v: "fst (snd q') = v @ fst (snd q'')" "M v" by (auto simp: run_ok_def)
  have "fst (snd q) = (u @ v) @ fst (snd q'')" "N (u @ v)" using u v c by simp_all
  moreover have "(i, t) \<in> set (snd (snd q)) \<or> (\<exists>r. (i, r) \<in> G \<and> lang r t)"
    if "(i, t) \<in> set (snd (snd q''))" for i t
    using 1 2 that unfolding run_ok_def by blast
  ultimately show ?thesis unfolding run_ok_def by blast
qed

lemma run_ok_mono: "run_ok L G q q' \<Longrightarrow> G \<subseteq> H \<Longrightarrow> (\<And>u. L u \<Longrightarrow> M u) \<Longrightarrow> run_ok M H q q'"
  unfolding run_ok_def by blast

lemma run_ok_refl: "L [] \<Longrightarrow> run_ok L G q q"
  by (auto simp: run_ok_def)

lemma rounds_ok:
  assumes "\<And>q q'. q' \<in> set (f q) \<Longrightarrow> run_ok (lang a) G q q'"
  shows "q' \<in> set (rounds g f n q) \<Longrightarrow> run_ok (lang (Many g a)) G q q'"
proof (induction n arbitrary: q)
  case (Suc n)
  then consider "q' = q" | m where "m \<in> set (f q)" "q' \<in> set (rounds g f n m)"
    by (auto simp: Let_def split: if_splits)
  then show ?case
  proof cases
    case 2
    show ?thesis
      by (rule run_ok_trans [OF assms [OF 2(1)] Suc.IH [OF 2(2)]]) (rule lang_more)
  qed (simp add: run_ok_refl lang_none)
qed (simp add: run_ok_refl lang_none)

lemma runs_ok: "q' \<in> set (runs r q) \<Longrightarrow> run_ok (lang r) (groups r) q q'"
proof (induction r arbitrary: q q')
  case (One p)
  then show ?case
    by (cases q) (auto simp: run_ok_def split: list.splits if_splits)
next
  case (Seq a b)
  then obtain m where m: "m \<in> set (runs a q)" "q' \<in> set (runs b m)" by auto
  have "run_ok (lang a) (groups (Seq a b)) q m" "run_ok (lang b) (groups (Seq a b)) m q'"
    using Seq.IH(1) [OF m(1)] Seq.IH(2) [OF m(2)] by (auto intro: run_ok_mono)
  then show ?case by (rule run_ok_trans) auto
next
  case (Alt a b)
  then consider "q' \<in> set (runs a q)" | "q' \<in> set (runs b q)" by auto
  then show ?case
  proof cases
    case 1
    show ?thesis by (rule run_ok_mono [OF Alt.IH(1) [OF 1]]) auto
  next
    case 2
    show ?thesis by (rule run_ok_mono [OF Alt.IH(2) [OF 2]]) auto
  qed
next
  case (Many g a)
  show ?case
    using rounds_ok [of "runs a" a "groups a", OF Many.IH] Many.prems by simp
next
  case (Group i a)
  then obtain p s g where m: "(p, s, g) \<in> set (runs a q)"
    and q': "q' = (p, s, (i, take (length (fst (snd q)) - length s) (fst (snd q))) # g)" by auto
  from Group.IH [OF m] have ok: "run_ok (lang a) (groups a) q (p, s, g)" .
  then obtain u where u: "fst (snd q) = u @ s" "lang a u" by (auto simp: run_ok_def)
  then have "take (length (fst (snd q)) - length s) (fst (snd q)) = u" by simp
  with ok u q' show ?case by (auto simp: run_ok_def)
qed (auto simp: run_ok_def split: if_splits prod.splits)

lemma find_from_ok:
  "find_from r i prev s = Some (j, g) \<Longrightarrow> (k, t) \<in> set g \<Longrightarrow> \<exists>q. (k, q) \<in> groups r \<and> lang q t"
proof (induction r i prev s rule: find_from.induct)
  case (1 r i prev)
  then obtain p u rest where "runs r (prev, [], []) = (p, u, g) # rest"
    by (auto split: list.splits)
  then have "(p, u, g) \<in> set (runs r (prev, [], []))" by simp
  from runs_ok [OF this] 1(2) show ?case by (fastforce simp: run_ok_def)
next
  case (2 r i prev c s)
  show ?case
  proof (cases "runs r (prev, c # s, [])")
    case Nil
    with 2 show ?thesis by simp
  next
    case (Cons x rest)
    then obtain p u where "runs r (prev, c # s, []) = (p, u, g) # rest"
      using 2(2) by (cases x) auto
    then have "(p, u, g) \<in> set (runs r (prev, c # s, []))" by simp
    from runs_ok [OF this] 2(3) show ?thesis by (fastforce simp: run_ok_def)
  qed
qed

lemma re_find_group: "re_find r s = Some (j, g) \<Longrightarrow> (k, t) \<in> set g \<Longrightarrow> \<exists>q. (k, q) \<in> groups r \<and> lang q t"
  unfolding re_find_def by (rule find_from_ok)

lemma re_at_start_group:
  assumes "re_at_start r s = Some g" and "(k, t) \<in> set g"
  shows "\<exists>q. (k, q) \<in> groups r \<and> lang q t"
proof -
  from assms(1) obtain p u rest where "runs r (None, s, []) = (p, u, g) # rest"
    by (auto simp: re_at_start_def split: list.splits)
  then have "(p, u, g) \<in> set (runs r (None, s, []))" by simp
  from runs_ok [OF this] assms(2) show ?thesis by (fastforce simp: run_ok_def)
qed

text \<open>A captured group is empty (when it took no part) or a word of its language.\<close>

lemma sub_cases: "sub g k = [] \<or> (k, sub g k) \<in> set g"
  by (auto simp: sub_def dest: map_of_SomeD split: option.splits)

lemma lang_plus_iff: "lang (Many g (One p)) u \<longleftrightarrow> list_all p u"
proof
  have "lang r u \<Longrightarrow> r = Many g (One p) \<Longrightarrow> list_all p u" for r
    by (induction r u rule: lang.induct) auto
  then show "lang (Many g (One p)) u \<Longrightarrow> list_all p u" by simp
next
  show "list_all p u \<Longrightarrow> lang (Many g (One p)) u"
  proof (induction u)
    case (Cons c u)
    then show ?case using lang_more [of "One p" "[c]" g u] by auto
  qed (rule lang_none)
qed

lemma lang_plus_One [simp]: "lang (plus (One p)) u \<longleftrightarrow> u \<noteq> [] \<and> list_all p u"
proof
  assume "u \<noteq> [] \<and> list_all p u"
  then have "u = [hd u] @ tl u" "p (hd u)" "list_all p (tl u)" by (cases u; simp)+
  then show "lang (plus (One p)) u" unfolding plus_def lang_simps lang_plus_iff by blast
qed (auto simp: plus_def lang_plus_iff)

lemma lang_lit [simp]: "lang (lit s) u \<longleftrightarrow> u = s"
  by (induction s arbitrary: u) auto


section \<open>Groups that take part in every match\<close>

fun always :: "nat \<Rightarrow> re \<Rightarrow> bool" where
  "always i (Seq a b) \<longleftrightarrow> always i a \<or> always i b"
| "always i (Alt a b) \<longleftrightarrow> always i a \<and> always i b"
| "always i (Group j a) \<longleftrightarrow> i = j \<or> always i a"
| "always i _ \<longleftrightarrow> False"

lemma rounds_keep:
  assumes "\<And>q q'. q' \<in> set (f q) \<Longrightarrow> set (snd (snd q)) \<subseteq> set (snd (snd q'))"
  shows "q' \<in> set (rounds g f n q) \<Longrightarrow> set (snd (snd q)) \<subseteq> set (snd (snd q'))"
proof (induction n arbitrary: q)
  case (Suc n)
  then consider "q' = q" | m where "m \<in> set (f q)" "q' \<in> set (rounds g f n m)"
    by (auto simp: Let_def split: if_splits)
  then show ?case
  proof cases
    case 2
    from assms [OF 2(1)] Suc.IH [OF 2(2)] show ?thesis by (rule subset_trans)
  qed simp
qed simp

lemma runs_keep: "q' \<in> set (runs r q) \<Longrightarrow> set (snd (snd q)) \<subseteq> set (snd (snd q'))"
proof (induction r arbitrary: q q')
  case (Many g a)
  show ?case
    using rounds_keep [of "runs a", OF Many.IH] Many.prems by simp
qed (force split: prod.splits list.splits if_splits)+

lemma runs_always: "q' \<in> set (runs r q) \<Longrightarrow> always i r \<Longrightarrow> \<exists>t. (i, t) \<in> set (snd (snd q'))"
proof (induction r arbitrary: q q')
  case (Seq a b)
  then obtain m where m: "m \<in> set (runs a q)" "q' \<in> set (runs b m)" by auto
  show ?case
    using Seq.IH(1) [OF m(1)] Seq.IH(2) [OF m(2)] runs_keep [OF m(2)] Seq.prems(2) by auto
next
  case (Group j a)
  then obtain p s g where m: "(p, s, g) \<in> set (runs a q)"
    and q': "q' = (p, s, (j, take (length (fst (snd q)) - length s) (fst (snd q))) # g)" by auto
  show ?case using Group.IH [OF m] Group.prems(2) q' by auto
qed auto

lemma find_from_always: "find_from r n prev s = Some (j, g) \<Longrightarrow> always i r \<Longrightarrow> \<exists>t. (i, t) \<in> set g"
proof (induction r n prev s rule: find_from.induct)
  case (1 r n prev)
  then obtain p u rest where "runs r (prev, [], []) = (p, u, g) # rest"
    by (auto split: list.splits)
  then have "(p, u, g) \<in> set (runs r (prev, [], []))" by simp
  from runs_always [OF this 1(2)] show ?case by simp
next
  case (2 r n prev c s)
  show ?case
  proof (cases "runs r (prev, c # s, [])")
    case Nil
    with 2 show ?thesis by simp
  next
    case (Cons x rest)
    then have "(fst x, fst (snd x), g) \<in> set (runs r (prev, c # s, []))"
      using 2(2) by (cases x) auto
    from runs_always [OF this 2(3)] show ?thesis by simp
  qed
qed

lemma sub_in: "(i, t) \<in> set g \<Longrightarrow> (i, sub g i) \<in> set g"
  unfolding sub_def by (cases "map_of g i") (auto simp: map_of_eq_None_iff image_iff dest: map_of_SomeD)

lemma at_start_sub:
  assumes "re_at_start r s = Some g" and "always i r" and "\<And>q. (i, q) \<in> groups r \<Longrightarrow> q = q0"
  shows "lang q0 (sub g i)"
proof -
  from assms(1) obtain p u rest where "runs r (None, s, []) = (p, u, g) # rest"
    by (auto simp: re_at_start_def split: list.splits)
  then have "(p, u, g) \<in> set (runs r (None, s, []))" by simp
  from runs_always [OF this assms(2)] obtain t where "(i, t) \<in> set g" by auto
  from re_at_start_group [OF assms(1) sub_in [OF this]] assms(3) show ?thesis by blast
qed

lemma find_sub:
  assumes "re_find r s = Some (j, g)" and "always i r" and "\<And>q. (i, q) \<in> groups r \<Longrightarrow> q = q0"
  shows "lang q0 (sub g i)"
proof -
  from find_from_always assms(1,2) obtain t where "(i, t) \<in> set g"
    unfolding re_find_def by blast
  from re_find_group [OF assms(1) sub_in [OF this]] assms(3) show ?thesis by blast
qed

end
