(* ===== verification/Threads.thy ===== *)
theory Threads
  imports Go_Regexp Net_Addr
begin

text \<open>
  \<open>internal/jvmdiag/threaddump.go\<close>, first half: the lines of a \<open>Thread.print\<close> reply turned into
  thread records.  The regular expressions are those of the source, as values of \<^typ>\<open>re\<close>; the loop
  of \<open>ParseThreadDump\<close> is a fold of \<open>parse_line\<close> over the lines.  The two floating-point figures of a
  header are kept as the digits that were captured; the lemmas say that every thread the parser
  produces is well formed and that there is exactly one for each header line, in their order.
\<close>

section \<open>Threads and the expressions that recognise them\<close>

record thread =
  t_name :: string
  t_number :: int
  t_daemon :: bool
  t_priority :: int
  t_tid :: string
  t_nid :: string
  t_state :: string
  t_detail :: string
  t_internal :: bool
  t_status :: string
  t_cpu :: string
  t_elapsed :: string
  t_frames :: "string list"
  t_waiting_on :: string
  t_waiting_class :: string
  t_holds :: "string list"

abbreviation quote :: re where "quote \<equiv> One (\<lambda>c. c = CHR 0x22)"

definition thread_header_re :: re where
  "thread_header_re =
     seqs [quote, Group 1 (plus dot), quote, plus space_re, Group 2 (star dot), End]"

definition thread_number_re :: re where
  "thread_number_re = seqs [lit ''#'', Group 1 (plus digit_re)]"

definition priority_re :: re where
  "priority_re = seqs [Bound, lit ''prio='', Group 1 (plus digit_re)]"

definition address_re :: re where
  "address_re = Seq (lit ''0x'') (plus hex_re)"

definition tid_re :: re where
  "tid_re = seqs [Bound, lit ''tid='', Group 1 address_re]"

definition nid_re :: re where
  "nid_re = seqs [Bound, lit ''nid='', Group 1 address_re]"

definition figure_re :: re where
  "figure_re = plus (One (\<lambda>c. is_digit c \<or> c = CHR ''.''))"

definition cpu_re :: re where
  "cpu_re = seqs [Bound, lit ''cpu='', Group 1 figure_re, lit ''ms'']"

definition elapsed_re :: re where
  "elapsed_re = seqs [Bound, lit ''elapsed='', Group 1 figure_re, lit ''s'']"

definition lock_re :: re where
  "lock_re =
     seqs [lit ''-'', plus space_re, Group 1 (star_lazy dot), star space_re,
           lit ''<'', Group 2 address_re, lit ''>'', star space_re,
           opt (seqs [lit ''(a'', plus space_re, Group 3 (plus (One (\<lambda>c. c \<noteq> CHR '')''))), lit '')''])]"

definition ownable_re :: re where
  "ownable_re = seqs [lit ''-'', plus space_re, lit ''<'', Group 1 address_re, lit ''>'']"

lemmas thread_res = thread_header_re_def thread_number_re_def priority_re_def tid_re_def nid_re_def
  cpu_re_def elapsed_re_def lock_re_def ownable_re_def address_re_def figure_re_def

section \<open>Header lines\<close>

text \<open>The first group of the leftmost match, or nothing.\<close>

definition capture :: "re \<Rightarrow> string \<Rightarrow> string option" where
  "capture r s = map_option (\<lambda>(_, g). sub g 1) (re_find r s)"

definition capture_text :: "re \<Rightarrow> string \<Rightarrow> string" where
  "capture_text r s = (case capture r s of None \<Rightarrow> [] | Some t \<Rightarrow> t)"

definition capture_int :: "re \<Rightarrow> string \<Rightarrow> int" where
  "capture_int r s = (case capture r s of None \<Rightarrow> 0 | Some t \<Rightarrow> atoi_val t)"

fun status_words :: "string list \<Rightarrow> string list \<Rightarrow> string list" where
  "status_words ws [] = ws"
| "status_words ws (f # fs) =
     (if contains f ''='' \<or> has_prefix f ''#'' \<or> f = ''daemon'' then status_words [] fs
      else status_words (ws @ [f]) fs)"

definition parse_status :: "string \<Rightarrow> string" where
  "parse_status rest =
     (let body = (case last_index (CHR ''['') rest of None \<Rightarrow> rest | Some i \<Rightarrow> take i rest)
      in join '' '' (status_words [] (split_fields body)))"

definition new_thread :: "string \<Rightarrow> thread" where
  "new_thread name =
     \<lparr>t_name = name, t_number = 0, t_daemon = False, t_priority = 0, t_tid = [], t_nid = [],
      t_state = [], t_detail = [], t_internal = False, t_status = [], t_cpu = [], t_elapsed = [],
      t_frames = [], t_waiting_on = [], t_waiting_class = [], t_holds = []\<rparr>"

definition parse_thread_header :: "string \<Rightarrow> string \<Rightarrow> thread" where
  "parse_thread_header name rest =
     (new_thread name)
       \<lparr>t_daemon := contains rest '' daemon '' \<or> has_prefix rest ''daemon '',
        t_number := capture_int thread_number_re rest,
        t_priority := capture_int priority_re rest,
        t_tid := capture_text tid_re rest,
        t_nid := capture_text nid_re rest,
        t_cpu := capture_text cpu_re rest,
        t_elapsed := capture_text elapsed_re rest,
        t_status := parse_status rest\<rparr>"

definition header_line :: "string \<Rightarrow> (string \<times> string) option" where
  "header_line line =
     (case re_at_start thread_header_re line of
        None \<Rightarrow> None
      | Some g \<Rightarrow> if has_prefix line '' '' then None else Some (sub g 1, sub g 2))"

section \<open>The lines below a header\<close>

definition state_vm_internal :: string where "state_vm_internal = ''VM_INTERNAL''"

definition classify_vm_internal :: "thread \<Rightarrow> thread" where
  "classify_vm_internal t =
     (if t_state t \<noteq> [] \<or> t_number t \<noteq> 0 \<or> t_frames t \<noteq> [] then t
      else t\<lparr>t_internal := True, t_state := state_vm_internal\<rparr>)"

definition state_prefix :: string where "state_prefix = ''java.lang.Thread.State:''"

definition parse_state_line :: "string \<Rightarrow> string \<times> string" where
  "parse_state_line line =
     (let val = trim_space (trim_prefix line state_prefix)
      in case cut (CHR ''('') val of
           (state, rest, found) \<Rightarrow>
             (trim_space state,
              if found then trim_space (trim_suffix (trim_space rest) '')'') else []))"

definition apply_lock_line :: "string \<Rightarrow> bool \<Rightarrow> thread \<Rightarrow> thread" where
  "apply_lock_line line own t =
     (if own then
        (case re_at_start ownable_re line of
           None \<Rightarrow> t
         | Some g \<Rightarrow> t\<lparr>t_holds := t_holds t @ [sub g 1]\<rparr>)
      else
        (case re_at_start lock_re line of
           None \<Rightarrow> t
         | Some g \<Rightarrow>
             (let verb = trim_space (sub g 1)
              in if has_prefix verb ''locked'' then t\<lparr>t_holds := t_holds t @ [sub g 2]\<rparr>
                 else if (has_prefix verb ''waiting to lock'' \<or> has_prefix verb ''parking to wait for'') \<and>
                         t_waiting_on t = []
                 then t\<lparr>t_waiting_on := sub g 2, t_waiting_class := trim_space (sub g 3)\<rparr>
                 else t)))"

section \<open>The loop\<close>

record parser =
  p_header :: string
  p_threads :: "thread list"
  p_current :: "thread option"
  p_own :: bool

definition empty_parser :: parser where
  "empty_parser = \<lparr>p_header = [], p_threads = [], p_current = None, p_own = False\<rparr>"

definition flush_thread :: "parser \<Rightarrow> parser" where
  "flush_thread p =
     (case p_current p of
        None \<Rightarrow> p
      | Some t \<Rightarrow> p\<lparr>p_threads := p_threads p @ [classify_vm_internal t], p_current := None\<rparr>)"

definition banner :: string where "banner = ''Full thread dump''"

definition body_line :: "string \<Rightarrow> thread \<Rightarrow> parser \<Rightarrow> parser" where
  "body_line trimmed t p =
     (if has_prefix trimmed state_prefix then
        p\<lparr>p_current := Some (t\<lparr>t_state := fst (parse_state_line trimmed), t_detail := snd (parse_state_line trimmed)\<rparr>),
          p_own := False\<rparr>
      else if has_prefix trimmed ''Locked ownable synchronizers:'' then p\<lparr>p_own := True\<rparr>
      else if has_prefix trimmed ''at '' then
        p\<lparr>p_current := Some (t\<lparr>t_frames := t_frames t @ [trim_space (drop 3 trimmed)]\<rparr>), p_own := False\<rparr>
      else if has_prefix trimmed ''- '' then
        p\<lparr>p_current := Some (apply_lock_line trimmed (p_own p) t)\<rparr>
      else p)"

definition parse_line :: "parser \<Rightarrow> string \<Rightarrow> parser" where
  "parse_line p raw =
     (let line = trim_right (\<lambda>c. c = CHR 0x0D) raw; trimmed = trim_space line
      in if p_header p = [] \<and> has_prefix trimmed banner then p\<lparr>p_header := trimmed\<rparr>
         else case header_line line of
                Some (name, rest) \<Rightarrow>
                  (flush_thread p)\<lparr>p_own := False, p_current := Some (parse_thread_header name rest)\<rparr>
              | None \<Rightarrow> (case p_current p of None \<Rightarrow> p | Some t \<Rightarrow> body_line trimmed t p))"

definition parse_body :: "string \<Rightarrow> parser" where
  "parse_body body = flush_thread (foldl parse_line empty_parser (split_on (CHR 0x0A) body))"

section \<open>Every thread is well formed\<close>

definition is_address :: "string \<Rightarrow> bool" where
  "is_address a \<longleftrightarrow> has_prefix a ''0x'' \<and> 2 < length a \<and> list_all is_hex (drop 2 a)"

definition is_figure :: "string \<Rightarrow> bool" where
  "is_figure s \<longleftrightarrow> list_all (\<lambda>c. is_digit c \<or> c = CHR ''.'') s"

text \<open>What holds of a thread while its lines are read.\<close>

definition thread_ok :: "thread \<Rightarrow> bool" where
  "thread_ok t \<longleftrightarrow>
     t_name t \<noteq> [] \<and> 0 \<le> t_number t \<and> 0 \<le> t_priority t \<and>
     (t_tid t = [] \<or> is_address (t_tid t)) \<and> (t_nid t = [] \<or> is_address (t_nid t)) \<and>
     is_figure (t_cpu t) \<and> is_figure (t_elapsed t) \<and>
     (t_waiting_on t = [] \<longrightarrow> t_waiting_class t = []) \<and>
     (t_waiting_on t = [] \<or> is_address (t_waiting_on t)) \<and> list_all is_address (t_holds t)"

text \<open>And of a finished one: it is the JVM's own exactly when it has neither state, number nor stack.\<close>

definition finished_ok :: "thread \<Rightarrow> bool" where
  "finished_ok t \<longleftrightarrow>
     thread_ok t \<and> (t_internal t \<longrightarrow> t_state t = state_vm_internal \<and> t_number t = 0 \<and> t_frames t = []) \<and>
     (t_state t = [] \<longrightarrow> t_number t \<noteq> 0 \<or> t_frames t \<noteq> [])"

lemma lang_address: "lang address_re a \<longleftrightarrow> is_address a"
proof
  assume "lang address_re a"
  then show "is_address a" by (auto simp: address_re_def hex_re_def is_address_def has_prefix_def)
next
  assume "is_address a"
  then have "a = ''0x'' @ drop 2 a" "drop 2 a \<noteq> []" "list_all is_hex (drop 2 a)"
    by (auto simp: is_address_def has_prefix_iff)
  then show "lang address_re a" unfolding address_re_def hex_re_def lang_simps lang_lit lang_plus_One by blast
qed

lemma lang_figure: "lang figure_re s \<longleftrightarrow> s \<noteq> [] \<and> is_figure s"
  by (simp add: figure_re_def is_figure_def)

text \<open>The captured groups of the expressions.\<close>

lemma capture_lang:
  assumes "capture r s = Some t" and "\<And>q. (1, q) \<in> groups r \<Longrightarrow> q = q0"
  shows "t = [] \<or> lang q0 t"
proof -
  from assms(1) obtain j g where g: "re_find r s = Some (j, g)" "t = sub g 1"
    by (auto simp: capture_def)
  show ?thesis
    using sub_cases [of g 1] re_find_group [OF g(1), of 1 t] assms(2) g(2) by blast
qed

lemma capture_text_cases:
  assumes "\<And>q. (1, q) \<in> groups r \<Longrightarrow> q = q0"
  shows "capture_text r s = [] \<or> lang q0 (capture_text r s)"
proof (cases "capture r s")
  case (Some t)
  then have "t = [] \<or> lang q0 t" using assms by (rule capture_lang)
  with Some show ?thesis by (simp add: capture_text_def)
qed (simp add: capture_text_def)

lemma groups_no_capture [simp]: "groups (lit s) = {}"
  by (induction s) auto

lemma groups_plus [simp]: "groups (plus r) = groups r" "groups (star r) = groups r"
  "groups (star_lazy r) = groups r" "groups (opt r) = groups r"
  by (auto simp: re_notation)

lemma groups_classes [simp]: "groups dot = {}" "groups space_re = {}" "groups digit_re = {}" "groups hex_re = {}"
  by (auto simp: re_notation)

lemma groups_address [simp]: "groups address_re = {}" "groups figure_re = {}"
  by (auto simp: address_re_def figure_re_def)

lemma tid_address: "capture_text tid_re s = [] \<or> is_address (capture_text tid_re s)"
  using capture_text_cases [of tid_re address_re s] by (simp add: tid_re_def lang_address)

lemma nid_address: "capture_text nid_re s = [] \<or> is_address (capture_text nid_re s)"
  using capture_text_cases [of nid_re address_re s] by (simp add: nid_re_def lang_address)

lemma cpu_figure: "is_figure (capture_text cpu_re s)"
  using capture_text_cases [of cpu_re figure_re s] by (auto simp: cpu_re_def lang_figure is_figure_def)

lemma elapsed_figure: "is_figure (capture_text elapsed_re s)"
  using capture_text_cases [of elapsed_re figure_re s] by (auto simp: elapsed_re_def lang_figure is_figure_def)

lemma atoi_val_digits: "list_all is_digit s \<Longrightarrow> 0 \<le> atoi_val s"
  by (cases s) (auto simp: atoi_val_def Let_def is_digit_def less_eq_char_def)

lemma capture_int_nonneg:
  assumes "\<And>q. (1, q) \<in> groups r \<Longrightarrow> q = plus digit_re"
  shows "0 \<le> capture_int r s"
proof (cases "capture r s")
  case (Some t)
  then have "t = [] \<or> lang (plus digit_re) t" using assms by (rule capture_lang)
  then have "list_all is_digit t" by (auto simp: digit_re_def)
  then show ?thesis using Some by (simp add: capture_int_def atoi_val_digits)
qed (simp add: capture_int_def)

lemma number_nonneg: "0 \<le> capture_int thread_number_re s"
  by (rule capture_int_nonneg) (simp add: thread_number_re_def)

lemma priority_nonneg: "0 \<le> capture_int priority_re s"
  by (rule capture_int_nonneg) (simp add: priority_re_def)

lemma header_thread_ok: "name \<noteq> [] \<Longrightarrow> thread_ok (parse_thread_header name rest)"
  by (simp add: thread_ok_def parse_thread_header_def new_thread_def
      tid_address nid_address cpu_figure elapsed_figure number_nonneg priority_nonneg)

lemma header_line_name:
  assumes "header_line line = Some (name, rest)"
  shows "name \<noteq> []"
proof -
  from assms obtain g where g: "re_at_start thread_header_re line = Some g" "name = sub g 1"
    by (auto simp: header_line_def split: option.splits if_splits)
  have "lang (plus dot) (sub g 1)"
    by (rule at_start_sub [OF g(1)]) (simp_all add: thread_header_re_def)
  with g(2) show ?thesis by (simp add: dot_def)
qed

lemma lock_address: "re_at_start lock_re line = Some g \<Longrightarrow> is_address (sub g 2)"
  unfolding lang_address [symmetric]
  by (rule at_start_sub [where r = lock_re]) (simp_all add: lock_re_def)

lemma ownable_address: "re_at_start ownable_re line = Some g \<Longrightarrow> is_address (sub g 1)"
  unfolding lang_address [symmetric]
  by (rule at_start_sub [where r = ownable_re]) (simp_all add: ownable_re_def)

lemma lock_line_ok: "thread_ok t \<Longrightarrow> thread_ok (apply_lock_line line own t)"
  using lock_address [of line] ownable_address [of line]
  by (auto simp: apply_lock_line_def thread_ok_def Let_def is_address_def split: option.splits)

lemma classify_ok: "thread_ok t \<Longrightarrow> \<not> t_internal t \<Longrightarrow> finished_ok (classify_vm_internal t)"
  by (auto simp: classify_vm_internal_def finished_ok_def thread_ok_def state_vm_internal_def)

section \<open>The invariant of the loop\<close>

text \<open>With \<open>hs\<close> the header lines met so far: the threads finished and the one being read are those of
  \<open>hs\<close>, in order, and well formed.\<close>

definition parser_ok :: "string list \<Rightarrow> parser \<Rightarrow> bool" where
  "parser_ok hs p \<longleftrightarrow>
     map t_name (p_threads p @ (case p_current p of None \<Rightarrow> [] | Some t \<Rightarrow> [t])) = hs \<and>
     list_all finished_ok (p_threads p) \<and>
     (\<forall>t. p_current p = Some t \<longrightarrow> thread_ok t \<and> \<not> t_internal t)"

lemma classify_name [simp]: "t_name (classify_vm_internal t) = t_name t"
  by (simp add: classify_vm_internal_def)

lemma flush_ok: "parser_ok hs p \<Longrightarrow> parser_ok hs (flush_thread p)"
  by (auto simp: parser_ok_def flush_thread_def classify_ok split: option.splits)

lemma flush_current [simp]: "p_current (flush_thread p) = None"
  by (simp add: flush_thread_def split: option.splits)

lemma lock_line_fields [simp]:
  "t_name (apply_lock_line l own t) = t_name t" "t_internal (apply_lock_line l own t) = t_internal t"
  by (auto simp: apply_lock_line_def Let_def split: option.splits)

lemma body_line_ok:
  assumes "parser_ok hs p" "p_current p = Some t"
  shows "parser_ok hs (body_line l t p)"
  using assms lock_line_ok [of t l "p_own p"]
  by (auto simp: parser_ok_def body_line_def thread_ok_def)

text \<open>The names the header lines of a text announce.\<close>

definition announced :: "string list \<Rightarrow> string list" where
  "announced ls = map fst (List.map_filter header_line (map (trim_right (\<lambda>c. c = CHR 0x0D)) ls))"

lemma announced_snoc:
  "announced (ls @ [l]) = announced ls @
     (case header_line (trim_right (\<lambda>c. c = CHR 0x0D) l) of None \<Rightarrow> [] | Some h \<Rightarrow> [fst h])"
  by (simp add: announced_def List.map_filter_def split: option.splits)

lemma header_line_quote:
  assumes "header_line line = Some h"
  shows "\<exists>s. line = CHR 0x22 # s"
proof -
  have "runs thread_header_re (None, line, []) \<noteq> []"
    using assms by (auto simp: header_line_def re_at_start_def split: option.splits list.splits)
  then show ?thesis
    by (cases line) (auto simp: thread_header_re_def split: if_splits)
qed

lemma banner_no_header:
  assumes "has_prefix (trim_space line) banner"
  shows "header_line line = None"
proof (rule ccontr)
  assume "header_line line \<noteq> None"
  then obtain s where line: "line = CHR 0x22 # s" using header_line_quote by blast
  then have "dropWhile is_space line = line" by (simp add: is_space_def)
  then have "trim_space line \<noteq> [] \<Longrightarrow> hd (trim_space line) = CHR 0x22"
    using trim_right_hd [of is_space line] line by (simp add: trim_space_def trim_both_def)
  with assms show False by (auto simp: has_prefix_iff banner_def)
qed

lemma parse_line_ok:
  assumes "parser_ok (announced ls) p"
  shows "parser_ok (announced (ls @ [l])) (parse_line p l)"
proof -
  let ?line = "trim_right (\<lambda>c. c = CHR 0x0D) l"
  show ?thesis
  proof (cases "p_header p = [] \<and> has_prefix (trim_space ?line) banner")
    case True
    then have "header_line ?line = None" using banner_no_header by blast
    with True assms show ?thesis
      by (simp add: parse_line_def announced_snoc parser_ok_def Let_def)
  next
    case no_banner: False
    show ?thesis
    proof (cases "header_line ?line")
      case None
      with no_banner assms show ?thesis
        by (auto simp: parse_line_def announced_snoc Let_def body_line_ok split: option.splits)
    next
      case (Some h)
      obtain name rest where h: "h = (name, rest)" by (cases h)
      have "name \<noteq> []" using Some h header_line_name by blast
      then have "thread_ok (parse_thread_header name rest)" by (rule header_thread_ok)
      moreover have "parser_ok (announced ls) (flush_thread p)" using assms by (rule flush_ok)
      moreover have "t_name (parse_thread_header name rest) = name" "\<not> t_internal (parse_thread_header name rest)"
        by (simp_all add: parse_thread_header_def new_thread_def)
      ultimately show ?thesis
        using no_banner Some h
        by (auto simp: parse_line_def announced_snoc Let_def parser_ok_def)
    qed
  qed
qed

lemma parse_lines_ok: "parser_ok (announced ls) (foldl parse_line empty_parser ls)"
proof (induction ls rule: rev_induct)
  case Nil
  show ?case by (simp add: parser_ok_def empty_parser_def announced_def List.map_filter_def)
next
  case (snoc l ls)
  then show ?case using parse_line_ok by simp
qed

lemma parse_body_ok: "parser_ok (announced (split_on (CHR 0x0A) body)) (parse_body body)"
  unfolding parse_body_def by (intro flush_ok parse_lines_ok)

section \<open>Properties\<close>

text \<open>C28 (every thread of a dump is there, and well formed).  The threads parsed are those the header
  lines announce, in the order of the dump, none lost and none counted twice.  Each has a name, numbers
  that are not negative, locks and native identifiers that are hexadecimal addresses, and is called the
  JVM's own only when it has neither a thread number nor a stack; a thread without a state has one of
  them.\<close>

theorem threads_complete:
  "map t_name (p_threads (parse_body body)) = announced (split_on (CHR 0x0A) body) \<and>
   list_all finished_ok (p_threads (parse_body body))"
  using parse_body_ok [of body] by (simp add: parser_ok_def parse_body_def)

end
