(* ===== verification/Deadlocks.thy ===== *)
theory Deadlocks
  imports Threads
begin

text \<open>
  \<open>internal/jvmdiag/threaddump.go\<close>, second half: deadlocks.  The wait-for graph of a dump, the walk
  that finds its cycles (\<open>inferDeadlocks\<close>), the deadlocks HotSpot reports itself
  (\<open>parseReportedDeadlocks\<close>) and the merge of the two.  The inner loop of the walk has no bound in the
  code, so it is a partial function whose result is an option; that it always returns is a theorem.
\<close>

datatype deadlock_source = FromJvm | Inferred

record deadlock =
  d_threads :: "string list"
  d_source :: deadlock_source
  d_detail :: string

section \<open>The wait-for graph\<close>

definition add_holds :: "(string \<rightharpoonup> nat) \<Rightarrow> nat \<times> thread \<Rightarrow> (string \<rightharpoonup> nat)" where
  "add_holds m it = foldl (\<lambda>m a. m(a \<mapsto> fst it)) m (t_holds (snd it))"

definition owner_of :: "thread list \<Rightarrow> (string \<rightharpoonup> nat)" where
  "owner_of ts = foldl add_holds Map.empty (List.enumerate 0 ts)"

definition waits_of :: "(string \<rightharpoonup> nat) \<Rightarrow> nat \<times> thread \<Rightarrow> nat option" where
  "waits_of owner it =
     (if t_waiting_on (snd it) = [] then None
      else case owner (t_waiting_on (snd it)) of
             None \<Rightarrow> None
           | Some j \<Rightarrow> if j \<noteq> fst it then Some j else None)"

definition waits_for :: "thread list \<Rightarrow> nat option list" where
  "waits_for ts = map (waits_of (owner_of ts)) (List.enumerate 0 ts)"

section \<open>The walk\<close>

datatype mark = Unvisited | OnStack | Done

text \<open>The inner loop: the marks, the path and the node where it stopped.\<close>

partial_function (option) walk ::
  "nat option list \<Rightarrow> mark list \<Rightarrow> nat list \<Rightarrow> nat option \<Rightarrow> (mark list \<times> nat list \<times> nat option) option" where
  "walk w mk path node =
     (case node of
        None \<Rightarrow> Some (mk, path, None)
      | Some n \<Rightarrow>
          if mk ! n = Unvisited then walk w (mk[n := OnStack]) (path @ [n]) (w ! n)
          else Some (mk, path, node))"

declare walk.simps [code]

definition set_marks :: "mark \<Rightarrow> nat list \<Rightarrow> mark list \<Rightarrow> mark list" where
  "set_marks m path mk = foldl (\<lambda>mk i. mk[i := m]) mk path"

text \<open>One round of the outer loop, for one start.\<close>

definition visit ::
  "nat option list \<Rightarrow> mark list \<times> nat list list \<Rightarrow> nat \<Rightarrow> (mark list \<times> nat list list) option" where
  "visit w s start =
     (case s of (mk, out) \<Rightarrow>
        if mk ! start \<noteq> Unvisited then Some (mk, out)
        else case walk w mk [] (Some start) of
               None \<Rightarrow> None
             | Some (mk', path, node) \<Rightarrow>
                 (let cycle = (case node of
                                 None \<Rightarrow> []
                               | Some n \<Rightarrow> if mk' ! n = OnStack then [dropWhile (\<lambda>i. i \<noteq> n) path] else [])
                  in Some (set_marks Done path mk', out @ cycle)))"

fun visit_all ::
  "nat option list \<Rightarrow> mark list \<times> nat list list \<Rightarrow> nat list \<Rightarrow> (mark list \<times> nat list list) option" where
  "visit_all w s [] = Some s"
| "visit_all w s (i # is) = (case visit w s i of None \<Rightarrow> None | Some s' \<Rightarrow> visit_all w s' is)"

definition find_cycles :: "nat option list \<Rightarrow> nat list list option" where
  "find_cycles w =
     map_option snd (visit_all w (replicate (length w) Unvisited, []) [0..<length w])"

definition infer_deadlocks :: "thread list \<Rightarrow> deadlock list option" where
  "infer_deadlocks ts =
     map_option (map (\<lambda>c. \<lparr>d_threads = map (\<lambda>i. t_name (ts ! i)) c, d_source = Inferred, d_detail = []\<rparr>))
       (find_cycles (waits_for ts))"

section \<open>Cycles of a graph with at most one edge out of a node\<close>

definition in_range :: "nat option list \<Rightarrow> bool" where
  "in_range w \<longleftrightarrow> list_all (\<lambda>e. case e of None \<Rightarrow> True | Some j \<Rightarrow> j < length w) w"

definition is_cycle :: "nat option list \<Rightarrow> nat list \<Rightarrow> bool" where
  "is_cycle w c \<longleftrightarrow>
     c \<noteq> [] \<and> distinct c \<and> list_all (\<lambda>i. i < length w) c \<and>
     map (\<lambda>i. w ! i) c = map Some (tl c @ [hd c])"

definition edges :: "nat option list \<Rightarrow> (nat \<times> nat) set" where
  "edges w = {(i, j). w ! i = Some j}"

text \<open>Following the edges from \<open>a\<close> along \<open>path\<close> ends at \<open>b\<close>.\<close>

fun follows :: "nat option list \<Rightarrow> nat option \<Rightarrow> nat list \<Rightarrow> nat option \<Rightarrow> bool" where
  "follows w a [] b \<longleftrightarrow> a = b"
| "follows w a (x # xs) b \<longleftrightarrow> a = Some x \<and> follows w (w ! x) xs b"

lemma follows_reach:
  "follows w a p (Some b) \<Longrightarrow> x \<in> set p \<Longrightarrow> (x, b) \<in> (edges w)\<^sup>*"
proof (induction p arbitrary: a x)
  case (Cons y p)
  have y: "(y, b) \<in> (edges w)\<^sup>*"
  proof (cases p)
    case Nil
    with Cons.prems show ?thesis by (auto simp: edges_def)
  next
    case (Cons z q)
    with Cons.prems have "(y, z) \<in> edges w" by (auto simp: edges_def)
    moreover have "(z, b) \<in> (edges w)\<^sup>*" using Cons.IH [of "w ! y" z] Cons.prems Cons by simp
    ultimately show ?thesis by (rule converse_rtrancl_into_rtrancl)
  qed
  with Cons show ?case by auto
qed simp

lemma follows_last:
  "follows w a p None \<Longrightarrow> x \<in> set p \<Longrightarrow> \<exists>z. (x, z) \<in> (edges w)\<^sup>* \<and> w ! z = None"
proof (induction p arbitrary: a x)
  case (Cons y p)
  have y: "\<exists>z. (y, z) \<in> (edges w)\<^sup>* \<and> w ! z = None"
  proof (cases p)
    case Nil
    with Cons.prems show ?thesis by auto
  next
    case (Cons z q)
    with Cons.prems have "(y, z) \<in> edges w" by (auto simp: edges_def)
    moreover obtain u where "(z, u) \<in> (edges w)\<^sup>*" "w ! u = None"
      using Cons.IH [of "w ! y" z] Cons.prems Cons by auto
    ultimately show ?thesis by (meson converse_rtrancl_into_rtrancl)
  qed
  with Cons show ?case by auto
qed simp

lemma follows_append:
  "follows w a (p @ q) b \<longleftrightarrow> (\<exists>m. follows w a p m \<and> follows w m q b)"
  by (induction p arbitrary: a) auto

lemma cycle_follows:
  assumes "is_cycle w c"
  shows "follows w (Some (hd c)) c (Some (hd c))"
proof -
  have "map (\<lambda>i. w ! i) c = map Some (tl c @ [b]) \<Longrightarrow> c \<noteq> [] \<Longrightarrow> follows w (Some (hd c)) c (Some b)" for b
  proof (induction c)
    case (Cons a c)
    then show ?case by (cases c) auto
  qed simp
  with assms show ?thesis by (simp add: is_cycle_def)
qed

lemma follows_cycle:
  assumes "follows w (Some n) (n # p) (Some n)" and "distinct (n # p)" and "list_all (\<lambda>i. i < length w) (n # p)"
  shows "is_cycle w (n # p)"
proof -
  have "follows w a p (Some b) \<Longrightarrow> p \<noteq> [] \<Longrightarrow> map (\<lambda>i. w ! i) p = map Some (tl p @ [b])" for a b p
  proof (induction p arbitrary: a)
    case (Cons x p)
    then show ?case by (cases p) auto
  qed simp
  from this [OF assms(1)] assms(2,3) show ?thesis by (simp add: is_cycle_def)
qed

text \<open>A cycle is closed under the edges, and each of its nodes reaches all the others.\<close>

lemma cycle_step:
  assumes "is_cycle w c" and "i \<in> set c"
  shows "\<exists>j \<in> set c. w ! i = Some j"
proof -
  from assms have "w ! i \<in> set (map (\<lambda>i. w ! i) c)" by simp
  also have "\<dots> = Some ` set (tl c @ [hd c])" using assms(1) by (simp add: is_cycle_def)
  also have "\<dots> \<subseteq> Some ` set c" using assms(1) by (cases c) (auto simp: is_cycle_def)
  finally show ?thesis by auto
qed

lemma cycle_closed: "(i, j) \<in> (edges w)\<^sup>* \<Longrightarrow> is_cycle w c \<Longrightarrow> i \<in> set c \<Longrightarrow> j \<in> set c"
proof (induction rule: rtrancl_induct)
  case (step j k)
  then show ?case using cycle_step [of w c j] by (auto simp: edges_def)
qed simp

lemma cycle_connected:
  assumes "is_cycle w c" and "i \<in> set c" and "j \<in> set c"
  shows "(i, j) \<in> (edges w)\<^sup>*"
proof -
  have to_hd: "(x, hd c) \<in> (edges w)\<^sup>*" if "x \<in> set c" for x
    using follows_reach [OF cycle_follows [OF assms(1)] that] .
  obtain p q where c: "c = p @ j # q" using assms(3) by (meson split_list)
  have from_hd: "(hd c, j) \<in> (edges w)\<^sup>*"
  proof (cases p)
    case (Cons x r)
    from cycle_follows [OF assms(1)] have "follows w (Some (hd c)) p (Some j)"
      unfolding c by (auto simp: follows_append)
    from follows_reach [OF this, of x] Cons c show ?thesis by simp
  qed (simp add: c)
  show ?thesis using to_hd [OF assms(2)] from_hd by (rule rtrancl_trans)
qed

lemma cycles_meet:
  assumes "is_cycle w c" and "is_cycle w d" and "i \<in> set c" and "i \<in> set d"
  shows "set c = set d"
  using assms cycle_connected cycle_closed by (metis subsetI subset_antisym)

section \<open>The walk always returns\<close>

definition unvisited :: "mark list \<Rightarrow> nat" where
  "unvisited mk = length (filter (\<lambda>m. m = Unvisited) mk)"

lemma unvisited_less:
  assumes "n < length mk" and "mk ! n = Unvisited"
  shows "unvisited (mk[n := OnStack]) < unvisited mk"
proof -
  obtain xs ys where mk: "mk = xs @ Unvisited # ys" and n: "length xs = n"
    using id_take_nth_drop [OF assms(1)] assms by (metis length_take min.absorb4)
  then show ?thesis by (simp add: unvisited_def list_update_append)
qed

lemma set_marks_nth:
  "length (set_marks m p mk) = length mk \<and>
   (i < length mk \<longrightarrow> set_marks m p mk ! i = (if i \<in> set p then m else mk ! i))"
  unfolding set_marks_def by (induction p arbitrary: mk) (auto simp: nth_list_update)

text \<open>Where a walk from \<open>node\<close> ends: it has extended the path along the edges over nodes that were
  unvisited, each once, and stopped at the end of the chain or at a node that was not.\<close>

lemma walk_returns:
  assumes "in_range w" and "length mk = length w" and "\<And>n. node = Some n \<Longrightarrow> n < length w"
  shows "\<exists>p node'. walk w mk path node = Some (set_marks OnStack p mk, path @ p, node') \<and>
           follows w node p node' \<and> distinct p \<and> (\<forall>i \<in> set p. i < length w \<and> mk ! i = Unvisited) \<and>
           (\<forall>n. node' = Some n \<longrightarrow> n < length w \<and> set_marks OnStack p mk ! n \<noteq> Unvisited)"
  using assms(2,3)
proof (induction "unvisited mk" arbitrary: mk node path rule: less_induct)
  case less
  show ?case
  proof (cases node)
    case None
    then show ?thesis by (intro exI [of _ "[]"]) (simp add: walk.simps set_marks_def)
  next
    case (Some n)
    with less.prems have n: "n < length mk" "n < length w" by auto
    show ?thesis
    proof (cases "mk ! n = Unvisited")
      case False
      with Some n show ?thesis by (intro exI [of _ "[]"]) (simp add: walk.simps set_marks_def)
    next
      case True
      let ?mk = "mk[n := OnStack]"
      have "\<And>m. w ! n = Some m \<Longrightarrow> m < length w"
        using assms(1) n by (auto simp: in_range_def list_all_length)
      with less.hyps [of ?mk "w ! n" "path @ [n]"] unvisited_less [OF n(1) True] less.prems(1)
      obtain p node' where p: "walk w ?mk (path @ [n]) (w ! n) = Some (set_marks OnStack p ?mk, (path @ [n]) @ p, node')"
        "follows w (w ! n) p node'" "distinct p" "\<forall>i \<in> set p. i < length w \<and> ?mk ! i = Unvisited"
        "\<forall>m. node' = Some m \<longrightarrow> m < length w \<and> set_marks OnStack p ?mk ! m \<noteq> Unvisited"
        by (metis length_list_update)
      have "n \<notin> set p" using p(4) n by auto
      moreover have "\<forall>i \<in> set p. mk ! i = Unvisited"
        using p(4) \<open>n \<notin> set p\<close> by (metis nth_list_update_neq)
      moreover have "set_marks OnStack (n # p) mk = set_marks OnStack p ?mk" by (simp add: set_marks_def)
      ultimately show ?thesis
        using Some True p n by (intro exI [of _ "n # p"] exI [of _ node']) (simp add: walk.simps [of w mk])
    qed
  qed
qed

section \<open>The search finds every cycle once\<close>

definition done_closed :: "nat option list \<Rightarrow> mark list \<Rightarrow> bool" where
  "done_closed w mk \<longleftrightarrow> (\<forall>i j. i < length w \<longrightarrow> mk ! i = Done \<longrightarrow> w ! i = Some j \<longrightarrow> mk ! j = Done)"

definition search_ok :: "nat option list \<Rightarrow> mark list \<Rightarrow> nat list list \<Rightarrow> bool" where
  "search_ok w mk out \<longleftrightarrow>
     length mk = length w \<and> (\<forall>i < length w. mk ! i \<noteq> OnStack) \<and> done_closed w mk \<and>
     (\<forall>c \<in> set out. is_cycle w c \<and> (\<forall>i \<in> set c. mk ! i = Done)) \<and> distinct (concat out) \<and>
     (\<forall>d. is_cycle w d \<longrightarrow> (\<exists>i \<in> set d. mk ! i = Done) \<longrightarrow> (\<exists>c \<in> set out. set c = set d))"

lemma done_reach:
  "(i, j) \<in> (edges w)\<^sup>* \<Longrightarrow> in_range w \<Longrightarrow> done_closed w mk \<Longrightarrow> i < length w \<Longrightarrow> mk ! i = Done \<Longrightarrow>
   j < length w \<and> mk ! j = Done"
proof (induction rule: rtrancl_induct)
  case (step j k)
  then have j: "j < length w" "mk ! j = Done" "w ! j = Some k" by (simp_all add: edges_def)
  from step.prems(1) j(1,3) have "k < length w" unfolding in_range_def list_all_length by fastforce
  moreover from step.prems(2) j have "mk ! k = Done" unfolding done_closed_def by blast
  ultimately show ?case ..
qed simp

lemma cycle_in_range: "is_cycle w c \<Longrightarrow> i \<in> set c \<Longrightarrow> i < length w"
  by (auto simp: is_cycle_def list_all_iff)

lemma cycle_done:
  assumes "in_range w" "done_closed w mk" "is_cycle w d" "i \<in> set d" "mk ! i = Done" "j \<in> set d"
  shows "mk ! j = Done"
  using done_reach [OF cycle_connected [OF assms(3,4,6)] assms(1,2) cycle_in_range [OF assms(3,4)] assms(5)] by simp

text \<open>What is marked at the end of one round.\<close>

lemma marked_done:
  assumes "length mk = length w" and "i < length w"
  shows "set_marks Done p (set_marks OnStack p mk) ! i = (if i \<in> set p then Done else mk ! i)"
  using assms set_marks_nth [of OnStack p mk i] set_marks_nth [of Done p "set_marks OnStack p mk" i] by simp

lemma round_closed:
  assumes ok: "search_ok w mk out" and fol: "follows w a p node" and range: "in_range w"
    and end1: "\<And>n. node = Some n \<Longrightarrow> n < length w \<and> (n \<in> set p \<or> mk ! n = Done)"
    and p: "\<forall>i \<in> set p. i < length w"
  shows "done_closed w (set_marks Done p (set_marks OnStack p mk))"
proof -
  have next1: "n < length w \<and> (n \<in> set p \<or> mk ! n = Done)" if "i \<in> set p" "w ! i = Some n" for i n
  proof -
    from that(1) obtain xs ys where xs: "p = xs @ i # ys" by (meson split_list)
    with fol have "follows w (w ! i) ys node" by (auto simp: follows_append)
    then show ?thesis
      using that(2) end1 p xs by (cases ys) auto
  qed
  have len: "length mk = length w" and cl: "done_closed w mk" using ok by (simp_all add: search_ok_def)
  show ?thesis unfolding done_closed_def
  proof (intro allI impI)
    fix i j
    assume i: "i < length w" "set_marks Done p (set_marks OnStack p mk) ! i = Done" "w ! i = Some j"
    have j: "j < length w" using range i unfolding in_range_def list_all_length by fastforce
    show "set_marks Done p (set_marks OnStack p mk) ! j = Done"
    proof (cases "i \<in> set p")
      case True
      with next1 i j show ?thesis by (auto simp: marked_done [OF len])
    next
      case False
      with i have "mk ! i = Done" by (simp add: marked_done [OF len])
      with cl i have "mk ! j = Done" unfolding done_closed_def by blast
      with j show ?thesis by (simp add: marked_done [OF len])
    qed
  qed
qed

text \<open>The cycle at the end of a path that came back to itself.\<close>

lemma back_to_path:
  assumes fol: "follows w a p (Some n)" and n: "n \<in> set p" and d: "distinct p" and r: "\<forall>i \<in> set p. i < length w"
  shows "is_cycle w (dropWhile (\<lambda>i. i \<noteq> n) p) \<and> n \<in> set (dropWhile (\<lambda>i. i \<noteq> n) p) \<and>
         set (dropWhile (\<lambda>i. i \<noteq> n) p) \<subseteq> set p"
proof -
  obtain xs ys where p: "p = xs @ n # ys" and xs: "n \<notin> set xs" using n by (meson split_list_first)
  have "dropWhile (\<lambda>i. i \<noteq> n) (xs @ n # ys) = n # ys" using xs by (induction xs) auto
  then have dw: "dropWhile (\<lambda>i. i \<noteq> n) p = n # ys" using p by simp
  have "follows w (Some n) (n # ys) (Some n)" using fol unfolding p by (auto simp: follows_append)
  moreover have "distinct (n # ys)" "list_all (\<lambda>i. i < length w) (n # ys)"
    using d r unfolding p by (auto simp: list_all_iff)
  ultimately have "is_cycle w (n # ys)" by (rule follows_cycle)
  then show ?thesis unfolding dw by (auto simp: p)
qed

text \<open>A cycle through a node of the path is the one found, or there is none.\<close>

lemma cycle_on_path:
  assumes ok: "search_ok w mk out" and range: "in_range w" and fol: "follows w a p node"
    and d: "is_cycle w d" and x: "x \<in> set p" "x \<in> set d"
    and p: "\<forall>i \<in> set p. i < length w \<and> mk ! i = Unvisited"
    and end1: "\<And>n. node = Some n \<Longrightarrow> n \<in> set p \<or> mk ! n = Done"
  shows "\<exists>n. node = Some n \<and> n \<in> set p \<and> n \<in> set d"
proof (cases node)
  case None
  with fol x follows_last obtain z where "(x, z) \<in> (edges w)\<^sup>*" "w ! z = None" by blast
  with cycle_closed d x have "z \<in> set d" by blast
  with cycle_step [OF d] \<open>w ! z = None\<close> show ?thesis by fastforce
next
  case (Some n)
  with fol x follows_reach have "(x, n) \<in> (edges w)\<^sup>*" by blast
  with cycle_closed d x have n: "n \<in> set d" by blast
  have cl: "done_closed w mk" using ok by (simp add: search_ok_def)
  have "mk ! n \<noteq> Done"
    using cycle_done [OF range cl d n _ x(2)] p x(1) by auto
  with end1 Some n show ?thesis by auto
qed

lemma visit_ok:
  assumes ok: "search_ok w mk out" and range: "in_range w" and start: "start < length w"
  shows "\<exists>mk' out'. visit w (mk, out) start = Some (mk', out') \<and> search_ok w mk' out' \<and>
           mk' ! start = Done \<and> (\<forall>i < length w. mk ! i = Done \<longrightarrow> mk' ! i = Done)"
proof (cases "mk ! start = Unvisited")
  case False
  have "mk ! start = Done" using ok start False by (cases "mk ! start") (auto simp: search_ok_def)
  with ok show ?thesis by (simp add: visit_def)
next
  case True
  have len: "length mk = length w" and nos: "\<forall>i < length w. mk ! i \<noteq> OnStack"
    using ok by (simp_all add: search_ok_def)
  obtain p node where p: "walk w mk [] (Some start) = Some (set_marks OnStack p mk, p, node)"
    "follows w (Some start) p node" "distinct p" "\<forall>i \<in> set p. i < length w \<and> mk ! i = Unvisited"
    "\<forall>n. node = Some n \<longrightarrow> n < length w \<and> set_marks OnStack p mk ! n \<noteq> Unvisited"
    using walk_returns [OF range len, of "Some start" "[]"] start by auto
  have on: "set_marks OnStack p mk ! i = (if i \<in> set p then OnStack else mk ! i)" if "i < length w" for i
    using set_marks_nth [of OnStack p mk i] that len by simp
  have end1: "n < length w \<and> (n \<in> set p \<or> mk ! n = Done)" if "node = Some n" for n
    using p(5) that on nos by (metis mark.exhaust)
  have start_p: "start \<in> set p"
    using p(2) p(5) True on [OF start] by (cases p) auto
  let ?mk = "set_marks Done p (set_marks OnStack p mk)"
  define new where "new = (case node of None \<Rightarrow> []
      | Some n \<Rightarrow> if set_marks OnStack p mk ! n = OnStack then [dropWhile (\<lambda>i. i \<noteq> n) p] else [])"
  have marks: "?mk ! i = (if i \<in> set p then Done else mk ! i)" if "i < length w" for i
    using marked_done [OF len that] .
  have new: "is_cycle w c \<and> set c \<subseteq> set p \<and> new = [c] \<and> (\<exists>n. node = Some n \<and> n \<in> set c)" if "c \<in> set new" for c
  proof -
    from that obtain n where n: "node = Some n" "n \<in> set p" "c = dropWhile (\<lambda>i. i \<noteq> n) p" "new = [c]"
      using nos on end1 by (auto simp: new_def split: option.splits if_splits)
    with back_to_path [of w "Some start" p n] p show ?thesis by auto
  qed
  have "search_ok w ?mk (out @ new)"
    unfolding search_ok_def
  proof (intro conjI)
    show "length ?mk = length w" using len set_marks_nth by metis
    show "\<forall>i < length w. ?mk ! i \<noteq> OnStack" using nos by (simp add: marks)
    show "done_closed w ?mk"
      by (rule round_closed [OF ok p(2) range]) (use end1 p in auto)
    show "\<forall>c \<in> set (out @ new). is_cycle w c \<and> (\<forall>i \<in> set c. ?mk ! i = Done)"
    proof
      fix c
      assume "c \<in> set (out @ new)"
      then consider "c \<in> set out" | "c \<in> set new" by auto
      then show "is_cycle w c \<and> (\<forall>i \<in> set c. ?mk ! i = Done)"
      proof cases
        case 1
        then have "is_cycle w c" "\<forall>i \<in> set c. mk ! i = Done" using ok by (simp_all add: search_ok_def)
        then show ?thesis using cycle_in_range marks by auto
      next
        case 2
        then show ?thesis using new [OF 2] cycle_in_range marks by auto
      qed
    qed
    have out_done: "mk ! i = Done" if "i \<in> set (concat out)" for i
      using ok that by (auto simp: search_ok_def)
    have "set (concat new) \<subseteq> set p" using new by auto
    then have "set (concat out) \<inter> set (concat new) = {}" using out_done p(4) by fastforce
    moreover have "distinct (concat new)"
    proof (cases new)
      case (Cons c cs)
      with new [of c] have "is_cycle w c" "new = [c]" by auto
      then show ?thesis by (simp add: is_cycle_def)
    qed simp
    ultimately show "distinct (concat (out @ new))" using ok by (simp add: search_ok_def)
    show "\<forall>d. is_cycle w d \<longrightarrow> (\<exists>i \<in> set d. ?mk ! i = Done) \<longrightarrow> (\<exists>c \<in> set (out @ new). set c = set d)"
    proof (intro allI impI)
      fix d
      assume d: "is_cycle w d" and "\<exists>i \<in> set d. ?mk ! i = Done"
      then obtain i where i: "i \<in> set d" "?mk ! i = Done" "i < length w" using cycle_in_range by blast
      show "\<exists>c \<in> set (out @ new). set c = set d"
      proof (cases "i \<in> set p")
        case False
        with i marks have "mk ! i = Done" by simp
        with ok d i have "\<exists>c \<in> set out. set c = set d" unfolding search_ok_def by blast
        then show ?thesis by auto
      next
        case True
        obtain n where n: "node = Some n" "n \<in> set p" "n \<in> set d"
          using cycle_on_path [OF ok range p(2) d True i(1) p(4)] end1 by blast
        let ?c = "dropWhile (\<lambda>i. i \<noteq> n) p"
        have "?c \<in> set new" using n on end1 by (auto simp: new_def)
        moreover have "is_cycle w ?c" "n \<in> set ?c" using back_to_path [of w "Some start" p n] n p by auto
        ultimately show ?thesis using cycles_meet [OF _ d _ n(3)] by auto
      qed
    qed
  qed
  moreover have "visit w (mk, out) start = Some (?mk, out @ new)"
    using True p(1) by (simp add: visit_def new_def Let_def)
  moreover have "?mk ! start = Done" "\<forall>i < length w. mk ! i = Done \<longrightarrow> ?mk ! i = Done"
    using start_p start by (simp_all add: marks)
  ultimately show ?thesis by blast
qed

lemma visit_all_ok:
  assumes "in_range w"
  shows "search_ok w mk out \<Longrightarrow> list_all (\<lambda>i. i < length w) is \<Longrightarrow>
    \<exists>mk' out'. visit_all w (mk, out) is = Some (mk', out') \<and> search_ok w mk' out' \<and>
      (\<forall>i < length w. i \<in> set is \<or> mk ! i = Done \<longrightarrow> mk' ! i = Done)"
proof (induction "is" arbitrary: mk out)
  case (Cons i "is")
  obtain mk1 out1 where 1: "visit w (mk, out) i = Some (mk1, out1)" "search_ok w mk1 out1" "mk1 ! i = Done"
    "\<forall>j < length w. mk ! j = Done \<longrightarrow> mk1 ! j = Done"
    using visit_ok [OF Cons.prems(1) assms, of i] Cons.prems(2) by auto
  obtain mk2 out2 where 2: "visit_all w (mk1, out1) is = Some (mk2, out2)" "search_ok w mk2 out2"
    "\<forall>j < length w. j \<in> set is \<or> mk1 ! j = Done \<longrightarrow> mk2 ! j = Done"
    using Cons.IH [OF 1(2)] Cons.prems(2) by auto
  show ?case using 1 2 by auto
qed simp

lemma search_start: "search_ok w (replicate (length w) Unvisited) []"
  using cycle_in_range [of w] by (auto simp: search_ok_def done_closed_def)

lemma find_cycles_ok:
  assumes "in_range w"
  shows "\<exists>cs. find_cycles w = Some cs \<and> list_all (is_cycle w) cs \<and> distinct (concat cs) \<and>
           (\<forall>d. is_cycle w d \<longrightarrow> (\<exists>c \<in> set cs. set c = set d))"
proof -
  obtain mk cs where r: "visit_all w (replicate (length w) Unvisited, []) [0..<length w] = Some (mk, cs)"
    "search_ok w mk cs" "\<forall>i < length w. i \<in> set [0..<length w] \<longrightarrow> mk ! i = Done"
    using visit_all_ok [OF assms search_start, of "[0..<length w]"] by (auto simp: list_all_iff)
  have "\<exists>c \<in> set cs. set c = set d" if "is_cycle w d" for d
  proof -
    from that have "hd d \<in> set d" by (simp add: is_cycle_def)
    moreover from that this cycle_in_range have "hd d < length w" by blast
    ultimately have "\<exists>i \<in> set d. mk ! i = Done" using r(3) by auto
    with r(2) that show ?thesis unfolding search_ok_def by blast
  qed
  with r show ?thesis by (auto simp: find_cycles_def search_ok_def list_all_iff)
qed

section \<open>The graph of a dump\<close>

lemma foldl_map_range:
  assumes "\<And>m b. b \<in> set xs \<Longrightarrow> \<forall>y \<in> ran m. P y \<Longrightarrow> \<forall>y \<in> ran (f m b). P y" and "\<forall>y \<in> ran m. P y"
  shows "\<forall>y \<in> ran (foldl f m xs). P y"
  using assms
proof (induction xs arbitrary: m)
  case (Cons x xs)
  have "\<forall>y \<in> ran (f m x). P y" using Cons.prems(1) [of x m] Cons.prems(2) by simp
  then have "\<forall>y \<in> ran (foldl f (f m x) xs). P y"
    by (rule Cons.IH [rotated]) (rule Cons.prems(1), simp_all)
  then show ?case by simp
qed simp

lemma ran_upd: "\<forall>y \<in> ran m. P y \<Longrightarrow> P v \<Longrightarrow> \<forall>y \<in> ran (m(k \<mapsto> v)). P y"
  by (auto simp: ran_def)

lemma owner_range: "owner_of ts a = Some j \<Longrightarrow> j < length ts"
proof -
  have "\<forall>y \<in> ran (foldl add_holds Map.empty (List.enumerate 0 ts)). y < length ts"
  proof (rule foldl_map_range)
    fix m :: "string \<rightharpoonup> nat" and b
    assume b: "b \<in> set (List.enumerate 0 ts)" and m: "\<forall>y \<in> ran m. y < length ts"
    then have "fst b < length ts" by (auto simp: in_set_enumerate_eq)
    then show "\<forall>y \<in> ran (add_holds m b). y < length ts"
      unfolding add_holds_def by (intro foldl_map_range [OF _ m] ran_upd)
  qed simp
  then show "owner_of ts a = Some j \<Longrightarrow> j < length ts" by (auto simp: owner_of_def ran_def)
qed

lemma waits_of_range: "waits_of (owner_of ts) it = Some j \<Longrightarrow> j < length ts"
  using owner_range by (auto simp: waits_of_def split: option.splits if_splits)

lemma waits_for_range: "in_range (waits_for ts)"
  using waits_of_range by (auto simp: in_range_def waits_for_def list_all_iff split: option.splits)

lemma waits_for_nth: "i < length ts \<Longrightarrow> waits_for ts ! i = waits_of (owner_of ts) (i, ts ! i)"
  by (simp add: waits_for_def nth_enumerate_eq)

lemma waits_for_irreflexive: "i < length ts \<Longrightarrow> waits_for ts ! i \<noteq> Some i"
  by (auto simp: waits_for_nth waits_of_def split: option.splits if_splits)

lemma waits_for_length [simp]: "length (waits_for ts) = length ts"
  by (simp add: waits_for_def)

section \<open>The deadlocks HotSpot reports\<close>

definition deadlock_header_re :: re where
  "deadlock_header_re =
     seqs [lit ''Found '', Alt (lit ''one'') (plus digit_re), lit '' Java-level deadlock'', opt (lit ''s''), lit '':'']"

definition held_by_re :: re where
  "held_by_re = seqs [lit ''which is held by '', quote, Group 1 (star dot), quote]"

definition participant_re :: re where
  "participant_re = seqs [quote, Group 1 (plus dot), quote, lit '':'', star space_re, End]"

definition split_deadlock_section :: "string \<Rightarrow> string \<times> string" where
  "split_deadlock_section raw =
     (case re_find deadlock_header_re raw of
        None \<Rightarrow> (raw, [])
      | Some (i, _) \<Rightarrow> (take i raw, drop i raw))"

definition commit :: "deadlock option \<Rightarrow> deadlock list \<Rightarrow> deadlock list" where
  "commit cur out =
     (case cur of None \<Rightarrow> out | Some d \<Rightarrow> if d_threads d = [] then out else out @ [d])"

text \<open>A line inside a report: the report with what the line adds, and the last participant named.\<close>

definition report_line :: "deadlock \<Rightarrow> string \<Rightarrow> string \<Rightarrow> deadlock \<times> string" where
  "report_line d who trimmed =
     (case re_at_start participant_re trimmed of
        Some g \<Rightarrow> (d\<lparr>d_threads := d_threads d @ [sub g 1]\<rparr>, sub g 1)
      | None \<Rightarrow>
          (case re_find held_by_re trimmed of
             Some (_, g) \<Rightarrow>
               (if who \<noteq> [] \<and> d_detail d = []
                then d\<lparr>d_detail := who @ '' is waiting for a lock held by '' @ sub g 1\<rparr> else d, who)
           | None \<Rightarrow> (d, who)))"

text \<open>The loop over the lines: the report being read, the last participant, and the reports finished.\<close>

fun report_lines :: "deadlock option \<Rightarrow> string \<Rightarrow> deadlock list \<Rightarrow> string list \<Rightarrow> deadlock list" where
  "report_lines cur who out [] = commit cur out"
| "report_lines cur who out (l # ls) =
     (let trimmed = trim_space (trim_right (\<lambda>c. c = CHR 0x0D) l)
      in if re_matches deadlock_header_re trimmed then
           report_lines (Some \<lparr>d_threads = [], d_source = FromJvm, d_detail = []\<rparr>) who (commit cur out) ls
         else if has_prefix trimmed ''Java stack information'' then commit cur out
         else case cur of
                None \<Rightarrow> report_lines None who out ls
              | Some d \<Rightarrow> report_lines (Some (fst (report_line d who trimmed))) (snd (report_line d who trimmed)) out ls)"

definition parse_reported_deadlocks :: "string \<Rightarrow> deadlock list" where
  "parse_reported_deadlocks section1 =
     (if trim_space section1 = [] then []
      else report_lines None [] [] (split_on (CHR 0x0A) section1))"

section \<open>Merging\<close>

definition participant_key :: "string list \<Rightarrow> string" where
  "participant_key names = join [CHR 0x00] (sort names)"

definition add_deadlock :: "string list \<times> deadlock list \<Rightarrow> deadlock \<Rightarrow> string list \<times> deadlock list" where
  "add_deadlock s d =
     (case s of (seen, out) \<Rightarrow>
        let key = participant_key (d_threads d)
        in if key = [] \<or> key \<in> set seen then s else (key # seen, out @ [d]))"

definition merge_deadlocks :: "deadlock list \<Rightarrow> deadlock list \<Rightarrow> deadlock list" where
  "merge_deadlocks reported inferred = snd (foldl add_deadlock ([], []) (reported @ inferred))"

lemma report_line_source [simp]: "d_source (fst (report_line d who t)) = d_source d"
  by (simp add: report_line_def split: option.split prod.split)

definition reports_ok :: "deadlock list \<Rightarrow> bool" where
  "reports_ok out \<longleftrightarrow> list_all (\<lambda>d. d_source d = FromJvm \<and> d_threads d \<noteq> []) out"

lemma commit_ok: "reports_ok out \<Longrightarrow> \<forall>d. cur = Some d \<longrightarrow> d_source d = FromJvm \<Longrightarrow> reports_ok (commit cur out)"
  by (auto simp: reports_ok_def commit_def split: option.splits)

lemma report_lines_ok:
  "reports_ok out \<Longrightarrow> \<forall>d. cur = Some d \<longrightarrow> d_source d = FromJvm \<Longrightarrow> reports_ok (report_lines cur who out ls)"
proof (induction ls arbitrary: cur who out)
  case Nil
  then show ?case by (simp add: commit_ok)
next
  case (Cons l ls)
  from Cons.prems have "reports_ok (commit cur out)" by (rule commit_ok)
  with Cons show ?case by (simp add: Let_def split: option.split)
qed

lemma merge_inv:
  assumes "foldl add_deadlock ([], []) ds = (seen, out)"
  shows "set seen = (\<lambda>d. participant_key (d_threads d)) ` set out \<and>
         distinct (map (\<lambda>d. participant_key (d_threads d)) out) \<and> set out \<subseteq> set ds \<and>
         set seen = (\<lambda>d. participant_key (d_threads d)) ` set ds - {[]}"
  using assms
proof (induction ds arbitrary: seen out rule: rev_induct)
  case (snoc d ds)
  obtain seen0 out0 where 0: "foldl add_deadlock ([], []) ds = (seen0, out0)" by fastforce
  with snoc.prems have "(seen, out) = add_deadlock (seen0, out0) d" by simp
  with snoc.IH [OF 0] show ?case
    by (auto simp: add_deadlock_def Let_def split: if_splits)
qed simp

section \<open>Properties\<close>

lemma cycle_two:
  assumes "is_cycle (waits_for ts) c"
  shows "2 \<le> length c"
proof (rule ccontr)
  assume "\<not> 2 \<le> length c"
  moreover have "c \<noteq> []" using assms by (simp add: is_cycle_def)
  ultimately obtain i where "c = [i]" by (cases c) (auto simp: Suc_le_eq)
  with assms have "i < length ts" "waits_for ts ! i = Some i" by (auto simp: is_cycle_def)
  with waits_for_irreflexive show False by blast
qed


text \<open>C14 (the inferred deadlocks are the cycles).  The search over the wait-for graph of a dump yields
  cycles only, of at least two threads, no thread in two of them, and every cycle of the graph is one
  of them; the deadlocks reported carry the names of their threads in cycle order.\<close>

theorem inferred_exact:
  "\<exists>cs. find_cycles (waits_for ts) = Some cs \<and>
        infer_deadlocks ts =
          Some (map (\<lambda>c. \<lparr>d_threads = map (\<lambda>i. t_name (ts ! i)) c, d_source = Inferred, d_detail = []\<rparr>) cs) \<and>
        list_all (\<lambda>c. is_cycle (waits_for ts) c \<and> 2 \<le> length c) cs \<and> distinct (concat cs) \<and>
        set ` {c. is_cycle (waits_for ts) c} = set ` set cs"
proof -
  obtain cs where cs: "find_cycles (waits_for ts) = Some cs" "list_all (is_cycle (waits_for ts)) cs"
    "distinct (concat cs)" "\<forall>d. is_cycle (waits_for ts) d \<longrightarrow> (\<exists>c \<in> set cs. set c = set d)"
    using find_cycles_ok [OF waits_for_range] by blast
  have "set ` {c. is_cycle (waits_for ts) c} = set ` set cs"
  proof
    show "set ` {c. is_cycle (waits_for ts) c} \<subseteq> set ` set cs" using cs(4) by blast
    show "set ` set cs \<subseteq> set ` {c. is_cycle (waits_for ts) c}" using cs(2) by (auto simp: list_all_iff)
  qed
  moreover have "list_all (\<lambda>c. is_cycle (waits_for ts) c \<and> 2 \<le> length c) cs"
    using cs(2) cycle_two by (auto simp: list_all_iff)
  ultimately show ?thesis using cs by (intro exI [of _ cs]) (simp add: infer_deadlocks_def)
qed

lemma merge_first:
  "foldl add_deadlock (s, out) ds = (s', out') \<Longrightarrow> \<exists>more. out' = out @ more"
proof (induction ds arbitrary: s out)
  case (Cons d ds)
  show ?case
  proof (cases "participant_key (d_threads d) = [] \<or> participant_key (d_threads d) \<in> set s")
    case True
    then have "add_deadlock (s, out) d = (s, out)" by (auto simp: add_deadlock_def Let_def)
    with Cons.prems have "foldl add_deadlock (s, out) ds = (s', out')" by simp
    then show ?thesis by (rule Cons.IH)
  next
    case False
    then have "add_deadlock (s, out) d = (participant_key (d_threads d) # s, out @ [d])"
      by (simp add: add_deadlock_def Let_def)
    with Cons.prems have "foldl add_deadlock (participant_key (d_threads d) # s, out @ [d]) ds = (s', out')"
      by simp
    then obtain more where "out' = (out @ [d]) @ more" using Cons.IH by blast
    then show ?thesis by simp
  qed
qed simp

text \<open>(merging keeps one report of each) The merged list names every set of threads that the JVM or
  the search found, each once, invents nothing, and takes the JVM's own report where both found one.\<close>

theorem merge_exact:
  "(\<lambda>d. participant_key (d_threads d)) ` set (merge_deadlocks rs is) =
     (\<lambda>d. participant_key (d_threads d)) ` set (rs @ is) - {[]} \<and>
   distinct (map (\<lambda>d. participant_key (d_threads d)) (merge_deadlocks rs is)) \<and>
   set (merge_deadlocks rs is) \<subseteq> set (rs @ is) \<and>
   (\<exists>more. merge_deadlocks rs is = merge_deadlocks rs [] @ more)"
proof -
  obtain seen0 out0 where 0: "foldl add_deadlock ([], []) rs = (seen0, out0)" by fastforce
  obtain seen out where 1: "foldl add_deadlock ([], []) (rs @ is) = (seen, out)" by fastforce
  then have "foldl add_deadlock (seen0, out0) is = (seen, out)" using 0 by simp
  then obtain more where "out = out0 @ more" using merge_first by blast
  then have "merge_deadlocks rs is = merge_deadlocks rs [] @ more"
    using 0 1 by (simp add: merge_deadlocks_def)
  then show ?thesis using merge_inv [OF 1] 1 by (auto simp: merge_deadlocks_def)
qed

section \<open>What the lock lines do not say\<close>

text \<open>The lines HotSpot prints for three threads: two that wait for each other, and one inside
  \<open>Object.wait()\<close>, whose stack still says that it locked the monitor it has released.\<close>

definition with_locks :: "string \<Rightarrow> string list \<Rightarrow> thread" where
  "with_locks name ls = foldl (\<lambda>t l. apply_lock_line l False t) (new_thread name) ls"

definition blocked_a :: thread where
  "blocked_a = with_locks ''a'' [''- waiting to lock <0x2> (a M)'', ''- locked <0x1> (a L)'']"

definition blocked_b :: thread where
  "blocked_b = with_locks ''b'' [''- waiting to lock <0x1> (a L)'', ''- locked <0x2> (a M)'']"

definition waiting_c :: thread where
  "waiting_c = with_locks ''c'' [''- waiting on <0x1> (a L)'', ''- locked <0x1> (a L)'']"

text \<open>A thread notified in \<open>Object.wait()\<close> has to get its monitor back, and says so in other words.\<close>

definition relocking_a :: thread where
  "relocking_a = with_locks ''a'' [''- waiting to re-lock in wait() <0x2> (a M)'', ''- locked <0x1> (a L)'']"

lemma lock_examples:
  "t_name blocked_a = ''a'' \<and> t_waiting_on blocked_a = ''0x2'' \<and> t_holds blocked_a = [''0x1'']"
  "t_name blocked_b = ''b'' \<and> t_waiting_on blocked_b = ''0x1'' \<and> t_holds blocked_b = [''0x2'']"
  "t_name waiting_c = ''c'' \<and> t_waiting_on waiting_c = [] \<and> t_holds waiting_c = [''0x1'']"
  "t_waiting_on relocking_a = []"
  by code_simp+

lemma example_graphs:
  "waits_for [blocked_a, blocked_b] = [Some 1, Some 0]"
  "waits_for [blocked_a, blocked_b, waiting_c] = [Some 1, Some 2, None]"
  "waits_for [relocking_a, blocked_b] = [None, Some 0]"
  by code_simp+

text \<open>(a waiting thread hides a deadlock)  The two threads that wait for each other are found, but not once
  the dump also lists the thread that waits for a notification on one of the monitors: the lines of its
  stack make it the owner of a monitor it has released.\<close>

theorem waiter_hides_deadlock:
  "map_option (map d_threads) (infer_deadlocks [blocked_a, blocked_b]) = Some [[''a'', ''b'']] \<and>
   infer_deadlocks [blocked_a, blocked_b, waiting_c] = Some []"
proof -
  have "find_cycles [Some 1, Some 0] = Some [[0, 1]]" "find_cycles [Some 1, Some 2, None] = Some []"
    by code_simp+
  then show ?thesis using lock_examples by (simp add: infer_deadlocks_def example_graphs)
qed

text \<open>(a notified thread has no wait edge)  A thread that has to get its monitor back after a notification is
  blocked on it, and no edge says so, so the cycle it closes is not found either.\<close>

theorem relocking_thread_has_no_edge: "infer_deadlocks [relocking_a, blocked_b] = Some []"
proof -
  have "find_cycles [None, Some 0] = Some []" by code_simp
  then show ?thesis by (simp add: infer_deadlocks_def example_graphs)
qed

end
