(* ===== verification/Thread_Dump.thy ===== *)
theory Thread_Dump
  imports Deadlocks "HOL-Library.Product_Lexorder"
begin

text \<open>
  \<open>internal/jvmdiag/threaddump.go\<close>, the rest: the pile-ups of a dump (\<open>findPileups\<close>), the counts by
  state, and \<open>ParseThreadDump\<close> itself, which puts the threads, the counts, the deadlocks and the
  pile-ups together.  A Go map that only this code reads is an association list in the order of the
  first insertion; what is read out of it is sorted before it leaves the function.
\<close>

section \<open>Signature frames\<close>

definition blocking_frames :: "string list" where
  "blocking_frames =
     [''jdk.internal.misc.Unsafe.park'', ''sun.misc.Unsafe.park'', ''java.lang.Object.wait'',
      ''java.lang.Thread.sleep'', ''java.util.concurrent.locks.LockSupport.park'',
      ''java.util.concurrent.locks.AbstractQueuedSynchronizer'', ''sun.nio.ch.'']"

definition is_blocking_frame :: "string \<Rightarrow> bool" where
  "is_blocking_frame f \<longleftrightarrow> list_ex (\<lambda>p. has_prefix f p) blocking_frames"

definition signature_frame :: "string list \<Rightarrow> string" where
  "signature_frame fs =
     (case filter (\<lambda>f. \<not> is_blocking_frame f) fs of
        f # _ \<Rightarrow> f
      | [] \<Rightarrow> (case fs of f # _ \<Rightarrow> f | [] \<Rightarrow> []))"

section \<open>Pile-ups\<close>

record pileup =
  pu_frame :: string
  pu_count :: nat
  pu_states :: "string list"

definition pileup_threshold :: nat where "pileup_threshold = 3"
definition max_pileups :: nat where "max_pileups = 10"

type_synonym frame_groups = "(string \<times> nat \<times> string list) list"

definition note_state :: "string \<Rightarrow> string list \<Rightarrow> string list" where
  "note_state st ss = (if st = [] \<or> st \<in> set ss then ss else ss @ [st])"

fun bump :: "string \<Rightarrow> string \<Rightarrow> frame_groups \<Rightarrow> frame_groups" where
  "bump f st [] = [(f, 1, note_state st [])]"
| "bump f st ((k, c, ss) # gs) =
     (if k = f then (k, c + 1, note_state st ss) # gs else (k, c, ss) # bump f st gs)"

definition group_thread :: "frame_groups \<Rightarrow> thread \<Rightarrow> frame_groups" where
  "group_thread gs t =
     (let f = signature_frame (t_frames t) in if f = [] then gs else bump f (t_state t) gs)"

definition pileup_of :: "string \<times> nat \<times> string list \<Rightarrow> pileup" where
  "pileup_of g = \<lparr>pu_frame = fst g, pu_count = fst (snd g), pu_states = sort (snd (snd g))\<rparr>"

definition pileup_key :: "pileup \<Rightarrow> int \<times> string" where
  "pileup_key p = (- int (pu_count p), pu_frame p)"

definition find_pileups :: "thread list \<Rightarrow> pileup list" where
  "find_pileups ts =
     take max_pileups
       (sort_key pileup_key
         (map pileup_of (filter (\<lambda>g. pileup_threshold \<le> fst (snd g)) (foldl group_thread [] ts))))"

section \<open>The whole dump\<close>

definition unknown_state :: string where "unknown_state = ''UNKNOWN''"

fun bump_count :: "string \<Rightarrow> (string \<times> nat) list \<Rightarrow> (string \<times> nat) list" where
  "bump_count k [] = [(k, 1)]"
| "bump_count k ((x, n) # cs) = (if x = k then (x, n + 1) # cs else (x, n) # bump_count k cs)"

definition state_of :: "thread \<Rightarrow> string" where
  "state_of t = (if t_state t = [] then unknown_state else t_state t)"

definition state_counts :: "thread list \<Rightarrow> (string \<times> nat) list" where
  "state_counts ts = foldl (\<lambda>cs t. bump_count (state_of t) cs) [] ts"

record thread_dump =
  td_header :: string
  td_threads :: "thread list"
  td_counts :: "(string \<times> nat) list"
  td_deadlocks :: "deadlock list"
  td_pileups :: "pileup list"

definition parse_thread_dump :: "string \<Rightarrow> thread_dump option" where
  "parse_thread_dump raw =
     (case split_deadlock_section raw of (body, section1) \<Rightarrow>
        let p = parse_body body; ts = p_threads p
        in case infer_deadlocks ts of
             None \<Rightarrow> None
           | Some inferred \<Rightarrow>
               Some \<lparr>td_header = p_header p, td_threads = ts, td_counts = state_counts ts,
                     td_deadlocks = merge_deadlocks (parse_reported_deadlocks section1) inferred,
                     td_pileups = find_pileups ts\<rparr>)"

section \<open>Counting\<close>

lemma bump_count_keys: "distinct (map fst cs) \<Longrightarrow> distinct (map fst (bump_count k cs)) \<and>
    set (map fst (bump_count k cs)) = insert k (set (map fst cs))"
  by (induction cs rule: bump_count.induct) auto

lemma bump_count_sum: "sum_list (map snd (bump_count k cs)) = sum_list (map snd cs) + 1"
  by (induction cs rule: bump_count.induct) auto

lemma bump_count_lookup:
  "map_of (bump_count k cs) x =
     (if x = k then Some (case map_of cs k of None \<Rightarrow> 1 | Some n \<Rightarrow> n + 1) else map_of cs x)"
  by (induction cs rule: bump_count.induct) auto

lemma state_counts_inv:
  "distinct (map fst (state_counts ts)) \<and> sum_list (map snd (state_counts ts)) = length ts \<and>
   (\<forall>k. (case map_of (state_counts ts) k of None \<Rightarrow> 0 | Some n \<Rightarrow> n) = length (filter (\<lambda>t. state_of t = k) ts))"
proof (induction ts rule: rev_induct)
  case (snoc t ts)
  have step: "state_counts (ts @ [t]) = bump_count (state_of t) (state_counts ts)" by (simp add: state_counts_def)
  have "(case map_of (state_counts (ts @ [t])) k of None \<Rightarrow> 0 | Some n \<Rightarrow> n) =
        (case map_of (state_counts ts) k of None \<Rightarrow> 0 | Some n \<Rightarrow> n) + (if k = state_of t then 1 else 0)" for k
    unfolding step bump_count_lookup by (simp split: option.split)
  then show ?case
    using snoc bump_count_keys [of "state_counts ts" "state_of t"] bump_count_sum [of "state_of t" "state_counts ts"]
    by (simp add: step)
qed (simp add: state_counts_def)

section \<open>Groups\<close>

text \<open>The groups after some threads: a group per signature frame, its size and its states.\<close>

definition at_frame :: "string \<Rightarrow> thread list \<Rightarrow> thread list" where
  "at_frame f ts = filter (\<lambda>t. signature_frame (t_frames t) = f) ts"

definition group_ok :: "thread list \<Rightarrow> string \<Rightarrow> (nat \<times> string list) option \<Rightarrow> bool" where
  "group_ok ts f g \<longleftrightarrow>
     (if f = [] then g = None
      else case g of
             None \<Rightarrow> at_frame f ts = []
           | Some (n, ss) \<Rightarrow>
               n = length (at_frame f ts) \<and> distinct ss \<and> set ss = t_state ` set (at_frame f ts) - {[]})"

definition groups_ok :: "frame_groups \<Rightarrow> thread list \<Rightarrow> bool" where
  "groups_ok gs ts \<longleftrightarrow> distinct (map fst gs) \<and> (\<forall>f. group_ok ts f (map_of gs f))"

lemma bump_fst: "fst ` set (bump f st gs) = insert f (fst ` set gs)"
  by (induction f st gs rule: bump.induct) auto

lemma bump_distinct: "distinct (map fst gs) \<Longrightarrow> distinct (map fst (bump f st gs))"
proof (induction f st gs rule: bump.induct)
  case (2 f st k c ss gs)
  then show ?case using bump_fst [of f st gs] by auto
qed simp

lemma bump_lookup:
  "map_of (bump f st gs) x =
     (if x = f then Some (case map_of gs f of None \<Rightarrow> (1, note_state st []) | Some (n, ss) \<Rightarrow> (n + 1, note_state st ss))
      else map_of gs x)"
  by (induction f st gs rule: bump.induct) auto

lemma note_state_set: "set (note_state st ss) = set ss \<union> ({st} - {[]})"
  by (auto simp: note_state_def)

lemma note_state_distinct: "distinct ss \<Longrightarrow> distinct (note_state st ss)"
  by (auto simp: note_state_def)

lemma at_frame_snoc:
  "at_frame f (ts @ [t]) = at_frame f ts @ (if f = signature_frame (t_frames t) then [t] else [])"
  by (simp add: at_frame_def)

lemma group_thread_ok:
  assumes "groups_ok gs ts"
  shows "groups_ok (group_thread gs t) (ts @ [t])"
proof (cases "signature_frame (t_frames t) = []")
  case True
  then have "group_ok (ts @ [t]) f g = group_ok ts f g" for f g
    by (cases "f = []"; cases g) (auto simp: group_ok_def at_frame_snoc)
  with True assms show ?thesis by (simp add: groups_ok_def group_thread_def Let_def)
next
  case False
  let ?f = "signature_frame (t_frames t)"
  have old: "group_ok ts f (map_of gs f)" for f using assms by (simp add: groups_ok_def)
  have "group_ok (ts @ [t]) f (map_of (bump ?f (t_state t) gs) f)" for f
  proof (cases "f = ?f")
    case True
    show ?thesis
    proof (cases "map_of gs ?f")
      case None
      with old [of ?f] False have "at_frame ?f ts = []" by (simp add: group_ok_def)
      with None True False show ?thesis
        by (auto simp: group_ok_def at_frame_snoc bump_lookup note_state_def)
    next
      case (Some g)
      obtain n ss where g: "g = (n, ss)" by (cases g)
      with old [of ?f] Some False have "n = length (at_frame ?f ts)" "distinct ss"
        "set ss = t_state ` set (at_frame ?f ts) - {[]}" by (simp_all add: group_ok_def)
      with Some g True False show ?thesis
        by (auto simp: group_ok_def at_frame_snoc bump_lookup note_state_set note_state_distinct)
    qed
  next
    case False
    with old [of f] show ?thesis
      by (cases "map_of gs f") (auto simp: bump_lookup group_ok_def at_frame_snoc)
  qed
  then show ?thesis
    using assms False bump_distinct [of gs ?f "t_state t"] by (simp add: groups_ok_def group_thread_def Let_def)
qed

lemma groups_ok_fold: "groups_ok (foldl group_thread [] ts) ts"
proof (induction ts rule: rev_induct)
  case (snoc t ts)
  then show ?case using group_thread_ok by simp
qed (simp add: groups_ok_def group_ok_def at_frame_def)

section \<open>What is reported\<close>

lemma group_member:
  "(f, n, ss) \<in> set (foldl group_thread [] ts) \<longleftrightarrow> map_of (foldl group_thread [] ts) f = Some (n, ss)"
  using groups_ok_fold [of ts] by (simp add: groups_ok_def)

text \<open>The pile-ups before the cut: exactly one for each frame that three or more threads are at.\<close>

definition all_pileups :: "thread list \<Rightarrow> pileup list" where
  "all_pileups ts =
     sort_key pileup_key
       (map pileup_of (filter (\<lambda>g. pileup_threshold \<le> fst (snd g)) (foldl group_thread [] ts)))"

definition pileup_ok :: "thread list \<Rightarrow> pileup \<Rightarrow> bool" where
  "pileup_ok ts p \<longleftrightarrow>
     pu_frame p \<noteq> [] \<and> pu_count p = length (at_frame (pu_frame p) ts) \<and> pileup_threshold \<le> pu_count p \<and>
     sorted (pu_states p) \<and> distinct (pu_states p) \<and>
     set (pu_states p) = t_state ` set (at_frame (pu_frame p) ts) - {[]}"

lemma all_pileups_ok: "list_all (pileup_ok ts) (all_pileups ts)"
proof -
  have "pileup_ok ts (pileup_of g)"
    if "g \<in> set (foldl group_thread [] ts)" "pileup_threshold \<le> fst (snd g)" for g
  proof -
    obtain f n ss where g: "g = (f, n, ss)" by (cases g)
    with that(1) have "map_of (foldl group_thread [] ts) f = Some (n, ss)" using group_member by blast
    then have "group_ok ts f (Some (n, ss))"
      using groups_ok_fold [of ts] unfolding groups_ok_def by metis
    with that(2) g show ?thesis
      by (auto simp: pileup_ok_def pileup_of_def group_ok_def split: if_splits)
  qed
  then show ?thesis by (auto simp: all_pileups_def list_all_iff)
qed

lemma all_pileups_complete:
  assumes "f \<noteq> []" and "pileup_threshold \<le> length (at_frame f ts)"
  shows "f \<in> pu_frame ` set (all_pileups ts)"
proof -
  have "group_ok ts f (map_of (foldl group_thread [] ts) f)"
    using groups_ok_fold [of ts] by (simp add: groups_ok_def)
  moreover have "at_frame f ts \<noteq> []" using assms(2) by (auto simp: pileup_threshold_def)
  ultimately obtain n ss where "map_of (foldl group_thread [] ts) f = Some (n, ss)" "n = length (at_frame f ts)"
    using assms(1) by (auto simp: group_ok_def split: option.splits)
  then have "(f, n, ss) \<in> set (filter (\<lambda>g. pileup_threshold \<le> fst (snd g)) (foldl group_thread [] ts))"
    using assms(2) group_member by simp
  then have "pileup_of (f, n, ss) \<in> set (all_pileups ts)" unfolding all_pileups_def by force
  then show ?thesis by (rule image_eqI [rotated]) (simp add: pileup_of_def)
qed

lemma all_pileups_frames: "distinct (map pu_frame (all_pileups ts))"
proof -
  have "distinct (map fst (foldl group_thread [] ts))" using groups_ok_fold [of ts] by (simp add: groups_ok_def)
  then have "distinct (map fst (filter (\<lambda>g. pileup_threshold \<le> fst (snd g)) (foldl group_thread [] ts)))"
    by (simp add: distinct_map_filter)
  then have "distinct (map pu_frame (map pileup_of (filter (\<lambda>g. pileup_threshold \<le> fst (snd g)) (foldl group_thread [] ts))))"
    by (simp add: pileup_of_def o_def)
  moreover have "mset (map pu_frame (sort_key pileup_key xs)) = mset (map pu_frame xs)" for xs
    by simp
  ultimately show ?thesis
    unfolding all_pileups_def using mset_eq_imp_distinct_iff by blast
qed

lemma find_pileups_take: "find_pileups ts = take max_pileups (all_pileups ts)"
  by (simp add: find_pileups_def all_pileups_def)

section \<open>Properties\<close>

text \<open>(the pile-ups are the crowded frames) At most ten pile-ups are reported, the most crowded first
  and no frame twice; each counts exactly the threads whose signature is its frame, at least three, and
  lists their states in order; a crowded frame that is not reported gave way to ten that come before it.\<close>

theorem pileups_exact:
  "length (find_pileups ts) \<le> max_pileups \<and> list_all (pileup_ok ts) (find_pileups ts) \<and>
   sorted (map pileup_key (find_pileups ts)) \<and> distinct (map pu_frame (find_pileups ts)) \<and>
   (f = [] \<or> length (at_frame f ts) < pileup_threshold \<or> f \<in> pu_frame ` set (find_pileups ts) \<or>
    length (find_pileups ts) = max_pileups \<and>
    list_all (\<lambda>p. length (at_frame f ts) \<le> pu_count p) (find_pileups ts))"
proof -
  let ?all = "all_pileups ts"
  have sorted: "sorted (map pileup_key ?all)" unfolding all_pileups_def by simp
  have missing: "length (find_pileups ts) = max_pileups \<and>
      list_all (\<lambda>p. length (at_frame f ts) \<le> pu_count p) (find_pileups ts)"
    if f: "f \<noteq> []" "pileup_threshold \<le> length (at_frame f ts)" "f \<notin> pu_frame ` set (find_pileups ts)"
  proof -
    obtain q where q: "q \<in> set ?all" "pu_frame q = f" using all_pileups_complete [OF f(1,2)] by auto
    have "?all = find_pileups ts @ drop max_pileups ?all" by (simp add: find_pileups_take)
    with q f(3) have late: "q \<in> set (drop max_pileups ?all)" by (metis Un_iff image_eqI set_append)
    then have "max_pileups < length ?all" by (cases "max_pileups < length ?all") auto
    moreover have "pileup_key p \<le> pileup_key q" if "p \<in> set (find_pileups ts)" for p
    proof -
      have "sorted (map pileup_key (find_pileups ts) @ map pileup_key (drop max_pileups ?all))"
        using sorted \<open>?all = _\<close> by (metis map_append)
      with that late show ?thesis by (auto simp: sorted_append)
    qed
    moreover have "pu_count q = length (at_frame f ts)"
      using all_pileups_ok [of ts] q by (auto simp: list_all_iff pileup_ok_def)
    ultimately show ?thesis
      by (fastforce simp: find_pileups_take list_all_iff pileup_key_def less_eq_prod_def)
  qed
  have ok: "list_all (pileup_ok ts) (find_pileups ts)"
    using all_pileups_ok [of ts] by (auto simp: find_pileups_take list_all_iff dest: in_set_takeD)
  moreover have "sorted (map pileup_key (find_pileups ts))"
    unfolding find_pileups_take take_map [symmetric] using sorted by (rule sorted_wrt_take)
  moreover have "distinct (map pu_frame (find_pileups ts))"
    unfolding find_pileups_take take_map [symmetric] using all_pileups_frames by (rule distinct_take)
  moreover have "length (find_pileups ts) \<le> max_pileups" by (simp add: find_pileups_take)
  ultimately show ?thesis using missing not_less by blast
qed

text \<open>(a dump always parses, and its parts agree) Parsing yields a dump for every text.  Its threads are
  those of the listing before the deadlock report, its counts add up to them and count each state
  exactly, and its deadlocks include every cycle among them.\<close>

theorem dump_parses:
  "\<exists>d inferred. parse_thread_dump raw = Some d \<and>
     map t_name (td_threads d) = announced (split_on (CHR 0x0A) (fst (split_deadlock_section raw))) \<and>
     distinct (map fst (td_counts d)) \<and> sum_list (map snd (td_counts d)) = length (td_threads d) \<and>
     infer_deadlocks (td_threads d) = Some inferred \<and>
     td_deadlocks d = merge_deadlocks (parse_reported_deadlocks (snd (split_deadlock_section raw))) inferred \<and>
     td_pileups d = find_pileups (td_threads d)"
proof -
  let ?ts = "p_threads (parse_body (fst (split_deadlock_section raw)))"
  obtain inferred where i: "infer_deadlocks ?ts = Some inferred"
    using find_cycles_ok [OF waits_for_range, of ?ts] by (auto simp: infer_deadlocks_def)
  have "map t_name ?ts = announced (split_on (CHR 0x0A) (fst (split_deadlock_section raw)))"
    using parse_body_ok [of "fst (split_deadlock_section raw)"] by (simp add: parser_ok_def parse_body_def)
  then show ?thesis
    using i state_counts_inv [of ?ts]
    by (intro exI [of _ "the (parse_thread_dump raw)"] exI [of _ inferred])
       (simp add: parse_thread_dump_def Let_def split_beta)
qed

end
