(* ===== verification/Heap_Reports.thy ===== *)
theory Heap_Reports
  imports Threads Attach "HOL-Library.Product_Lexorder"
begin

text \<open>
  \<open>internal/jvmdiag/classhistogram.go\<close> and \<open>heapinfo.go\<close>: the class histogram and the heap summary of a
  JVM, the comparison of two histograms, and the bytes behind a size such as \<open>262144K\<close>.  A Go
  \<open>int64\<close> is an \<^typ>\<open>int\<close> with the wrap-around written out by \<open>wrap64\<close> where a sum, a difference or
  a product could leave its range.
\<close>

section \<open>Class histograms\<close>

record class_count =
  cc_rank :: int
  cc_name :: string
  cc_instances :: int
  cc_bytes :: int

record class_histogram =
  ch_classes :: "class_count list"
  ch_instances :: int
  ch_bytes :: int
  ch_count :: nat

definition histogram_row_re :: re where
  "histogram_row_re =
     seqs [star space_re, Group 1 (plus digit_re), lit '':'', plus space_re, Group 2 (plus digit_re),
           plus space_re, Group 3 (plus digit_re), plus space_re, Group 4 (plus (One (\<lambda>c. \<not> re_space c)))]"

definition histogram_total_re :: re where
  "histogram_total_re =
     seqs [lit ''Total'', plus space_re, Group 1 (plus digit_re), plus space_re, Group 2 (plus digit_re)]"

definition empty_histogram :: class_histogram where
  "empty_histogram = \<lparr>ch_classes = [], ch_instances = 0, ch_bytes = 0, ch_count = 0\<rparr>"

definition histogram_line :: "class_histogram \<Rightarrow> string \<Rightarrow> class_histogram" where
  "histogram_line h raw =
     (let line = trim_right (\<lambda>c. c = CHR 0x0D) raw
      in case re_at_start histogram_total_re (trim_space line) of
           Some g \<Rightarrow> h\<lparr>ch_instances := atoi_val (sub g 1), ch_bytes := atoi_val (sub g 2)\<rparr>
         | None \<Rightarrow>
             (case re_at_start histogram_row_re line of
                None \<Rightarrow> h
              | Some g \<Rightarrow>
                  h\<lparr>ch_classes := ch_classes h @
                      [\<lparr>cc_rank = atoi_val (sub g 1), cc_name = sub g 4,
                        cc_instances = atoi_val (sub g 2), cc_bytes = atoi_val (sub g 3)\<rparr>]\<rparr>))"

definition sum64 :: "int \<Rightarrow> int list \<Rightarrow> int" where
  "sum64 = foldl (\<lambda>a b. wrap64 (a + b))"

definition parse_class_histogram :: "string \<Rightarrow> class_histogram" where
  "parse_class_histogram raw =
     (let h0 = foldl histogram_line empty_histogram (split_on (CHR 0x0A) raw);
          h = h0\<lparr>ch_count := length (ch_classes h0)\<rparr>
      in if ch_bytes h = 0
         then h\<lparr>ch_instances := sum64 (ch_instances h) (map cc_instances (ch_classes h)),
                ch_bytes := sum64 (ch_bytes h) (map cc_bytes (ch_classes h))\<rparr>
         else h)"

definition top_classes :: "class_histogram option \<Rightarrow> int \<Rightarrow> class_histogram option" where
  "top_classes oh n =
     map_option (\<lambda>h. if 0 < n \<and> n < int (length (ch_classes h))
                     then h\<lparr>ch_classes := take (nat n) (ch_classes h)\<rparr> else h) oh"

section \<open>The difference of two histograms\<close>

record class_delta =
  cd_name :: string
  cd_instances :: int
  cd_bytes :: int
  cd_instances_delta :: int
  cd_bytes_delta :: int

record histogram_diff =
  hd_growth :: "class_delta list"
  hd_shrink :: "class_delta list"
  hd_total :: int

definition no_class :: class_count where
  "no_class = \<lparr>cc_rank = 0, cc_name = [], cc_instances = 0, cc_bytes = 0\<rparr>"

text \<open>The map from names to the rows of the earlier histogram, as an association list.\<close>

fun put_row :: "(string \<times> class_count) list \<Rightarrow> class_count \<Rightarrow> (string \<times> class_count) list" where
  "put_row [] c = [(cc_name c, c)]"
| "put_row ((k, d) # m) c = (if k = cc_name c then (k, c) # m else (k, d) # put_row m c)"

definition delta_of :: "class_count \<Rightarrow> class_count \<Rightarrow> class_delta" where
  "delta_of prev c =
     \<lparr>cd_name = cc_name c, cd_instances = cc_instances c, cd_bytes = cc_bytes c,
      cd_instances_delta = wrap64 (cc_instances c - cc_instances prev),
      cd_bytes_delta = wrap64 (cc_bytes c - cc_bytes prev)\<rparr>"

definition row_delta ::
  "(string \<times> class_count) list \<times> class_delta list \<Rightarrow> class_count \<Rightarrow> (string \<times> class_count) list \<times> class_delta list" where
  "row_delta s c =
     (case s of (before, ds) \<Rightarrow>
        (filter (\<lambda>(k, _). k \<noteq> cc_name c) before,
         ds @ [delta_of (case map_of before (cc_name c) of None \<Rightarrow> no_class | Some p \<Rightarrow> p) c]))"

definition gone_delta :: "class_count \<Rightarrow> class_delta" where
  "gone_delta c =
     \<lparr>cd_name = cc_name c, cd_instances = 0, cd_bytes = 0,
      cd_instances_delta = wrap64 (- cc_instances c), cd_bytes_delta = wrap64 (- cc_bytes c)\<rparr>"

definition deltas :: "class_count list \<Rightarrow> class_count list \<Rightarrow> class_delta list" where
  "deltas earlier later =
     (case foldl row_delta (foldl put_row [] earlier, []) later of
        (before, ds) \<Rightarrow> ds @ map (\<lambda>(_, c). gone_delta c) before)"

definition growth_key :: "class_delta \<Rightarrow> int \<times> string" where
  "growth_key d = (- cd_bytes_delta d, cd_name d)"

definition shrink_key :: "class_delta \<Rightarrow> int \<times> string" where
  "shrink_key d = (cd_bytes_delta d, cd_name d)"

definition add_delta :: "int \<Rightarrow> class_delta list \<times> class_delta list \<Rightarrow> class_delta \<Rightarrow> class_delta list \<times> class_delta list" where
  "add_delta limit s d =
     (case s of (growth, shrink) \<Rightarrow>
        if 0 < cd_bytes_delta d \<and> (limit \<le> 0 \<or> int (length growth) < limit) then (growth @ [d], shrink)
        else if cd_bytes_delta d < 0 then (growth, shrink @ [d])
        else s)"

definition diff_histograms :: "class_histogram option \<Rightarrow> class_histogram option \<Rightarrow> int \<Rightarrow> histogram_diff option" where
  "diff_histograms oe ol limit =
     (case (oe, ol) of
        (Some earlier, Some later) \<Rightarrow>
          (case foldl (add_delta limit) ([], [])
                  (sort_key growth_key (deltas (ch_classes earlier) (ch_classes later))) of
             (growth, shrink) \<Rightarrow>
               Some \<lparr>hd_growth = growth,
                     hd_shrink = (if 0 < limit then take (nat limit) (sort_key shrink_key shrink)
                                  else sort_key shrink_key shrink),
                     hd_total = wrap64 (ch_bytes later - ch_bytes earlier)\<rparr>)
      | _ \<Rightarrow> None)"

section \<open>Heap summaries\<close>

record pool =
  po_used :: int
  po_committed :: int
  po_reserved :: int

record region =
  rg_name :: string
  rg_total :: int
  rg_percent :: string

record heap_info =
  hi_collector :: string
  hi_total :: int
  hi_used :: int
  hi_metaspace :: "pool option"
  hi_class_space :: "pool option"
  hi_regions :: "region list"

definition suffix_re :: re where
  "suffix_re = opt (One (\<lambda>c. c \<in> {CHR ''K'', CHR ''M'', CHR ''G''}))"

definition heap_line_re :: re where
  "heap_line_re =
     seqs [Group 1 (Seq (One (\<lambda>c. \<not> re_space c)) (star_lazy dot)), plus space_re, lit ''total'', plus space_re,
           Group 2 (plus digit_re), Group 3 suffix_re, lit '','', plus space_re, lit ''used'', plus space_re,
           Group 4 (plus digit_re), Group 5 suffix_re]"

definition pool_line_re :: re where
  "pool_line_re =
     seqs [Group 1 (Alt (lit ''Metaspace'') (lit ''class space'')), plus space_re, lit ''used'', plus space_re,
           Group 2 (plus digit_re), Group 3 suffix_re, lit '','', plus space_re, lit ''committed'', plus space_re,
           Group 4 (plus digit_re), Group 5 suffix_re, lit '','', plus space_re, lit ''reserved'', plus space_re,
           Group 6 (plus digit_re), Group 7 suffix_re]"

definition region_line_re :: re where
  "region_line_re =
     seqs [Group 1 (Seq (One is_word) (star_lazy (One (\<lambda>c. is_word c \<or> c = CHR '' '')))), plus space_re,
           lit ''space'', plus space_re, Group 2 (plus digit_re), Group 3 suffix_re, lit '','', plus space_re,
           Group 4 (plus digit_re), lit ''%'', plus space_re, lit ''used'']"

text \<open>\<open>strconv.ParseInt\<close> of digits, which fails beyond 64 bits, and the scaled size.\<close>

definition scale_size :: "string \<Rightarrow> string \<Rightarrow> int" where
  "scale_size digits suffix =
     (case atoi digits of
        None \<Rightarrow> 0
      | Some n \<Rightarrow>
          if suffix = ''K'' then wrap64 (n * 1024)
          else if suffix = ''M'' then wrap64 (wrap64 (n * 1024) * 1024)
          else if suffix = ''G'' then wrap64 (wrap64 (wrap64 (n * 1024) * 1024) * 1024)
          else n)"

definition empty_heap_info :: heap_info where
  "empty_heap_info =
     \<lparr>hi_collector = [], hi_total = 0, hi_used = 0, hi_metaspace = None, hi_class_space = None, hi_regions = []\<rparr>"

definition heap_line :: "heap_info \<Rightarrow> string \<Rightarrow> heap_info" where
  "heap_line h raw =
     (let t = trim_space (trim_right (\<lambda>c. c = CHR 0x0D) raw)
      in if t = [] then h
         else case re_at_start pool_line_re t of
           Some g \<Rightarrow>
             (let p = \<lparr>po_used = scale_size (sub g 2) (sub g 3), po_committed = scale_size (sub g 4) (sub g 5),
                       po_reserved = scale_size (sub g 6) (sub g 7)\<rparr>
              in if sub g 1 = ''Metaspace'' then h\<lparr>hi_metaspace := Some p\<rparr> else h\<lparr>hi_class_space := Some p\<rparr>)
         | None \<Rightarrow>
             (case re_at_start region_line_re t of
                Some g \<Rightarrow>
                  h\<lparr>hi_regions := hi_regions h @
                      [\<lparr>rg_name = trim_space (sub g 1), rg_total = scale_size (sub g 2) (sub g 3), rg_percent = sub g 4\<rparr>]\<rparr>
              | None \<Rightarrow>
                  if hi_total h \<noteq> 0 then h
                  else case re_at_start heap_line_re t of
                         None \<Rightarrow> h
                       | Some g \<Rightarrow>
                           h\<lparr>hi_collector := trim_space (sub g 1), hi_total := scale_size (sub g 2) (sub g 3),
                             hi_used := scale_size (sub g 4) (sub g 5)\<rparr>))"

definition parse_heap_info :: "string \<Rightarrow> heap_info" where
  "parse_heap_info raw = foldl heap_line empty_heap_info (split_on (CHR 0x0A) raw)"

section \<open>Lemmas\<close>

lemma atoi_val_range: "in_int64 (atoi_val s)"
  by (auto simp: atoi_val_def in_int64_def Let_def split: list.splits)

text \<open>A row as the expressions capture it.\<close>

definition row_ok :: "class_count \<Rightarrow> bool" where
  "row_ok c \<longleftrightarrow>
     cc_name c \<noteq> [] \<and> list_all (\<lambda>x. \<not> re_space x) (cc_name c) \<and>
     0 \<le> cc_rank c \<and> 0 \<le> cc_instances c \<and> 0 \<le> cc_bytes c \<and> in_int64 (cc_instances c) \<and> in_int64 (cc_bytes c)"

lemma row_group_digits:
  assumes "re_at_start histogram_row_re line = Some g" and "k \<in> {1, 2, 3}"
  shows "list_all is_digit (sub g k)"
proof -
  have "lang (plus digit_re) (sub g k)"
    by (rule at_start_sub [OF assms(1)]) (use assms(2) in \<open>auto simp: histogram_row_re_def\<close>)
  then show ?thesis by (simp add: digit_re_def)
qed

lemma row_group_name:
  assumes "re_at_start histogram_row_re line = Some g"
  shows "sub g 4 \<noteq> [] \<and> list_all (\<lambda>x. \<not> re_space x) (sub g 4)"
proof -
  have "lang (plus (One (\<lambda>c. \<not> re_space c))) (sub g 4)"
    by (rule at_start_sub [OF assms]) (simp_all add: histogram_row_re_def)
  then show ?thesis by simp
qed

lemma total_group_digits:
  assumes "re_at_start histogram_total_re line = Some g" and "k \<in> {1, 2}"
  shows "list_all is_digit (sub g k)"
proof -
  have "lang (plus digit_re) (sub g k)"
    by (rule at_start_sub [OF assms(1)]) (use assms(2) in \<open>auto simp: histogram_total_re_def\<close>)
  then show ?thesis by (simp add: digit_re_def)
qed

definition histogram_ok :: "class_histogram \<Rightarrow> bool" where
  "histogram_ok h \<longleftrightarrow>
     list_all row_ok (ch_classes h) \<and> in_int64 (ch_instances h) \<and> in_int64 (ch_bytes h)"

lemma histogram_line_ok:
  assumes "histogram_ok h"
  shows "histogram_ok (histogram_line h raw)"
proof -
  let ?l = "trim_right (\<lambda>c. c = CHR 0x0D) raw"
  show ?thesis
  proof (cases "re_at_start histogram_total_re (trim_space ?l)")
    case (Some g)
    with assms show ?thesis by (simp add: histogram_line_def histogram_ok_def atoi_val_range)
  next
    case no_total: None
    show ?thesis
    proof (cases "re_at_start histogram_row_re ?l")
      case None
      with no_total assms show ?thesis by (simp add: histogram_line_def)
    next
      case (Some g)
      have "0 \<le> atoi_val (sub g 1)" "0 \<le> atoi_val (sub g 2)" "0 \<le> atoi_val (sub g 3)"
        using row_group_digits [OF Some] atoi_val_digits by auto
      then have "row_ok \<lparr>cc_rank = atoi_val (sub g 1), cc_name = sub g 4,
                        cc_instances = atoi_val (sub g 2), cc_bytes = atoi_val (sub g 3)\<rparr>"
        using row_group_name [OF Some] by (simp add: row_ok_def atoi_val_range)
      with no_total Some assms show ?thesis
        unfolding histogram_line_def Let_def by (simp add: histogram_ok_def)
    qed
  qed
qed

lemma sum64_range: "in_int64 a \<Longrightarrow> in_int64 (sum64 a xs)"
  unfolding sum64_def by (induction xs arbitrary: a) simp_all

text \<open>A wrapped sum is the sum itself when all the partial sums fit.\<close>

lemma sum64_exact: "list_all (\<lambda>x. 0 \<le> x) xs \<Longrightarrow> 0 \<le> a \<Longrightarrow> a + sum_list xs < 2 ^ 63 \<Longrightarrow> sum64 a xs = a + sum_list xs"
proof (induction xs arbitrary: a)
  case (Cons x xs)
  have "0 \<le> sum_list xs" using Cons.prems(1) by (intro sum_list_nonneg) (auto simp: list_all_iff)
  then have "wrap64 (a + x) = a + x" using Cons.prems by (intro wrap64_id) (simp add: in_int64_def)
  with Cons.IH [of "a + x"] Cons.prems show ?case by (simp add: sum64_def)
qed (simp add: sum64_def)

lemma histogram_fold_ok: "histogram_ok h \<Longrightarrow> histogram_ok (foldl histogram_line h ls)"
  by (induction ls arbitrary: h) (simp_all add: histogram_line_ok)

lemma parse_histogram_ok: "histogram_ok (parse_class_histogram raw)"
proof -
  have "histogram_ok (foldl histogram_line empty_histogram (split_on (CHR 0x0A) raw))"
    by (rule histogram_fold_ok) (simp add: histogram_ok_def empty_histogram_def in_int64_def)
  then show ?thesis by (simp add: parse_class_histogram_def histogram_ok_def Let_def sum64_range)
qed

section \<open>Differences\<close>

definition row_named :: "class_count list \<Rightarrow> string \<Rightarrow> class_count" where
  "row_named cs n = (case map_of (map (\<lambda>c. (cc_name c, c)) cs) n of None \<Rightarrow> no_class | Some c \<Rightarrow> c)"

lemma put_row_new: "cc_name c \<notin> fst ` set m \<Longrightarrow> put_row m c = m @ [(cc_name c, c)]"
  by (induction m c rule: put_row.induct) auto

lemma put_rows_distinct:
  "distinct (map cc_name cs) \<Longrightarrow> foldl put_row [] cs = map (\<lambda>c. (cc_name c, c)) cs"
proof (induction cs rule: rev_induct)
  case (snoc c cs)
  then have "cc_name c \<notin> fst ` set (map (\<lambda>c. (cc_name c, c)) cs)" by auto
  with snoc show ?case by (simp add: put_row_new)
qed simp

lemma map_of_filter_keys: "map_of (filter (\<lambda>(k, _). P k) m) k = (if P k then map_of m k else None)"
  by (induction m) auto

lemma row_deltas:
  "distinct (map cc_name ls) \<Longrightarrow>
   foldl row_delta (before, ds) ls =
     (filter (\<lambda>(k, _). k \<notin> cc_name ` set ls) before,
      ds @ map (\<lambda>c. delta_of (case map_of before (cc_name c) of None \<Rightarrow> no_class | Some p \<Rightarrow> p) c) ls)"
proof (induction ls arbitrary: before ds)
  case (Cons c ls)
  let ?b = "filter (\<lambda>(k, _). k \<noteq> cc_name c) before"
  have "map_of ?b (cc_name x) = map_of before (cc_name x)" if "x \<in> set ls" for x
  proof -
    have "cc_name x \<noteq> cc_name c" using Cons.prems that by (auto simp: image_iff)
    then show ?thesis by (simp add: map_of_filter_keys)
  qed
  then have "map (\<lambda>x. delta_of (case map_of ?b (cc_name x) of None \<Rightarrow> no_class | Some p \<Rightarrow> p) x) ls =
      map (\<lambda>x. delta_of (case map_of before (cc_name x) of None \<Rightarrow> no_class | Some p \<Rightarrow> p) x) ls"
    by (intro map_cong) simp_all
  moreover have "filter (\<lambda>(k, _). k \<notin> cc_name ` set ls) ?b = filter (\<lambda>(k, _). k \<notin> cc_name ` set (c # ls)) before"
    by (auto simp: filter_filter intro!: filter_cong)
  ultimately show ?case using Cons.IH [of ?b] Cons.prems by (simp add: row_delta_def)
qed simp

lemma deltas_distinct:
  assumes "distinct (map cc_name es)" and "distinct (map cc_name ls)"
  shows "deltas es ls = map (\<lambda>c. delta_of (row_named es (cc_name c)) c) ls @
           map gone_delta (filter (\<lambda>c. cc_name c \<notin> cc_name ` set ls) es)"
  using assms by (simp add: deltas_def put_rows_distinct row_deltas row_named_def filter_map o_def)

lemma add_deltas:
  "foldl (add_delta limit) (g, s) ds =
     (if 0 < limit then g @ take (nat limit - length g) (filter (\<lambda>d. 0 < cd_bytes_delta d) ds)
      else g @ filter (\<lambda>d. 0 < cd_bytes_delta d) ds,
      s @ filter (\<lambda>d. cd_bytes_delta d < 0) ds)"
proof (induction ds arbitrary: g s)
  case (Cons d ds)
  show ?case
  proof (cases "0 < cd_bytes_delta d")
    case pos: True
    show ?thesis
    proof (cases "limit \<le> 0 \<or> int (length g) < limit")
      case True
      have "nat limit - length g = Suc (nat limit - Suc (length g))" if "0 < limit"
        using True that by linarith
      with Cons.IH [of "g @ [d]" s] pos True show ?thesis by (auto simp: add_delta_def)
    next
      case False
      then have "nat limit - length g = 0" by linarith
      with Cons.IH [of g s] pos False show ?thesis by (auto simp: add_delta_def)
    qed
  next
    case False
    with Cons.IH show ?thesis by (auto simp: add_delta_def)
  qed
qed simp

definition cut_to :: "int \<Rightarrow> 'a list \<Rightarrow> 'a list" where
  "cut_to limit xs = (if 0 < limit then take (nat limit) xs else xs)"

lemma sort_key_filter: "filter P (sort_key f xs) = sort_key f (filter P xs)"
  by (simp add: filter_sort)

lemma diff_parts:
  "diff_histograms (Some e) (Some l) limit =
     Some \<lparr>hd_growth = cut_to limit (sort_key growth_key (filter (\<lambda>d. 0 < cd_bytes_delta d) (deltas (ch_classes e) (ch_classes l)))),
           hd_shrink = cut_to limit (sort_key shrink_key (sort_key growth_key
                         (filter (\<lambda>d. cd_bytes_delta d < 0) (deltas (ch_classes e) (ch_classes l))))),
           hd_total = wrap64 (ch_bytes l - ch_bytes e)\<rparr>"
  by (simp add: diff_histograms_def add_deltas cut_to_def sort_key_filter)

section \<open>Properties\<close>

text \<open>(what is kept of a histogram) Parsing any text yields rows with a name and with counts that are
  not negative and fit 64 bits; keeping the heaviest \<open>n\<close> keeps the totals and the class count and at most
  \<open>n\<close> rows, the first ones.\<close>

theorem histogram_shape:
  "histogram_ok (parse_class_histogram raw) \<and> ch_count (parse_class_histogram raw) = length (ch_classes (parse_class_histogram raw)) \<and>
   (case top_classes (Some (parse_class_histogram raw)) n of
      None \<Rightarrow> False
    | Some h \<Rightarrow> ch_bytes h = ch_bytes (parse_class_histogram raw) \<and> ch_instances h = ch_instances (parse_class_histogram raw) \<and>
        ch_count h = ch_count (parse_class_histogram raw) \<and> ch_classes h = cut_to n (ch_classes (parse_class_histogram raw)))"
  using parse_histogram_ok [of raw]
  by (auto simp: top_classes_def cut_to_def parse_class_histogram_def Let_def)

lemma delta_bytes:
  assumes "row_ok c" and "row_ok p \<or> p = no_class"
  shows "cd_bytes_delta (delta_of p c) = cc_bytes c - cc_bytes p"
  using assms by (auto simp: delta_of_def row_ok_def in_int64_def no_class_def intro!: wrap64_id)

lemma gone_bytes: "row_ok c \<Longrightarrow> cd_bytes_delta (gone_delta c) = - cc_bytes c"
  by (auto simp: gone_delta_def row_ok_def in_int64_def intro!: wrap64_id)

lemma row_named_cases: "row_named es n \<in> set es \<and> cc_name (row_named es n) = n \<or> row_named es n = no_class \<and> n \<notin> cc_name ` set es"
proof (cases "map_of (map (\<lambda>c. (cc_name c, c)) es) n")
  case None
  then have "row_named es n = no_class" unfolding row_named_def None by simp
  moreover from None have "n \<notin> cc_name ` set es" by (auto simp: map_of_eq_None_iff image_image)
  ultimately show ?thesis by simp
next
  case (Some c)
  then have "(n, c) \<in> set (map (\<lambda>c. (cc_name c, c)) es)" by (rule map_of_SomeD)
  moreover have "row_named es n = c" unfolding row_named_def Some by simp
  ultimately show ?thesis by auto
qed

lemma sum_rows_named:
  assumes "distinct (map cc_name es)" and "distinct (map cc_name ls)"
  shows "(\<Sum>c\<leftarrow>ls. cc_bytes (row_named es (cc_name c))) + (\<Sum>c\<leftarrow>filter (\<lambda>c. cc_name c \<notin> cc_name ` set ls) es. cc_bytes c) =
         (\<Sum>c\<leftarrow>es. cc_bytes c)"
  using assms(2)
proof (induction ls)
  case (Cons l ls)
  let ?P = "\<lambda>c. cc_name c \<notin> cc_name ` set ls" and ?Q = "\<lambda>c. cc_name c \<notin> cc_name ` set (l # ls)"
  have "(\<Sum>c\<leftarrow>filter ?P es. cc_bytes c) = cc_bytes (row_named es (cc_name l)) + (\<Sum>c\<leftarrow>filter ?Q es. cc_bytes c)"
  proof (cases "cc_name l \<in> cc_name ` set es")
    case True
    then obtain c where c: "c \<in> set es" "cc_name c = cc_name l" by auto
    then obtain xs ys where es: "es = xs @ c # ys" by (meson split_list)
    have "row_named es (cc_name l) = c"
      using c assms(1) row_named_cases [of es "cc_name l"] unfolding distinct_map by (metis image_eqI inj_onD)
    moreover have "filter ?P xs = filter ?Q xs" "filter ?P ys = filter ?Q ys"
      using assms(1) c by (auto simp: es image_iff intro!: filter_cong)
    ultimately show ?thesis using c Cons.prems by (simp add: es)
  next
    case False
    then have "row_named es (cc_name l) = no_class" using row_named_cases [of es "cc_name l"] by (metis image_eqI)
    moreover have "filter ?P es = filter ?Q es" using False by (intro filter_cong) (auto simp: image_iff)
    ultimately show ?thesis by (simp add: no_class_def)
  qed
  with Cons show ?case by simp
qed simp

definition bytes_of_class :: "class_count list \<Rightarrow> string \<Rightarrow> int" where
  "bytes_of_class cs n = cc_bytes (row_named cs n)"

definition rows_ok :: "class_count list \<Rightarrow> bool" where
  "rows_ok cs \<longleftrightarrow> list_all row_ok cs \<and> distinct (map cc_name cs)"

lemma row_named_ok: "rows_ok cs \<Longrightarrow> row_ok (row_named cs n) \<or> row_named cs n = no_class"
  using row_named_cases [of cs n] by (auto simp: rows_ok_def list_all_iff)

lemma row_named_self: "rows_ok cs \<Longrightarrow> c \<in> set cs \<Longrightarrow> row_named cs (cc_name c) = c"
  using row_named_cases [of cs "cc_name c"] unfolding rows_ok_def distinct_map by (metis image_eqI inj_onD)

lemma deltas_set:
  assumes e: "rows_ok es" and l: "rows_ok ls"
  shows "(\<lambda>d. (cd_name d, cd_bytes_delta d)) ` set (deltas es ls) =
    (\<lambda>n. (n, bytes_of_class ls n - bytes_of_class es n)) ` (cc_name ` set es \<union> cc_name ` set ls)"
proof -
  have later: "(cd_name (delta_of (row_named es (cc_name c)) c), cd_bytes_delta (delta_of (row_named es (cc_name c)) c)) =
      (cc_name c, bytes_of_class ls (cc_name c) - bytes_of_class es (cc_name c))" if "c \<in> set ls" for c
  proof -
    have "row_ok c" using l that by (simp add: rows_ok_def list_all_iff)
    then show ?thesis using delta_bytes [OF _ row_named_ok [OF e]] row_named_self [OF l that]
      by (simp add: bytes_of_class_def) (simp add: delta_of_def)
  qed
  have gone: "(cd_name (gone_delta c), cd_bytes_delta (gone_delta c)) =
      (cc_name c, bytes_of_class ls (cc_name c) - bytes_of_class es (cc_name c))"
    if "c \<in> set es" "cc_name c \<notin> cc_name ` set ls" for c
  proof -
    have "row_ok c" using e that by (simp add: rows_ok_def list_all_iff)
    moreover have "row_named ls (cc_name c) = no_class" using row_named_cases [of ls "cc_name c"] that(2) by (metis image_eqI)
    ultimately show ?thesis using gone_bytes row_named_self [OF e that(1)]
      by (simp add: bytes_of_class_def no_class_def) (simp add: gone_delta_def)
  qed
  let ?f = "\<lambda>n. (n, bytes_of_class ls n - bytes_of_class es n)"
  let ?g = "\<lambda>d. (cd_name d, cd_bytes_delta d)"
  have "?g ` set (deltas es ls) = (\<lambda>c. ?g (delta_of (row_named es (cc_name c)) c)) ` set ls \<union>
      (\<lambda>c. ?g (gone_delta c)) ` {c \<in> set es. cc_name c \<notin> cc_name ` set ls}"
    using deltas_distinct [of es ls] e l by (simp add: rows_ok_def image_Un image_image)
  also have "(\<lambda>c. ?g (delta_of (row_named es (cc_name c)) c)) ` set ls = ?f ` (cc_name ` set ls)"
    unfolding image_image by (intro image_cong refl later)
  also have "(\<lambda>c. ?g (gone_delta c)) ` {c \<in> set es. cc_name c \<notin> cc_name ` set ls} =
      ?f ` (cc_name ` {c \<in> set es. cc_name c \<notin> cc_name ` set ls})"
    unfolding image_image by (intro image_cong refl gone) auto
  finally have "?g ` set (deltas es ls) =
      ?f ` (cc_name ` set ls \<union> cc_name ` {c \<in> set es. cc_name c \<notin> cc_name ` set ls})"
    by (simp only: image_Un)
  also have "cc_name ` set ls \<union> cc_name ` {c \<in> set es. cc_name c \<notin> cc_name ` set ls} =
      cc_name ` set es \<union> cc_name ` set ls" by blast
  finally show ?thesis .
qed

lemma sum_list_neg: "(\<Sum>x\<leftarrow>xs. - f x) = - (\<Sum>x\<leftarrow>xs. f x :: int)"
  by (induction xs) simp_all

lemma deltas_sum:
  assumes e: "rows_ok es" and l: "rows_ok ls"
  shows "(\<Sum>d\<leftarrow>deltas es ls. cd_bytes_delta d) = (\<Sum>c\<leftarrow>ls. cc_bytes c) - (\<Sum>c\<leftarrow>es. cc_bytes c)"
proof -
  have later: "map (\<lambda>c. cd_bytes_delta (delta_of (row_named es (cc_name c)) c)) ls =
      map (\<lambda>c. cc_bytes c - cc_bytes (row_named es (cc_name c))) ls"
    using l delta_bytes [OF _ row_named_ok [OF e]] by (intro map_cong) (simp_all add: rows_ok_def list_all_iff)
  have gone: "map (\<lambda>c. cd_bytes_delta (gone_delta c)) (filter P es) = map (\<lambda>c. - cc_bytes c) (filter P es)" for P
    using e gone_bytes by (intro map_cong) (simp_all add: rows_ok_def list_all_iff)
  have "(\<Sum>d\<leftarrow>deltas es ls. cd_bytes_delta d) =
      (\<Sum>c\<leftarrow>ls. cc_bytes c - cc_bytes (row_named es (cc_name c))) +
      (\<Sum>c\<leftarrow>filter (\<lambda>c. cc_name c \<notin> cc_name ` set ls) es. - cc_bytes c)"
    using deltas_distinct [of es ls] e l by (simp add: rows_ok_def o_def later gone)
  then show ?thesis
    using sum_rows_named [of es ls] e l by (simp add: rows_ok_def sum_list_subtractf sum_list_neg)
qed

lemma filtered_set:
  assumes "rows_ok es" and "rows_ok ls" and "\<not> P 0"
  shows "(\<lambda>d. (cd_name d, cd_bytes_delta d)) ` set (filter (\<lambda>d. P (cd_bytes_delta d)) (deltas es ls)) =
    {(n, bytes_of_class ls n - bytes_of_class es n) | n. P (bytes_of_class ls n - bytes_of_class es n)}"
proof -
  have zero: "bytes_of_class cs n = 0" if "n \<notin> cc_name ` set cs" for cs n
    using row_named_cases [of cs n] that by (auto simp: bytes_of_class_def no_class_def) (metis image_eqI)
  have "(\<lambda>d. (cd_name d, cd_bytes_delta d)) ` set (filter (\<lambda>d. P (cd_bytes_delta d)) (deltas es ls)) =
      {x \<in> (\<lambda>d. (cd_name d, cd_bytes_delta d)) ` set (deltas es ls). P (snd x)}" by auto
  also have "\<dots> = {(n, bytes_of_class ls n - bytes_of_class es n) | n. P (bytes_of_class ls n - bytes_of_class es n)}"
  proof -
    have "n \<in> cc_name ` set es \<union> cc_name ` set ls" if "P (bytes_of_class ls n - bytes_of_class es n)" for n
    proof (rule ccontr)
      assume "n \<notin> cc_name ` set es \<union> cc_name ` set ls"
      then have "bytes_of_class es n = 0" "bytes_of_class ls n = 0" using zero by blast+
      with that assms(3) show False by simp
    qed
    then show ?thesis unfolding deltas_set [OF assms(1,2)] by auto
  qed
  finally show ?thesis .
qed

text \<open>(the difference is the change) For two histograms that name each class once, the sum of all
  deltas is the change of the summed sizes, and the difference lists exactly the classes that grew and
  those that shrank with the change of each, the largest change first, up to the limit.\<close>

theorem diff_exact:
  assumes "rows_ok (ch_classes e)" and "rows_ok (ch_classes l)"
  shows "(\<Sum>d\<leftarrow>deltas (ch_classes e) (ch_classes l). cd_bytes_delta d) =
           (\<Sum>c\<leftarrow>ch_classes l. cc_bytes c) - (\<Sum>c\<leftarrow>ch_classes e. cc_bytes c) \<and>
    (\<exists>G S. diff_histograms (Some e) (Some l) limit =
             Some \<lparr>hd_growth = cut_to limit G, hd_shrink = cut_to limit S, hd_total = wrap64 (ch_bytes l - ch_bytes e)\<rparr> \<and>
           sorted (map growth_key G) \<and> sorted (map shrink_key S) \<and>
           (\<lambda>d. (cd_name d, cd_bytes_delta d)) ` set G =
             {(n, bytes_of_class (ch_classes l) n - bytes_of_class (ch_classes e) n) | n.
                bytes_of_class (ch_classes e) n < bytes_of_class (ch_classes l) n} \<and>
           (\<lambda>d. (cd_name d, cd_bytes_delta d)) ` set S =
             {(n, bytes_of_class (ch_classes l) n - bytes_of_class (ch_classes e) n) | n.
                bytes_of_class (ch_classes l) n < bytes_of_class (ch_classes e) n})"
proof (intro conjI exI)
  show "(\<Sum>d\<leftarrow>deltas (ch_classes e) (ch_classes l). cd_bytes_delta d) =
      (\<Sum>c\<leftarrow>ch_classes l. cc_bytes c) - (\<Sum>c\<leftarrow>ch_classes e. cc_bytes c)"
    using assms by (rule deltas_sum)
qed (rule diff_parts, use filtered_set [OF assms, of "\<lambda>x. 0 < x"] filtered_set [OF assms, of "\<lambda>x. x < 0"] in simp_all)

theorem diff_exact_witness:
  "(\<Sum>d\<leftarrow>deltas [\<lparr>cc_rank = 1, cc_name = ''A'', cc_instances = 1, cc_bytes = 10\<rparr>]
                 [\<lparr>cc_rank = 1, cc_name = ''B'', cc_instances = 2, cc_bytes = 30\<rparr>]. cd_bytes_delta d) = 20"
proof -
  let ?e = "empty_histogram\<lparr>ch_classes := [\<lparr>cc_rank = 1, cc_name = ''A'', cc_instances = 1, cc_bytes = 10\<rparr>]\<rparr>"
  let ?l = "empty_histogram\<lparr>ch_classes := [\<lparr>cc_rank = 1, cc_name = ''B'', cc_instances = 2, cc_bytes = 30\<rparr>]\<rparr>"
  have "rows_ok (ch_classes ?e)" "rows_ok (ch_classes ?l)"
    by (simp_all add: rows_ok_def row_ok_def in_int64_def re_space_def)
  from diff_exact [OF this] show ?thesis by simp
qed

text \<open>(rows of equal name)  A class that two loaders have loaded has two rows of the same name, and the
  comparison keeps one of the earlier ones only: a histogram compared with itself shows growth.\<close>

theorem equal_histograms_differ:
  "map_option (\<lambda>d. (map cd_bytes_delta (hd_growth d), map cd_bytes_delta (hd_shrink d), hd_total d))
     (let h = parse_class_histogram ('' 1: 2 30 com.Foo'' @ [CHR 0x0A] @ '' 2: 1 20 com.Foo'')
      in diff_histograms (Some h) (Some h) 10) = Some ([20, 10], [], 0)"
  by code_simp

end
