(* ===== verification/Attach_Runner.thy ===== *)
theory Attach_Runner
  imports Attach Go_Path
begin

text \<open>
  How a handshake is carried out: \<open>internal/attach/attach_linux.go\<close> (the trigger files and the
  connection), \<open>internal/attach/privdrop_linux.go\<close> (becoming the target's user),
  \<open>internal/attach/runner.go\<close> (in this process, or through the helper) and
  \<open>cmd/apm2go-attach-helper/main.go\<close> (the helper itself, its command line included).  What the kernel,
  the file system and the target answer are arguments; the effects come out as a list in their order.
\<close>

section \<open>Connecting\<close>

datatype created = Made | AlreadyThere | OpenFailed | CloseFailed

datatype connect_effect = Dial string | Create string | Quit int | Poll string | Unlink string

datatype connect_error = NoTrigger | NoSignal | NeverOpened

definition attach_socket_path :: "attach_options \<Rightarrow> string" where
  "attach_socket_path o1 =
     path_join [o_proc_root o1, itoa (o_pid o1), ''root'', ''tmp'', ''.java_pid'' @ itoa (o_nspid o1)]"

definition trigger_file_paths :: "attach_options \<Rightarrow> string list" where
  "trigger_file_paths o1 =
     (let base = path_join [o_proc_root o1, itoa (o_pid o1)]; name = ''.attach_pid'' @ itoa (o_nspid o1)
      in [path_join [base, ''cwd'', name], path_join [base, ''root'', ''tmp'', name]])"

text \<open>The files made, how many locations are usable, and the effects.\<close>

fun create_trigger_files :: "(string \<Rightarrow> created) \<Rightarrow> string list \<Rightarrow> string list \<times> nat \<times> connect_effect list" where
  "create_trigger_files fs [] = ([], 0, [])"
| "create_trigger_files fs (p # ps) =
     (case create_trigger_files fs ps of (made, usable, effs) \<Rightarrow>
        (case fs p of
           Made \<Rightarrow> (p # made, usable + 1, Create p # effs)
         | AlreadyThere \<Rightarrow> (made, usable + 1, Create p # effs)
         | OpenFailed \<Rightarrow> (made, usable, Create p # effs)
         | CloseFailed \<Rightarrow> (made, usable, Create p # Unlink p # effs)))"

text \<open>Polling for the socket until a dial succeeds or the deadline passes: the dials of the ticks.\<close>

fun wait_for_socket :: "string \<Rightarrow> bool list \<Rightarrow> bool \<times> connect_effect list" where
  "wait_for_socket path [] = (False, [])"
| "wait_for_socket path (ok # ticks) =
     (if ok then (True, [Poll path])
      else case wait_for_socket path ticks of (r, effs) \<Rightarrow> (r, Poll path # effs))"

definition connect :: "bool \<Rightarrow> (string \<Rightarrow> created) \<Rightarrow> bool \<Rightarrow> bool list \<Rightarrow> attach_options \<Rightarrow> (connect_error + unit) \<times> connect_effect list" where
  "connect up fs kill_ok ticks o1 =
     (let sock = attach_socket_path o1
      in if up then (Inr (), [Dial sock])
         else case create_trigger_files fs (trigger_file_paths o1) of (made, usable, effs) \<Rightarrow>
           if usable = 0 then (Inl NoTrigger, Dial sock # effs)
           else if \<not> kill_ok then (Inl NoSignal, Dial sock # effs @ Quit (o_pid o1) # map Unlink made)
           else case wait_for_socket sock ticks of (ok, polls) \<Rightarrow>
             (if ok then Inr () else Inl NeverOpened, Dial sock # effs @ Quit (o_pid o1) # polls @ map Unlink made))"

section \<open>Becoming the target's user\<close>

datatype syscall = KeepCaps | SetGid int | SetUid int | CapGet | CapSetPtrace

definition drop_steps :: "int \<Rightarrow> int \<Rightarrow> syscall list" where
  "drop_steps uid gid = [KeepCaps, SetGid gid, SetUid uid, CapGet, CapSetPtrace]"

text \<open>The calls made, up to the first that fails, and whether all succeeded.\<close>

fun run_steps :: "(syscall \<Rightarrow> bool) \<Rightarrow> syscall list \<Rightarrow> syscall list \<times> bool" where
  "run_steps kern [] = ([], True)"
| "run_steps kern (c # cs) =
     (if kern c then (case run_steps kern cs of (made, ok) \<Rightarrow> (c # made, ok)) else ([c], False))"

definition drop_privileges :: "(syscall \<Rightarrow> bool) \<Rightarrow> int \<Rightarrow> int \<Rightarrow> syscall list \<times> bool" where
  "drop_privileges kern uid gid =
     (if uid < 0 \<or> gid < 0 then ([], False) else run_steps kern (drop_steps uid gid))"

section \<open>The helper's command line\<close>

text \<open>\<open>flag.Parse\<close> with the flags the helper declares, all of which take a value.\<close>

definition helper_flags :: "string list" where
  "helper_flags = [''proc-root'', ''pid'', ''nspid'', ''uid'', ''gid'', ''jar'', ''options'', ''jcmd'', ''max-response'', ''timeout'']"

fun parse_flags :: "string list \<Rightarrow> (string \<times> string) list option" where
  "parse_flags [] = Some []"
| "parse_flags (a # as) =
     (if \<not> has_prefix a ''-'' \<or> length a < 2 then Some []
      else if a = ''--'' then Some []
      else let body = (if has_prefix a ''--'' then drop 2 a else drop 1 a)
           in if has_prefix body ''-'' \<or> has_prefix body ''='' then None
              else case cut (CHR ''='') body of
                (name, val, has_val) \<Rightarrow>
                  if name \<notin> set helper_flags then None
                  else if has_val then map_option (\<lambda>fs. (name, val) # fs) (parse_flags as)
                  else case as of
                         [] \<Rightarrow> None
                       | v # rest \<Rightarrow> map_option (\<lambda>fs. (name, v) # fs) (parse_flags rest))"

definition flag_text :: "(string \<times> string) list \<Rightarrow> string \<Rightarrow> string \<Rightarrow> string" where
  "flag_text fs name dflt = (case map_of (rev fs) name of None \<Rightarrow> dflt | Some v \<Rightarrow> v)"

text \<open>A decimal number, as \<open>strconv.Itoa\<close> prints it.\<close>

definition flag_int :: "(string \<times> string) list \<Rightarrow> string \<Rightarrow> int \<Rightarrow> int option" where
  "flag_int fs name dflt = (case map_of (rev fs) name of None \<Rightarrow> Some dflt | Some v \<Rightarrow> atoi v)"

definition flag_duration :: "(string \<Rightarrow> duration option) \<Rightarrow> (string \<times> string) list \<Rightarrow> duration option" where
  "flag_duration pd fs = (case map_of (rev fs) ''timeout'' of None \<Rightarrow> Some (30 * second) | Some v \<Rightarrow> pd v)"

text \<open>The options, and the diagnostic command if there is one.\<close>

definition helper_options ::
  "(string \<Rightarrow> duration option) \<Rightarrow> string list \<Rightarrow> (attach_options \<times> string) option" where
  "helper_options pd args =
     (case parse_flags args of
        None \<Rightarrow> None
      | Some fs \<Rightarrow>
          (case (flag_int fs ''pid'' 0, flag_int fs ''nspid'' 0, flag_int fs ''uid'' (-1), flag_int fs ''gid'' (-1),
                 flag_int fs ''max-response'' 0, flag_duration pd fs) of
             (Some p, Some np, Some u, Some g, Some mr, Some d) \<Rightarrow>
               Some (\<lparr>o_proc_root = flag_text fs ''proc-root'' ''/proc'', o_pid = p, o_nspid = np, o_uid = u, o_gid = g,
                      o_jar = flag_text fs ''jar'' [], o_agent_options = flag_text fs ''options'' [],
                      o_timeout = d, o_max_response = mr\<rparr>, flag_text fs ''jcmd'' [])
           | _ \<Rightarrow> None))"

section \<open>The helper\<close>

datatype helper_error = BadFlags | DropFailed | HelperAttach attach_error

datatype helper_effect = Syscall syscall | Handshake attach_options

definition run_helper_main ::
  "(string \<Rightarrow> duration option) \<Rightarrow> (syscall \<Rightarrow> bool) \<Rightarrow> transport \<Rightarrow> string list \<Rightarrow> (helper_error + string) \<times> helper_effect list" where
  "run_helper_main pd kern tr args =
     (case helper_options pd args of
        None \<Rightarrow> (Inl BadFlags, [])
      | Some (o1, cmd) \<Rightarrow>
          (case drop_privileges kern (o_uid o1) (o_gid o1) of
             (calls, ok) \<Rightarrow>
               if \<not> ok then (Inl DropFailed, map Syscall calls)
               else (let effs = map Syscall calls @ [Handshake o1]
                     in if cmd \<noteq> [] then
                          (case jcmd tr o1 cmd of
                             (out, None) \<Rightarrow> (Inr out, effs)
                           | (_, Some e) \<Rightarrow> (Inl (HelperAttach e), effs))
                        else
                          (case load_agent tr o1 of
                             Inl e \<Rightarrow> (Inl (HelperAttach e), effs)
                           | Inr _ \<Rightarrow> (Inr [], effs)))))"

section \<open>The runner\<close>

datatype runner_error = Direct attach_error | NotPrivileged | NoHelper | Helper helper_error

record runner =
  rn_helper :: string
  rn_euid :: int

definition can_drop_to :: "runner \<Rightarrow> runner_error option" where
  "can_drop_to r =
     (if rn_euid r \<noteq> 0 then Some NotPrivileged else if rn_helper r = [] then Some NoHelper else None)"

definition helper_args :: "(duration \<Rightarrow> string) \<Rightarrow> attach_options \<Rightarrow> string list \<Rightarrow> string list" where
  "helper_args sd o1 extra =
     [''--proc-root'', o_proc_root o1, ''--pid'', itoa (o_pid o1), ''--nspid'', itoa (o_nspid o1),
      ''--uid'', itoa (o_uid o1), ''--gid'', itoa (o_gid o1), ''--timeout'', sd (o_timeout o1)] @ extra"

text \<open>What the outside is to the runner: durations printed and parsed, the kernel and the target.\<close>

record outside =
  ou_show :: "duration \<Rightarrow> string"
  ou_parse :: "string \<Rightarrow> duration option"
  ou_kernel :: "syscall \<Rightarrow> bool"
  ou_target :: transport

definition run_helper :: "outside \<Rightarrow> attach_options \<Rightarrow> string list \<Rightarrow> runner_error + string" where
  "run_helper out o1 extra =
     (case fst (run_helper_main (ou_parse out) (ou_kernel out) (ou_target out) (helper_args (ou_show out) o1 extra)) of
        Inl e \<Rightarrow> Inl (Helper e)
      | Inr s \<Rightarrow> Inr s)"

definition load_extra :: "attach_options \<Rightarrow> string list" where
  "load_extra o1 =
     [''--jar'', o_jar o1] @ (if o_agent_options o1 \<noteq> [] then [''--options'', o_agent_options o1] else [])"

definition jcmd_extra :: "attach_options \<Rightarrow> string \<Rightarrow> string list" where
  "jcmd_extra o1 cmd =
     [''--jcmd'', cmd] @ (if 0 < o_max_response o1 then [''--max-response'', itoa (o_max_response o1)] else [])"

definition runner_load_agent :: "outside \<Rightarrow> runner \<Rightarrow> attach_options \<Rightarrow> runner_error + string" where
  "runner_load_agent out r o0 =
     (let o1 = apply_defaults o0
      in if o_pid o1 \<le> 0 then Inl (Direct (InvalidPid (o_pid o1)))
         else if o_jar o1 = [] then Inl (Direct NoJar)
         else if rn_euid r = o_uid o1 then
           (case load_agent (ou_target out) o1 of Inl e \<Rightarrow> Inl (Direct e) | Inr _ \<Rightarrow> Inr [])
         else case can_drop_to r of
           Some e \<Rightarrow> Inl e
         | None \<Rightarrow> run_helper out o1 (load_extra o1))"

text \<open>The output, and the error beside it.\<close>

definition runner_jcmd :: "outside \<Rightarrow> runner \<Rightarrow> attach_options \<Rightarrow> string \<Rightarrow> string \<times> runner_error option" where
  "runner_jcmd out r o0 cmd =
     (let o1 = apply_defaults o0
      in if o_pid o1 \<le> 0 then ([], Some (Direct (InvalidPid (o_pid o1))))
         else if rn_euid r = o_uid o1 then
           (case jcmd (ou_target out) o1 cmd of (s, e) \<Rightarrow> (s, map_option Direct e))
         else case can_drop_to r of
           Some e \<Rightarrow> ([], Some e)
         | None \<Rightarrow>
             (case run_helper out o1 (jcmd_extra o1 cmd) of
                Inl e \<Rightarrow> ([], Some e)
              | Inr s \<Rightarrow> (s, None)))"

definition helper_operation :: "string list \<Rightarrow> string" where
  "helper_operation extra =
     (case index_where (\<lambda>a. a = ''--jcmd'') (butlast extra) of None \<Rightarrow> ''load-agent'' | Some i \<Rightarrow> extra ! (i + 1))"

section \<open>Lemmas\<close>

lemma apply_defaults_idem [simp]: "apply_defaults (apply_defaults o1) = apply_defaults o1"
  by (simp add: apply_defaults_def)

lemma parse_flag_value:
  assumes "name \<in> set helper_flags"
  shows "parse_flags ((''--'' @ name) # v # rest) = map_option (\<lambda>fs. (name, v) # fs) (parse_flags rest)"
proof -
  have "\<forall>n \<in> set helper_flags. \<not> has_prefix n ''-'' \<and> \<not> has_prefix n ''='' \<and> CHR ''='' \<notin> set n \<and> n \<noteq> []"
    by (simp add: helper_flags_def has_prefix_def)
  with assms have n: "\<not> has_prefix name ''-''" "\<not> has_prefix name ''=''" "CHR ''='' \<notin> set name" "name \<noteq> []" by auto
  let ?a = "''--'' @ name"
  have "(if has_prefix ?a ''--'' then drop 2 ?a else drop 1 ?a) = name" by (simp add: has_prefix_def)
  moreover have "has_prefix ?a ''-'' \<and> \<not> length ?a < 2 \<and> ?a \<noteq> ''--''" using n(4) by (simp add: has_prefix_def)
  moreover have "cut (CHR ''='') name = (name, [], False)" using n(3) by (rule cut_not_found)
  ultimately show ?thesis
    unfolding parse_flags.simps(2) [of ?a] Let_def using n(1,2) assms
    by (simp only: simp_thms if_True if_False prod.case list.case)
qed

lemma parse_helper_flag:
  "parse_flags (''--proc-root'' # v # rest) = map_option (\<lambda>fs. (''proc-root'', v) # fs) (parse_flags rest)"
  "parse_flags (''--pid'' # v # rest) = map_option (\<lambda>fs. (''pid'', v) # fs) (parse_flags rest)"
  "parse_flags (''--nspid'' # v # rest) = map_option (\<lambda>fs. (''nspid'', v) # fs) (parse_flags rest)"
  "parse_flags (''--uid'' # v # rest) = map_option (\<lambda>fs. (''uid'', v) # fs) (parse_flags rest)"
  "parse_flags (''--gid'' # v # rest) = map_option (\<lambda>fs. (''gid'', v) # fs) (parse_flags rest)"
  "parse_flags (''--jar'' # v # rest) = map_option (\<lambda>fs. (''jar'', v) # fs) (parse_flags rest)"
  "parse_flags (''--options'' # v # rest) = map_option (\<lambda>fs. (''options'', v) # fs) (parse_flags rest)"
  "parse_flags (''--jcmd'' # v # rest) = map_option (\<lambda>fs. (''jcmd'', v) # fs) (parse_flags rest)"
  "parse_flags (''--max-response'' # v # rest) = map_option (\<lambda>fs. (''max-response'', v) # fs) (parse_flags rest)"
  "parse_flags (''--timeout'' # v # rest) = map_option (\<lambda>fs. (''timeout'', v) # fs) (parse_flags rest)"
  using parse_flag_value [of "''proc-root''" v rest]
    parse_flag_value [of "''pid''" v rest]
    parse_flag_value [of "''nspid''" v rest]
    parse_flag_value [of "''uid''" v rest]
    parse_flag_value [of "''gid''" v rest]
    parse_flag_value [of "''jar''" v rest]
    parse_flag_value [of "''options''" v rest]
    parse_flag_value [of "''jcmd''" v rest]
    parse_flag_value [of "''max-response''" v rest]
    parse_flag_value [of "''timeout''" v rest]
  by (simp_all add: helper_flags_def del: parse_flags.simps)

definition int_range :: "int \<Rightarrow> bool" where
  "int_range i \<longleftrightarrow> - (2 ^ 63) \<le> i \<and> i < 2 ^ 63"

lemma run_steps_ok: "run_steps k cs = (made, True) \<longleftrightarrow> made = cs \<and> list_all k cs"
proof (induction cs arbitrary: made)
  case (Cons c cs)
  then show ?case by (cases "run_steps k cs") auto
qed auto

lemma drop_ok: "drop_privileges k u g = (calls, True) \<longleftrightarrow> calls = drop_steps u g \<and> list_all k (drop_steps u g) \<and> 0 \<le> u \<and> 0 \<le> g"
  by (auto simp: drop_privileges_def run_steps_ok)

definition options_ok :: "outside \<Rightarrow> attach_options \<Rightarrow> bool" where
  "options_ok out o1 \<longleftrightarrow>
     list_all int_range [o_pid o1, o_nspid o1, o_uid o1, o_gid o1, o_max_response o1] \<and>
     ou_parse out (ou_show out (o_timeout o1)) = Some (o_timeout o1)"

lemma itoa_flag: "int_range i \<Longrightarrow> atoi (itoa i) = Some i"
  by (simp add: int_range_def atoi_itoa)

lemma load_args_parse:
  assumes "options_ok out o1"
  shows "helper_options (ou_parse out) (helper_args (ou_show out) o1 (load_extra o1)) =
    Some (o1\<lparr>o_max_response := 0\<rparr>, [])"
  using assms
  by (simp add: helper_options_def helper_args_def load_extra_def parse_helper_flag flag_int_def flag_text_def
      flag_duration_def options_ok_def itoa_flag del: parse_flags.simps(2))

lemma jcmd_args_parse:
  assumes "options_ok out o1"
  shows "helper_options (ou_parse out) (helper_args (ou_show out) o1 (jcmd_extra o1 cmd)) =
    Some (o1\<lparr>o_jar := [], o_agent_options := [], o_max_response := max 0 (o_max_response o1)\<rparr>, cmd)"
  using assms
  by (simp add: helper_options_def helper_args_def jcmd_extra_def parse_helper_flag flag_int_def flag_text_def
      flag_duration_def options_ok_def itoa_flag del: parse_flags.simps(2))

section \<open>Properties\<close>


definition through_helper :: "attach_error \<Rightarrow> runner_error" where
  "through_helper e = Helper (HelperAttach e)"

text \<open>Root, with a helper, a target of another user, and a kernel that lets the drop succeed.\<close>

definition helper_usable :: "outside \<Rightarrow> runner \<Rightarrow> attach_options \<Rightarrow> bool" where
  "helper_usable out r o1 \<longleftrightarrow>
     rn_euid r = 0 \<and> rn_helper r \<noteq> [] \<and> 0 < o_uid o1 \<and> 0 \<le> o_gid o1 \<and> 0 < o_pid o1 \<and>
     list_all (ou_kernel out) (drop_steps (o_uid o1) (o_gid o1)) \<and> options_ok out (apply_defaults o1)"

lemma defaults_fields [simp]:
  "o_uid (apply_defaults o1) = o_uid o1" "o_gid (apply_defaults o1) = o_gid o1" "o_pid (apply_defaults o1) = o_pid o1"
  "o_jar (apply_defaults o1) = o_jar o1" "o_agent_options (apply_defaults o1) = o_agent_options o1"
  "o_max_response (apply_defaults o1) = o_max_response o1"
  by (simp_all add: apply_defaults_def)

lemma helper_main_ok:
  assumes "helper_usable out r o1" and "helper_options (ou_parse out) args = Some (o2, cmd)"
    and "o_uid o2 = o_uid o1" "o_gid o2 = o_gid o1"
  shows "fst (run_helper_main (ou_parse out) (ou_kernel out) (ou_target out) args) =
     (if cmd \<noteq> [] then (case jcmd (ou_target out) o2 cmd of (s, None) \<Rightarrow> Inr s | (_, Some e) \<Rightarrow> Inl (HelperAttach e))
      else (case load_agent (ou_target out) o2 of Inl e \<Rightarrow> Inl (HelperAttach e) | Inr _ \<Rightarrow> Inr []))"
proof -
  have "drop_privileges (ou_kernel out) (o_uid o2) (o_gid o2) = (drop_steps (o_uid o2) (o_gid o2), True)"
    using assms by (simp add: drop_ok helper_usable_def)
  with assms(2) show ?thesis
    by (auto simp: run_helper_main_def Let_def split: sum.splits option.splits prod.splits)
qed

lemma clear_response [simp]: "o_max_response o1 = 0 \<Longrightarrow> o1\<lparr>o_max_response := 0\<rparr> = o1"
  by simp

lemma load_agent_defaults [simp]: "load_agent tr (apply_defaults o1) = load_agent tr o1"
  by (simp add: load_agent_def)

lemma jcmd_defaults [simp]: "jcmd tr (apply_defaults o1) cmd = jcmd tr o1 cmd"
  by (simp add: jcmd_def)

lemma usable_facts:
  assumes "helper_usable out r o1"
  shows "rn_euid r \<noteq> o_uid (apply_defaults o1)" "can_drop_to r = None" "\<not> o_pid (apply_defaults o1) \<le> 0"
    "options_ok out (apply_defaults o1)"
  using assms by (simp_all add: helper_usable_def can_drop_to_def)

lemma load_through_helper:
  assumes u: "helper_usable out r o1" and m: "o_max_response o1 = 0" and j: "o_jar o1 \<noteq> []"
  shows "runner_load_agent out r o1 =
    (case load_agent (ou_target out) o1 of Inl e \<Rightarrow> Inl (through_helper e) | Inr _ \<Rightarrow> Inr [])"
proof -
  let ?o = "apply_defaults o1"
  have "o_max_response ?o = 0" using m by simp
  then have "helper_options (ou_parse out) (helper_args (ou_show out) ?o (load_extra ?o)) = Some (?o, [])"
    using load_args_parse [OF usable_facts(4) [OF u]] clear_response by metis
  from helper_main_ok [OF u this] have "run_helper out ?o (load_extra ?o) =
      (case load_agent (ou_target out) o1 of Inl e \<Rightarrow> Inl (through_helper e) | Inr _ \<Rightarrow> Inr [])"
    by (simp add: run_helper_def through_helper_def split: sum.split)
  then show ?thesis using usable_facts [OF u] j by (simp add: runner_load_agent_def Let_def)
qed

lemma jcmd_through_helper:
  assumes u: "helper_usable out r o1" and j: "o_jar o1 = []" "o_agent_options o1 = []" "0 \<le> o_max_response o1"
    and c: "cmd \<noteq> []"
  shows "runner_jcmd out r o1 cmd =
    (case jcmd (ou_target out) o1 cmd of (s, None) \<Rightarrow> (s, None) | (_, Some e) \<Rightarrow> ([], Some (through_helper e)))"
proof -
  let ?o = "apply_defaults o1"
  have same: "?o\<lparr>o_jar := [], o_agent_options := [], o_max_response := max 0 (o_max_response ?o)\<rparr> = ?o"
    using j by (simp add: apply_defaults_def)
  from jcmd_args_parse [OF usable_facts(4) [OF u], of cmd]
  have "helper_options (ou_parse out) (helper_args (ou_show out) ?o (jcmd_extra ?o cmd)) = Some (?o, cmd)"
    unfolding same .
  from helper_main_ok [OF u this] c have "run_helper out ?o (jcmd_extra ?o cmd) =
      (case jcmd (ou_target out) o1 cmd of (s, None) \<Rightarrow> Inr s | (_, Some e) \<Rightarrow> Inl (through_helper e))"
    by (simp add: run_helper_def through_helper_def split: prod.split option.split)
  then show ?thesis using usable_facts [OF u]
    by (simp add: runner_jcmd_def Let_def split: prod.split option.split)
qed

text \<open>C17 (the helper does what a direct attach would).  When this process is root and the drop succeeds, going
  through the helper's command line has exactly the outcome of the handshake done directly with the
  same options, for loads and for diagnostic commands, whatever the jar path, the agent options and
  the command contain.\<close>

theorem helper_equals_direct:
  assumes "helper_usable out r o1" and "0 \<le> o_max_response o1" and "cmd \<noteq> []"
  shows "(o_jar o1 \<noteq> [] \<and> o_max_response o1 = 0 \<longrightarrow>
           runner_load_agent out r o1 =
             (case load_agent (ou_target out) o1 of Inl e \<Rightarrow> Inl (through_helper e) | Inr _ \<Rightarrow> Inr [])) \<and>
         (o_jar o1 = [] \<and> o_agent_options o1 = [] \<longrightarrow>
           runner_jcmd out r o1 cmd =
             (case jcmd (ou_target out) o1 cmd of (s, None) \<Rightarrow> (s, None) | (_, Some e) \<Rightarrow> ([], Some (through_helper e))))"
  using load_through_helper [OF assms(1)] jcmd_through_helper [OF assms(1) _ _ assms(2,3)] by blast

definition sample_outside :: outside where
  "sample_outside = \<lparr>ou_show = (\<lambda>d. itoa d @ ''ns''), ou_parse = (\<lambda>s. atoi (take (length s - 2) s)),
     ou_kernel = (\<lambda>_. True), ou_target = (\<lambda>_ _. Some (''0'' @ [newline] @ ''return code: 0'', False))\<rparr>"

definition sample_load :: attach_options where
  "sample_load = \<lparr>o_proc_root = ''/proc'', o_pid = 7, o_nspid = 1, o_uid = 33, o_gid = 33, o_jar = ''--a=b'',
     o_agent_options = ''-x'', o_timeout = 5, o_max_response = 0\<rparr>"

theorem helper_equals_direct_witness:
  "runner_load_agent sample_outside \<lparr>rn_helper = ''h'', rn_euid = 0\<rparr> sample_load =
     (case load_agent (ou_target sample_outside) sample_load of Inl e \<Rightarrow> Inl (through_helper e) | Inr _ \<Rightarrow> Inr [])"
proof -
  have "helper_usable sample_outside \<lparr>rn_helper = ''h'', rn_euid = 0\<rparr> sample_load" by code_simp
  moreover have "0 \<le> o_max_response sample_load" "o_jar sample_load \<noteq> [] \<and> o_max_response sample_load = 0"
    by (simp_all add: sample_load_def)
  ultimately show ?thesis using helper_equals_direct [of sample_outside _ sample_load "''x''"] by blast
qed

lemma trigger_made:
  "create_trigger_files fs ps = (made, usable, effs) \<Longrightarrow>
   made = filter (\<lambda>p. fs p = Made) ps \<and> usable = length (filter (\<lambda>p. fs p = Made \<or> fs p = AlreadyThere) ps) \<and>
   set effs = Create ` set ps \<union> Unlink ` {p \<in> set ps. fs p = CloseFailed}"
proof (induction ps arbitrary: made usable effs)
  case (Cons p ps)
  obtain m u e where r: "create_trigger_files fs ps = (m, u, e)" using prod_cases3 by blast
  from Cons.IH [OF r] Cons.prems r show ?case by (cases "fs p") auto
qed simp

lemma wait_polls: "wait_for_socket path ticks = (ok, effs) \<Longrightarrow> set effs \<subseteq> {Poll path}"
  by (induction ticks arbitrary: ok effs) (auto split: if_splits prod.splits)

text \<open>(only our own trigger files are removed) Connecting removes exactly the trigger files this call made,
  each after it was made, and never one that was there before; nothing is signalled unless a trigger
  file is in place.\<close>

theorem triggers_cleaned:
  "(case connect up fs kill_ok ticks o1 of (r, effs) \<Rightarrow>
      {p. Unlink p \<in> set effs} =
        (if up then {} else {p \<in> set (trigger_file_paths o1). fs p = Made \<or> fs p = CloseFailed}) \<and>
      {q. Quit q \<in> set effs} =
        (if up \<or> list_all (\<lambda>p. fs p \<noteq> Made \<and> fs p \<noteq> AlreadyThere) (trigger_file_paths o1) then {} else {o_pid o1}))"
proof -
  let ?ps = "trigger_file_paths o1"
  obtain m u e where c: "create_trigger_files fs ?ps = (m, u, e)" using prod_cases3 by blast
  note made = trigger_made [OF c]
  obtain ok polls where w: "wait_for_socket (attach_socket_path o1) ticks = (ok, polls)" by fastforce
  note poll = wait_polls [OF w]
  have none: "u = 0 \<longleftrightarrow> list_all (\<lambda>p. fs p \<noteq> Made \<and> fs p \<noteq> AlreadyThere) ?ps"
    using made by (auto simp: list_all_iff filter_empty_conv)
  have unlinks: "{p. Unlink p \<in> set e} = {p \<in> set ?ps. fs p = CloseFailed}" and quits: "{q. Quit q \<in> set e} = {}"
    using made by auto
  have npoll: "Unlink p \<notin> set polls" "Quit q \<notin> set polls" for p q using poll by auto
  have no_made: "\<not> (\<exists>p \<in> set ?ps. fs p = Made)" if "u = 0" using that none by (auto simp: list_all_iff)
  consider "up" | "\<not> up" "u = 0" | "\<not> up" "u \<noteq> 0" "\<not> kill_ok" | "\<not> up" "u \<noteq> 0" "kill_ok" by blast
  then show ?thesis
  proof cases
    case 1
    then show ?thesis by (simp add: connect_def Let_def)
  next
    case 2
    with c unlinks quits no_made none show ?thesis by (auto simp: connect_def Let_def)
  next
    case 3
    with c made unlinks quits none show ?thesis by (auto simp: connect_def Let_def)
  next
    case 4
    with c w made unlinks quits npoll none show ?thesis by (auto simp: connect_def Let_def)
  qed
qed

text \<open>(options on a command line)  Through the helper, the agent options are an argument of a process, which
  every user of the host can read while it runs; with an inline configuration they carry the ingest
  token.\<close>

theorem options_on_command_line:
  "o_agent_options o1 = [] \<or> o_agent_options o1 \<in> set (helper_args sd o1 (load_extra o1))"
  by (auto simp: helper_args_def load_extra_def)

end
