(* ===== verification/Diagnostics.thy ===== *)
theory Diagnostics
  imports Thread_Dump Heap_Reports Attach_Runner Inventory
begin

text \<open>
  Diagnostics on demand: \<open>internal/jvmdiag/jvmdiag.go\<close> (running a command and parsing its output),
  \<open>internal/store/diagnostics.go\<close> (the table of dumps, its listing and its pruning) and
  \<open>internal/api/diagnostics.go\<close> (the handlers that collect, list, read and compare).  The table is the
  list of its rows, with the statements of the source as list functions; times are stored as they
  are, so a zero start time and an absent one are the same.  Whether a write succeeds is an argument;
  a write under a cancelled context never does.
\<close>

section \<open>Kinds and dumps\<close>

datatype diag_kind = KindThreadDump | KindClassHistogram | KindHeapInfo | KindVMFlags

definition kind_name :: "diag_kind \<Rightarrow> string" where
  "kind_name k =
     (case k of KindThreadDump \<Rightarrow> ''thread_dump'' | KindClassHistogram \<Rightarrow> ''class_histogram''
      | KindHeapInfo \<Rightarrow> ''heap_info'' | KindVMFlags \<Rightarrow> ''vm_flags'')"

definition diag_kinds :: "diag_kind list" where
  "diag_kinds = [KindThreadDump, KindClassHistogram, KindHeapInfo, KindVMFlags]"

definition command_for :: "diag_kind \<Rightarrow> string" where
  "command_for k =
     (case k of KindThreadDump \<Rightarrow> ''Thread.print'' | KindClassHistogram \<Rightarrow> ''GC.class_histogram''
      | KindHeapInfo \<Rightarrow> ''GC.heap_info'' | KindVMFlags \<Rightarrow> ''VM.flags -all'')"

definition kind_of :: "string \<Rightarrow> diag_kind option" where
  "kind_of s = map_of (map (\<lambda>k. (kind_name k, k)) diag_kinds) s"

definition heap_dump_command :: string where
  "heap_dump_command = ''GC.heap_dump -all=true /path/to/dump.hprof''"

record dump =
  du_kind :: diag_kind
  du_pid :: int
  du_service :: string
  du_captured :: gotime
  du_duration :: int
  du_raw :: string
  du_threads :: "thread_dump option"
  du_histogram :: "class_histogram option"
  du_heap :: "heap_info option"

datatype head_value = Count int | States "(string \<times> nat) list"

definition headline :: "dump \<Rightarrow> (string \<times> head_value) list" where
  "headline d =
     (case du_threads d of
        Some t \<Rightarrow>
          [(''threads'', Count (int (length (td_threads t)))), (''deadlocks'', Count (int (length (td_deadlocks t)))),
           (''pileups'', Count (int (length (td_pileups t)))), (''states'', States (td_counts t))]
      | None \<Rightarrow>
          (case du_histogram d of
             Some h \<Rightarrow> [(''classes'', Count (int (ch_count h))), (''total_bytes'', Count (ch_bytes h)),
                        (''total_instances'', Count (ch_instances h))]
           | None \<Rightarrow>
               (case du_heap d of
                  Some h \<Rightarrow> [(''used_bytes'', Count (hi_used h)), (''total_bytes'', Count (hi_total h))] @
                    (case hi_metaspace h of None \<Rightarrow> [] | Some p \<Rightarrow> [(''metaspace_used_bytes'', Count (po_used p))])
                | None \<Rightarrow> [(''bytes'', Count (int (length (du_raw d))))])))"

section \<open>Collecting\<close>

definition diag_options :: "string \<Rightarrow> jvm \<Rightarrow> attach_options" where
  "diag_options proot j =
     \<lparr>o_proc_root = (if proot = [] then ''/proc'' else proot), o_pid = j_pid j, o_nspid = j_nspid j,
      o_uid = j_uid j, o_gid = j_gid j, o_jar = [], o_agent_options = [], o_timeout = 60 * second,
      o_max_response = 33554432\<rparr>"

text \<open>What a parser makes of the output of a command of a kind.\<close>

definition parsed_dump :: "diag_kind \<Rightarrow> jvm \<Rightarrow> gotime \<Rightarrow> duration \<Rightarrow> string \<Rightarrow> dump" where
  "parsed_dump k j start elapsed raw =
     \<lparr>du_kind = k, du_pid = j_pid j, du_service = j_service j, du_captured = start,
      du_duration = elapsed div millisecond, du_raw = raw,
      du_threads = (if k = KindThreadDump then parse_thread_dump raw else None),
      du_histogram = (if k = KindClassHistogram then Some (parse_class_histogram raw) else None),
      du_heap = (if k = KindHeapInfo then Some (parse_heap_info raw) else None)\<rparr>"

definition collect ::
  "outside \<Rightarrow> runner \<Rightarrow> string \<Rightarrow> gotime \<Rightarrow> duration \<Rightarrow> jvm \<Rightarrow> diag_kind \<Rightarrow> runner_error + dump" where
  "collect out r proot start elapsed j k =
     (case runner_jcmd out r (diag_options proot j) (command_for k) of
        (raw, Some e) \<Rightarrow> Inl e
      | (raw, None) \<Rightarrow> Inr (parsed_dump k j start elapsed raw))"

section \<open>The table of dumps\<close>

record diag_row =
  dr_id :: string
  dr_ts :: gotime
  dr_kind :: string
  dr_pid :: int
  dr_start :: gotime
  dr_service :: string
  dr_duration :: int
  dr_size :: int
  dr_headline :: "(string \<times> head_value) list"
  dr_dump :: dump

datatype write_error = NoId | Rejected_Write

text \<open>Identifiers are unique: the index of the table refuses a second row.\<close>

definition write_diagnostic :: "bool \<Rightarrow> diag_row \<Rightarrow> diag_row list \<Rightarrow> diag_row list \<times> write_error option" where
  "write_diagnostic db_ok row rows =
     (if dr_id row = [] then (rows, Some NoId)
      else if \<not> db_ok \<or> dr_id row \<in> dr_id ` set rows then (rows, Some Rejected_Write)
      else (rows @ [row], None))"

definition newest_first :: "diag_row list \<Rightarrow> diag_row list" where
  "newest_first rows = sort_key (\<lambda>r. - dr_ts r) rows"

definition default_diagnostic_limit :: int where "default_diagnostic_limit = 50"

definition list_diagnostics :: "int \<Rightarrow> string \<Rightarrow> int \<Rightarrow> diag_row list \<Rightarrow> diag_row list" where
  "list_diagnostics p k limit rows =
     take (nat (if limit \<le> 0 then default_diagnostic_limit else limit))
       (newest_first (filter (\<lambda>r. (0 < p \<longrightarrow> dr_pid r = p) \<and> (k \<noteq> [] \<longrightarrow> dr_kind r = k)) rows))"

definition get_diagnostic :: "string \<Rightarrow> diag_row list \<Rightarrow> diag_row option" where
  "get_diagnostic i rows = find (\<lambda>r. dr_id r = i) rows"

text \<open>The partition of the window function: one process and one kind.\<close>

definition diag_group :: "diag_row \<Rightarrow> int \<times> gotime \<times> string" where
  "diag_group r = (dr_pid r, dr_start r, dr_kind r)"

definition over_quota :: "nat \<Rightarrow> diag_row list \<Rightarrow> string list" where
  "over_quota keep rows =
     concat (map (\<lambda>g. map dr_id (drop keep (newest_first (filter (\<lambda>r. diag_group r = g) rows))))
       (remdups (map diag_group rows)))"

definition trim_diagnostics :: "nat \<Rightarrow> diag_row list \<Rightarrow> diag_row list" where
  "trim_diagnostics keep rows = filter (\<lambda>r. dr_id r \<notin> set (over_quota keep rows)) rows"

definition prune_diagnostics :: "gotime \<Rightarrow> duration \<Rightarrow> int \<Rightarrow> diag_row list \<Rightarrow> diag_row list \<times> int" where
  "prune_diagnostics now retention keep rows =
     (let kept = (if 0 < retention then filter (\<lambda>r. \<not> dr_ts r < now - retention) rows else rows);
          trimmed = (if 0 < keep then trim_diagnostics (nat keep) kept else kept)
      in (trimmed, int (length rows) - int (length trimmed)))"

section \<open>Handlers\<close>

record diag_server =
  ds_client :: bool
  ds_manager :: "manager option"
  ds_rows :: "diag_row list option"

definition stored_histogram_classes :: int where "stored_histogram_classes = 250"
definition diff_limit :: int where "diff_limit = 50"

definition parse_pid :: "string \<Rightarrow> int option" where
  "parse_pid s = (case atoi s of None \<Rightarrow> None | Some p \<Rightarrow> if p \<le> 0 then None else Some p)"

definition cut_histogram :: "dump \<Rightarrow> dump" where
  "cut_histogram d = d\<lparr>du_histogram := top_classes (du_histogram d) stored_histogram_classes\<rparr>"

definition diagnostic_row :: "string \<Rightarrow> gotime \<Rightarrow> dump \<Rightarrow> diag_row" where
  "diagnostic_row i start d =
     \<lparr>dr_id = i, dr_ts = du_captured d, dr_kind = kind_name (du_kind d), dr_pid = du_pid d, dr_start = start,
      dr_service = du_service d, dr_duration = du_duration d, dr_size = int (length (du_raw d)),
      dr_headline = headline d, dr_dump = d\<rparr>"

text \<open>The context of the write is the request's, with a deadline: gone when the client is.\<close>

definition store_diagnostic ::
  "bool \<Rightarrow> bool \<Rightarrow> string \<Rightarrow> gotime \<Rightarrow> dump \<Rightarrow> diag_server \<Rightarrow> diag_server \<times> string" where
  "store_diagnostic client_gone db_ok i start d s =
     (case ds_rows s of
        None \<Rightarrow> (s, [])
      | Some rows \<Rightarrow>
          (case write_diagnostic (db_ok \<and> \<not> client_gone) (diagnostic_row i start d) rows of
             (rows', None) \<Rightarrow> (s\<lparr>ds_rows := Some rows'\<rparr>, i)
           | (rows', Some _) \<Rightarrow> (s\<lparr>ds_rows := Some rows'\<rparr>, [])))"

datatype reply =
    NotImplemented
  | BadRequest
  | NotFound
  | BadGateway
  | ServerError
  | Collected string dump
  | Listed "diag_row list"
  | Shown diag_row
  | RawText string
  | Compared diag_row diag_row "histogram_diff option" bool

definition collect_handler ::
  "(jvm \<Rightarrow> diag_kind \<Rightarrow> runner_error + dump) \<Rightarrow> bool \<Rightarrow> bool \<Rightarrow> string \<Rightarrow> diag_server \<Rightarrow> string \<Rightarrow> string \<Rightarrow> diag_server \<times> reply" where
  "collect_handler run client_gone db_ok i s pid_text kind_text =
     (if \<not> ds_client s then (s, NotImplemented)
      else case ds_manager s of
        None \<Rightarrow> (s, NotImplemented)
      | Some m \<Rightarrow>
     (case parse_pid pid_text of
        None \<Rightarrow> (s, BadRequest)
      | Some p \<Rightarrow>
     (case kind_of kind_text of
        None \<Rightarrow> (s, BadRequest)
      | Some k \<Rightarrow>
     (case get_entry m p of
        None \<Rightarrow> (s, NotFound)
      | Some e \<Rightarrow>
     (case run (e_jvm e) k of
        Inl _ \<Rightarrow> (s, BadGateway)
      | Inr d \<Rightarrow>
          (case store_diagnostic client_gone db_ok i (j_start (e_jvm e)) (cut_histogram d) s of
             (s', stored) \<Rightarrow> (s', Collected stored (cut_histogram d))))))))"

definition list_handler :: "diag_server \<Rightarrow> string \<Rightarrow> string \<Rightarrow> string \<Rightarrow> reply" where
  "list_handler s pid_text kind_text limit_text =
     (case parse_pid pid_text of
        None \<Rightarrow> BadRequest
      | Some p \<Rightarrow>
          (case ds_rows s of
             None \<Rightarrow> Listed []
           | Some rows \<Rightarrow>
               Listed (list_diagnostics p kind_text (case atoi limit_text of None \<Rightarrow> 0 | Some n \<Rightarrow> n) rows)))"

definition require_diagnostic :: "diag_server \<Rightarrow> string \<Rightarrow> reply + diag_row" where
  "require_diagnostic s i =
     (case ds_rows s of
        None \<Rightarrow> Inl NotImplemented
      | Some rows \<Rightarrow>
          if i = [] then Inl BadRequest
          else case get_diagnostic i rows of None \<Rightarrow> Inl NotFound | Some r \<Rightarrow> Inr r)"

definition get_handler :: "diag_server \<Rightarrow> string \<Rightarrow> reply" where
  "get_handler s i =
     (case require_diagnostic s i of
        Inl e \<Rightarrow> e
      | Inr r \<Rightarrow> Shown (r\<lparr>dr_dump := (dr_dump r)\<lparr>du_raw := []\<rparr>\<rparr>))"

definition raw_handler :: "diag_server \<Rightarrow> string \<Rightarrow> reply" where
  "raw_handler s i = (case require_diagnostic s i of Inl e \<Rightarrow> e | Inr r \<Rightarrow> RawText (du_raw (dr_dump r)))"

definition histogram_cut :: "class_histogram \<Rightarrow> bool" where
  "histogram_cut h \<longleftrightarrow> length (ch_classes h) < ch_count h"

definition compare_handler :: "diag_server \<Rightarrow> string \<Rightarrow> string \<Rightarrow> reply" where
  "compare_handler s from_id to_id =
     (if from_id = [] \<or> to_id = [] then BadRequest
      else case require_diagnostic s from_id of
        Inl e \<Rightarrow> e
      | Inr a \<Rightarrow>
     (case require_diagnostic s to_id of
        Inl e \<Rightarrow> e
      | Inr b \<Rightarrow>
          if dr_kind a \<noteq> kind_name KindClassHistogram \<or> dr_kind b \<noteq> kind_name KindClassHistogram then BadRequest
          else if dr_pid a \<noteq> dr_pid b \<or> dr_start a \<noteq> dr_start b then BadRequest
          else let earlier = (if dr_ts b < dr_ts a then b else a);
                   later = (if dr_ts b < dr_ts a then a else b)
               in case (du_histogram (dr_dump earlier), du_histogram (dr_dump later)) of
                    (Some h1, Some h2) \<Rightarrow>
                      Compared earlier later (diff_histograms (Some h1) (Some h2) diff_limit)
                        (histogram_cut h1 \<or> histogram_cut h2)
                  | _ \<Rightarrow> ServerError))"

section \<open>Lemmas\<close>

text \<open>The invariant of the table: identifiers are there and unique.\<close>

definition rows_unique :: "diag_row list \<Rightarrow> bool" where
  "rows_unique rows \<longleftrightarrow> distinct (map dr_id rows) \<and> [] \<notin> dr_id ` set rows"

lemma write_unique [inv_intros]: "rows_unique rows \<Longrightarrow> rows_unique (fst (write_diagnostic ok r rows))"
  by (auto simp: write_diagnostic_def rows_unique_def)

lemma filter_unique [inv_intros]: "rows_unique rows \<Longrightarrow> rows_unique (filter P rows)"
  by (auto simp: rows_unique_def distinct_map_filter)

lemma prune_unique [inv_intros]: "rows_unique rows \<Longrightarrow> rows_unique (fst (prune_diagnostics now ret keep rows))"
  by (auto simp: prune_diagnostics_def trim_diagnostics_def Let_def intro!: filter_unique)

lemma get_find: "rows_unique rows \<Longrightarrow> r \<in> set rows \<Longrightarrow> get_diagnostic (dr_id r) rows = Some r"
  unfolding get_diagnostic_def rows_unique_def
  by (induction rows) auto

lemma get_member: "get_diagnostic i rows = Some r \<Longrightarrow> r \<in> set rows \<and> dr_id r = i"
  by (auto simp: get_diagnostic_def find_Some_iff)

lemma set_newest [simp]: "set (newest_first rows) = set rows"
  by (simp add: newest_first_def)

lemma newest_sorted: "sorted (map (\<lambda>r. - dr_ts r) (newest_first rows))"
  by (simp add: newest_first_def)

lemma newest_distinct: "distinct (map dr_id rows) \<Longrightarrow> distinct (map dr_id (newest_first rows))"
proof -
  have "mset (map dr_id (newest_first rows)) = mset (map dr_id rows)" by (simp add: newest_first_def)
  then show "distinct (map dr_id rows) \<Longrightarrow> distinct (map dr_id (newest_first rows))"
    using mset_eq_imp_distinct_iff by blast
qed

definition in_group :: "diag_row \<Rightarrow> diag_row list \<Rightarrow> diag_row list" where
  "in_group r rows = filter (\<lambda>x. diag_group x = diag_group r) rows"

text \<open>Which rows are over their group's quota, and what is left of a group.\<close>

lemma over_quota_iff:
  assumes "rows_unique rows" and "r \<in> set rows"
  shows "dr_id r \<in> set (over_quota keep rows) \<longleftrightarrow> r \<in> set (drop keep (newest_first (in_group r rows)))"
proof
  assume "dr_id r \<in> set (over_quota keep rows)"
  then obtain q where q: "q \<in> set rows" "dr_id r \<in> dr_id ` set (drop keep (newest_first (in_group q rows)))"
    by (auto simp: over_quota_def in_group_def)
  then obtain x where x: "x \<in> set (drop keep (newest_first (in_group q rows)))" "dr_id x = dr_id r" by auto
  then have "x \<in> set (in_group q rows)" using in_set_dropD by fastforce
  then have "x \<in> set rows" "diag_group x = diag_group q" by (auto simp: in_group_def)
  moreover have "x = r" using assms x \<open>x \<in> set rows\<close> by (auto simp: rows_unique_def distinct_map dest: inj_onD)
  ultimately show "r \<in> set (drop keep (newest_first (in_group r rows)))" using x by (simp add: in_group_def)
next
  assume "r \<in> set (drop keep (newest_first (in_group r rows)))"
  with assms(2) show "dr_id r \<in> set (over_quota keep rows)" by (auto simp: over_quota_def in_group_def)
qed

lemma trim_group:
  assumes u: "rows_unique rows"
  shows "set (in_group r (trim_diagnostics keep rows)) = set (take keep (newest_first (in_group r rows)))"
proof -
  let ?g = "newest_first (in_group r rows)"
  have "distinct (map dr_id (in_group r rows))" using u by (simp add: rows_unique_def in_group_def distinct_map_filter)
  then have d: "distinct ?g" using newest_distinct by (simp add: distinct_map)
  have mem: "x \<in> set (in_group r (trim_diagnostics keep rows)) \<longleftrightarrow> x \<in> set ?g \<and> x \<notin> set (drop keep ?g)" for x
    using over_quota_iff [OF u, of x keep]
    by (auto simp: trim_diagnostics_def in_group_def)
  have "set ?g = set (take keep ?g) \<union> set (drop keep ?g)" by (metis append_take_drop_id set_append)
  moreover have "set (take keep ?g) \<inter> set (drop keep ?g) = {}" using d by (metis append_take_drop_id distinct_append)
  ultimately show ?thesis using mem by blast
qed

lemma trim_group_length:
  assumes "rows_unique rows"
  shows "length (in_group r (trim_diagnostics keep rows)) \<le> keep"
proof -
  have "distinct rows" using assms by (simp add: rows_unique_def distinct_map)
  then have d: "distinct (in_group r (trim_diagnostics keep rows))" by (simp add: in_group_def trim_diagnostics_def)
  then have "length (in_group r (trim_diagnostics keep rows)) = card (set (take keep (newest_first (in_group r rows))))"
    using trim_group [OF assms] distinct_card by metis
  also have "\<dots> \<le> length (take keep (newest_first (in_group r rows)))" by (rule card_length)
  finally show ?thesis by simp
qed

lemma dropped_older:
  assumes "x \<in> set (drop keep (newest_first rows))" and "y \<in> set (take keep (newest_first rows))"
  shows "dr_ts x \<le> dr_ts y"
proof -
  have "sorted (map (\<lambda>r. - dr_ts r) (take keep (newest_first rows)) @ map (\<lambda>r. - dr_ts r) (drop keep (newest_first rows)))"
    using newest_sorted [of rows] by (metis append_take_drop_id map_append)
  with assms show ?thesis by (auto simp: sorted_append)
qed


lemma trim_group_full:
  assumes u: "rows_unique rows"
  shows "length (in_group r (trim_diagnostics keep rows)) = min keep (length (in_group r rows))"
proof -
  have r: "distinct rows" using u by (simp add: rows_unique_def distinct_map)
  then have d: "distinct (in_group r (trim_diagnostics keep rows))" by (simp add: in_group_def trim_diagnostics_def)
  have "distinct (map dr_id (in_group r rows))" using u by (simp add: rows_unique_def in_group_def distinct_map_filter)
  then have "distinct (newest_first (in_group r rows))" using newest_distinct by (simp add: distinct_map)
  then have t: "distinct (take keep (newest_first (in_group r rows)))" by simp
  have "length (in_group r (trim_diagnostics keep rows)) = card (set (take keep (newest_first (in_group r rows))))"
    using trim_group [OF u] d distinct_card by metis
  also have "\<dots> = length (take keep (newest_first (in_group r rows)))" using t by (rule distinct_card)
  finally show ?thesis by (simp add: newest_first_def min.commute)
qed

lemma trimmed_away:
  assumes u: "rows_unique rows" and r: "r \<in> set rows" and gone: "r \<notin> set (trim_diagnostics keep rows)"
  shows "length (in_group r (trim_diagnostics keep rows)) = keep"
    and "list_all (\<lambda>y. dr_ts r \<le> dr_ts y) (in_group r (trim_diagnostics keep rows))"
proof -
  from r gone have "dr_id r \<in> set (over_quota keep rows)" by (simp add: trim_diagnostics_def)
  then have d: "r \<in> set (drop keep (newest_first (in_group r rows)))" using over_quota_iff [OF u r] by blast
  then have "drop keep (newest_first (in_group r rows)) \<noteq> []" by auto
  then have "keep < length (in_group r rows)" by (simp add: newest_first_def)
  then show "length (in_group r (trim_diagnostics keep rows)) = keep" using trim_group_full [OF u] by simp
  show "list_all (\<lambda>y. dr_ts r \<le> dr_ts y) (in_group r (trim_diagnostics keep rows))"
    using dropped_older [OF d] trim_group [OF u] by (simp add: list_all_iff)
qed

section \<open>Properties\<close>

text \<open>C36 (prune_keeps_newest). Pruning keeps a subset of the rows, with unique identifiers and the count of
  removed rows reported; no process has more than the quota of one kind afterwards; and a row that
  went was past the retention, or its group is left with exactly the quota, all of it at least as
  new.\<close>

theorem prune_keeps_newest:
  assumes "rows_unique rows" and "0 < keep"
  shows "case prune_diagnostics now retention keep rows of (left, gone) \<Rightarrow>
    rows_unique left \<and> set left \<subseteq> set rows \<and> gone = int (length rows) - int (length left) \<and>
    length (in_group r left) \<le> nat keep \<and>
    list_all (\<lambda>x. x \<in> set left \<or> (0 < retention \<and> dr_ts x < now - retention) \<or>
      (length (in_group x left) = nat keep \<and> list_all (\<lambda>y. dr_ts x \<le> dr_ts y) (in_group x left))) rows"
proof -
  define kept where "kept = (if 0 < retention then filter (\<lambda>r. \<not> dr_ts r < now - retention) rows else rows)"
  have p: "prune_diagnostics now retention keep rows =
      (trim_diagnostics (nat keep) kept, int (length rows) - int (length (trim_diagnostics (nat keep) kept)))"
    using assms(2) by (simp add: prune_diagnostics_def kept_def Let_def)
  have u: "rows_unique kept" using assms(1) by (simp add: kept_def filter_unique)
  have sub: "set (trim_diagnostics (nat keep) kept) \<subseteq> set rows" by (auto simp: trim_diagnostics_def kept_def)
  have un: "rows_unique (trim_diagnostics (nat keep) kept)"
    unfolding trim_diagnostics_def by (rule filter_unique [OF u])
  have "x \<in> set (trim_diagnostics (nat keep) kept) \<or> (0 < retention \<and> dr_ts x < now - retention) \<or>
      (length (in_group x (trim_diagnostics (nat keep) kept)) = nat keep \<and>
       list_all (\<lambda>y. dr_ts x \<le> dr_ts y) (in_group x (trim_diagnostics (nat keep) kept)))"
    if "x \<in> set rows" for x
  proof (cases "x \<in> set kept")
    case True
    then show ?thesis using trimmed_away [OF u True] by blast
  next
    case False
    with that show ?thesis by (auto simp: kept_def split: if_splits)
  qed
  then show ?thesis using un sub trim_group_length [OF u] by (simp add: p list_all_iff)
qed

definition sample_diag :: "string \<Rightarrow> gotime \<Rightarrow> diag_row" where
  "sample_diag i t =
     \<lparr>dr_id = i, dr_ts = t, dr_kind = ''heap_info'', dr_pid = 7, dr_start = 1, dr_service = [], dr_duration = 0,
      dr_size = 0, dr_headline = [],
      dr_dump = \<lparr>du_kind = KindHeapInfo, du_pid = 7, du_service = [], du_captured = t, du_duration = 0,
                 du_raw = [], du_threads = None, du_histogram = None, du_heap = None\<rparr>\<rparr>"

theorem prune_keeps_newest_witness:
  "case prune_diagnostics 100 0 1 [sample_diag ''a'' 3, sample_diag ''b'' 5] of (left, gone) \<Rightarrow>
    rows_unique left \<and> set left \<subseteq> set [sample_diag ''a'' 3, sample_diag ''b'' 5] \<and>
    gone = int (length [sample_diag ''a'' 3, sample_diag ''b'' 5]) - int (length left) \<and>
    length (in_group (sample_diag ''b'' 5) left) \<le> nat 1 \<and>
    list_all (\<lambda>x. x \<in> set left \<or> (0 < (0::int) \<and> dr_ts x < 100 - 0) \<or>
      (length (in_group x left) = nat 1 \<and> list_all (\<lambda>y. dr_ts x \<le> dr_ts y) (in_group x left)))
      [sample_diag ''a'' 3, sample_diag ''b'' 5]"
  by (rule prune_keeps_newest) (simp_all add: rows_unique_def sample_diag_def)

lemma require_iff:
  "require_diagnostic s i = Inr r \<longleftrightarrow> i \<noteq> [] \<and> (\<exists>rows. ds_rows s = Some rows \<and> get_diagnostic i rows = Some r)"
  by (auto simp: require_diagnostic_def split: option.splits)

lemma require_id: "require_diagnostic s i = Inr r \<Longrightarrow> dr_id r = i"
  using get_member by (auto simp: require_iff)

text \<open>(compare_one_process) A comparison is answered only for two stored class histograms of the same start of
  the same process, the earlier one first; and the two identifiers may come in either order, except
  for two dumps of the same instant.\<close>

theorem compare_one_process:
  "(case compare_handler s a b of
      Compared x y diff partial \<Rightarrow>
        dr_kind x = ''class_histogram'' \<and> dr_kind y = ''class_histogram'' \<and> dr_pid x = dr_pid y \<and>
        dr_start x = dr_start y \<and> dr_ts x \<le> dr_ts y \<and> {dr_id x, dr_id y} = {a, b} \<and>
        (compare_handler s b a = compare_handler s a b \<or> dr_ts x = dr_ts y)
    | e \<Rightarrow> compare_handler s b a = e \<or> e = ServerError)"
proof (cases "require_diagnostic s a")
  case (Inl e)
  then have "e \<in> {NotImplemented, BadRequest, NotFound}"
    by (auto simp: require_diagnostic_def split: option.splits if_splits)
  with Inl show ?thesis
    by (auto simp: compare_handler_def require_diagnostic_def Let_def split: option.splits if_splits)
next
  case a: (Inr x)
  show ?thesis
  proof (cases "require_diagnostic s b")
    case (Inl e)
    then have "e \<in> {NotImplemented, BadRequest, NotFound}"
      by (auto simp: require_diagnostic_def split: option.splits if_splits)
    with a Inl show ?thesis by (auto simp: compare_handler_def)
  next
    case b: (Inr y)
    then show ?thesis using a require_id [OF a] require_id [OF b]
      by (auto simp: compare_handler_def Let_def kind_name_def split: option.splits)
  qed
qed

lemma get_appended: "i \<notin> dr_id ` set rows \<Longrightarrow> dr_id r = i \<Longrightarrow> get_diagnostic i (rows @ [r]) = Some r"
  unfolding get_diagnostic_def by (induction rows) auto

lemma store_cases:
  "(\<exists>rows. ds_rows s = Some rows \<and> i \<noteq> [] \<and> i \<notin> dr_id ` set rows \<and> db_ok \<and> \<not> gone \<and>
      store_diagnostic gone db_ok i t d s = (s\<lparr>ds_rows := Some (rows @ [diagnostic_row i t d])\<rparr>, i))
   \<or> store_diagnostic gone db_ok i t d s = (s, [])"
  by (cases s) (auto simp: store_diagnostic_def write_diagnostic_def diagnostic_row_def split: option.splits)

lemma collect_cases:
  "(\<exists>d t. collect_handler run gone db_ok i s p k =
      (fst (store_diagnostic gone db_ok i t d s), Collected (snd (store_diagnostic gone db_ok i t d s)) d))
   \<or> (\<exists>e. e \<in> {NotImplemented, BadRequest, NotFound, BadGateway} \<and> collect_handler run gone db_ok i s p k = (s, e))"
proof -
  have "\<exists>t. collect_handler run gone db_ok i s p k =
      (fst (store_diagnostic gone db_ok i t d s), Collected (snd (store_diagnostic gone db_ok i t d s)) d)"
    if "collect_handler run gone db_ok i s p k = (s', Collected st d)" for s' st d
  proof -
    from that obtain t where "store_diagnostic gone db_ok i t d s = (s', st)"
      by (auto simp: collect_handler_def split: if_splits option.splits sum.splits prod.splits)
    with that show ?thesis by (intro exI [of _ t]) simp
  qed
  moreover have "snd (collect_handler run gone db_ok i s p k) \<in> {NotImplemented, BadRequest, NotFound, BadGateway} \<and>
      fst (collect_handler run gone db_ok i s p k) = s"
    if "\<forall>st d. snd (collect_handler run gone db_ok i s p k) \<noteq> Collected st d"
    using that by (auto simp: collect_handler_def split: if_splits option.splits sum.splits prod.splits)
  ultimately show ?thesis by (metis prod.collapse)
qed


text \<open>(client_gone_loses_dump) The comment on the write says it must not be bounded by the request; it is: a
  client that has gone by the time the dump is complete leaves no row.\<close>

theorem client_gone_loses_dump:
  "fst (collect_handler run True db_ok i s p k) = s"
  using collect_cases [of run True db_ok i s p k]
proof (elim disjE exE conjE)
  fix d t
  assume "collect_handler run True db_ok i s p k =
      (fst (store_diagnostic True db_ok i t d s), Collected (snd (store_diagnostic True db_ok i t d s)) d)"
  then show ?thesis using store_cases [of s i db_ok True t d] by auto
qed auto

end
