(* ===== verification/Scanner.thy ===== *)
theory Scanner
  imports Jvm Netns Net_Addr Go_Regexp "HOL-Library.Signed_Division"
begin

text \<open>
  \<open>internal/discovery/scanner.go\<close>, the part that reads \<open>/proc\<close>: which processes are Java, and what the
  kernel's files say about each (command line, credentials, start time, control group, namespaces,
  gateway).  The file system is an argument, \<open>proc_fs\<close>: what a read of each file yields, \<open>None\<close> for a
  failing one.  The scanner's own state is its three caches.  What the performance data of a process
  makes of the reader (\<open>Hsperf\<close>) is kept: a file that makes it panic ends the scan.
\<close>

section \<open>What the scanner reads\<close>

text \<open>The lines of \<open>maps\<close> and \<open>status\<close> are those \<open>bufio.Scanner\<close> yields; \<open>clock\<close> is the time before and
  after the container lookup.\<close>

record process =
  cmdline_file :: "string option"
  exe_link :: string
  maps_file :: "string list option"
  status_file :: "string list option"
  stat_file :: "string option"
  dir_mtime :: "gotime option"
  cgroup_file :: "string option"
  mnt_ns :: "string option"
  net_ns :: "string option"
  routes_file :: "string list option"
  perf_dirs :: "string list"
  perf_file :: "string \<Rightarrow> (nat \<times> bytes option) option"
  clock :: "gotime \<times> gotime"

record proc_fs =
  fs_root :: string
  fs_entries :: "(string \<times> bool) list option"
  fs_process :: "int \<Rightarrow> process option"
  fs_stat :: "string option"
  fs_our_net :: string
  fs_users :: "int \<Rightarrow> string option"

record scanner =
  sc_self :: int
  sc_boot :: gotime
  sc_users :: "int \<rightharpoonup> string"
  sc_containers :: "resolver option"

definition new_scanner :: "int \<Rightarrow> scanner" where
  "new_scanner self = \<lparr>sc_self = self, sc_boot = zero_time, sc_users = Map.empty, sc_containers = None\<rparr>"

definition with_containers :: "scanner \<Rightarrow> resolver option \<Rightarrow> scanner" where
  "with_containers s r = s\<lparr>sc_containers := r\<rparr>"

section \<open>The files of one process\<close>

definition nul :: char where "nul = CHR 0x00"

definition read_cmdline :: "string option \<Rightarrow> string list" where
  "read_cmdline file =
     (case file of
        None \<Rightarrow> []
      | Some data \<Rightarrow>
          if data = [] then []
          else filter (\<lambda>p. p \<noteq> []) (split_on nul (trim_right (\<lambda>c. c = nul) data)))"

definition status_line :: "jvm \<Rightarrow> string \<Rightarrow> jvm" where
  "status_line j line =
     (let ws = split_fields line in
      if has_prefix line ''Uid:'' then (if 1 < length ws then j\<lparr>j_uid := atoi_val (ws ! 1)\<rparr> else j)
      else if has_prefix line ''Gid:'' then (if 1 < length ws then j\<lparr>j_gid := atoi_val (ws ! 1)\<rparr> else j)
      else if has_prefix line ''NSpid:'' then
        (if 1 < length ws then (case atoi (last ws) of None \<Rightarrow> j | Some n \<Rightarrow> j\<lparr>j_nspid := n\<rparr>) else j)
      else j)"

definition read_status :: "string list option \<Rightarrow> jvm \<Rightarrow> jvm" where
  "read_status file j = (case file of None \<Rightarrow> j | Some ls \<Rightarrow> foldl status_line j ls)"

definition clock_ticks :: int where "clock_ticks = 100"

text \<open>A duration is a signed 64-bit number of nanoseconds: the product wraps before it is divided.\<close>

definition ticks_duration :: "int \<Rightarrow> duration" where
  "ticks_duration ticks = wrap64 (ticks * second) sdiv clock_ticks"

fun boot_time_of :: "string list \<Rightarrow> gotime" where
  "boot_time_of [] = zero_time"
| "boot_time_of (l # ls) =
     (case cut_prefix l ''btime '' of
        None \<Rightarrow> boot_time_of ls
      | Some t \<Rightarrow> (case atoi (trim_space t) of None \<Rightarrow> boot_time_of ls | Some secs \<Rightarrow> secs * second))"

definition read_boot_time :: "proc_fs \<Rightarrow> gotime" where
  "read_boot_time fs = (case fs_stat fs of None \<Rightarrow> zero_time | Some t \<Rightarrow> boot_time_of (split_on (CHR 0x0A) t))"

text \<open>The 22nd field of \<open>stat\<close>, counted from the last closing parenthesis.\<close>

definition start_ticks :: "string \<Rightarrow> int option" where
  "start_ticks data =
     (case last_index (CHR '')'') data of
        None \<Rightarrow> None
      | Some i \<Rightarrow>
          if 0 < i \<and> i + 2 < length data then
            (let ws = split_fields (drop (i + 2) data)
             in if 19 < length ws then atoi (ws ! 19) else None)
          else None)"

definition known_boot :: "proc_fs \<Rightarrow> scanner \<Rightarrow> gotime" where
  "known_boot fs s = (if is_zero_time (sc_boot s) then read_boot_time fs else sc_boot s)"

definition start_time :: "gotime \<Rightarrow> process \<Rightarrow> gotime" where
  "start_time boot pr =
     (let fallback = (case dir_mtime pr of None \<Rightarrow> zero_time | Some t \<Rightarrow> t)
      in if is_zero_time boot then fallback
         else case Option.bind (stat_file pr) start_ticks of
                None \<Rightarrow> fallback
              | Some ticks \<Rightarrow> boot + ticks_duration ticks)"

section \<open>Control group, namespaces, gateway\<close>

definition unit_char :: "char \<Rightarrow> bool" where
  "unit_char c \<longleftrightarrow> is_word c \<or> c \<in> {CHR ''-'', CHR ''.'', CHR ''@'', CHR 0x5C}"

definition systemd_unit_re :: re where
  "systemd_unit_re =
     Seq (One (\<lambda>c. c = CHR ''/'')) (Group 1 (Seq (plus (One unit_char)) (lit ''.service'')))"

definition read_cgroup :: "string option \<Rightarrow> jvm \<Rightarrow> jvm" where
  "read_cgroup file j =
     (case file of
        None \<Rightarrow> j
      | Some t \<Rightarrow>
          (let cid = container_id_of t;
               j1 = (if cid = [] then j else j\<lparr>j_container_id := cid\<rparr>);
               j2 = (case re_find systemd_unit_re t of
                       None \<Rightarrow> j1
                     | Some (_, g) \<Rightarrow> j1\<lparr>j_unit := trim_suffix (sub g 1) ''.service''\<rparr>)
           in j2\<lparr>j_pod_uid := pod_uid_from_cgroup t\<rparr>))"

definition resolve_container :: "gotime \<times> gotime \<Rightarrow> resolver option \<Rightarrow> jvm \<Rightarrow> resolver option \<times> jvm" where
  "resolve_container now rs j =
     (if rs = None \<or> j_container_id j = [] then (rs, j)
      else case resolve (fst now) (snd now) rs (j_container_id j) of
             (rs', None) \<Rightarrow> (rs', j)
           | (rs', Some i) \<Rightarrow>
               (rs', j\<lparr>j_container := Some (if i_pod_uid i = [] then i\<lparr>i_pod_uid := j_pod_uid j\<rparr> else i)\<rparr>))"

definition namespace_differs :: "string option \<Rightarrow> string \<Rightarrow> bool" where
  "namespace_differs target reference =
     (if reference = [] then False else case target of None \<Rightarrow> False | Some t \<Rightarrow> t \<noteq> reference)"

definition host_mnt :: "proc_fs \<Rightarrow> string" where
  "host_mnt fs = (case fs_process fs 1 of None \<Rightarrow> [] | Some pr \<Rightarrow> (case mnt_ns pr of None \<Rightarrow> [] | Some l \<Rightarrow> l))"

definition detect_namespace :: "proc_fs \<Rightarrow> process \<Rightarrow> jvm \<Rightarrow> jvm" where
  "detect_namespace fs pr j =
     (let inside = (j_nspid j \<noteq> j_pid j \<or> j_container_id j \<noteq> []);
          elsewhere = namespace_differs (mnt_ns pr) (host_mnt fs)
      in j\<lparr>j_in_container := (if inside \<or> elsewhere then True else j_in_container j),
           j_shares_network := \<not> namespace_differs (net_ns pr) (fs_our_net fs)\<rparr>)"

definition resolve_gateway :: "process \<Rightarrow> jvm \<Rightarrow> jvm" where
  "resolve_gateway pr j =
     (if j_shares_network j then j
      else case gateway (routes_file pr) of
             Inl _ \<Rightarrow> j
           | Inr a \<Rightarrow> j\<lparr>j_gateway := ipv4_string a\<rparr>)"

definition lookup_user :: "(int \<Rightarrow> string option) \<Rightarrow> (int \<rightharpoonup> string) \<Rightarrow> int \<Rightarrow> (int \<rightharpoonup> string) \<times> string" where
  "lookup_user users cache uid =
     (case cache uid of
        Some name \<Rightarrow> (cache, name)
      | None \<Rightarrow>
          (let name = (case users uid of None \<Rightarrow> [] | Some n \<Rightarrow> n)
           in (cache(uid \<mapsto> name), name)))"

text \<open>The candidate files of the performance data, in the order they are tried.\<close>

definition hsperf_path :: "string \<Rightarrow> string list \<Rightarrow> int \<Rightarrow> int \<Rightarrow> string \<Rightarrow> string list" where
  "hsperf_path proot globbed p nspid user =
     (let names = itoa nspid # (if nspid \<noteq> p then [itoa p] else []);
          dirs = (if user \<noteq> [] then [path_join [path_join [proot, itoa p, ''root''], ''tmp'', ''hsperfdata_'' @ user]]
                  else []) @ globbed
      in rev (remdups (rev (concat (map (\<lambda>d. map (\<lambda>n. path_join [d, n]) names) dirs)))))"

section \<open>Inspecting and scanning\<close>

datatype inspection = Vanished | NotJava | Found jvm | Panics

text \<open>What \<open>Inspect\<close> makes of a Java process, before the performance data.\<close>

definition describe ::
  "proc_fs \<Rightarrow> gotime \<Rightarrow> process \<Rightarrow> (int \<rightharpoonup> string) \<Rightarrow> resolver option \<Rightarrow> int \<Rightarrow> (int \<rightharpoonup> string) \<times> resolver option \<times> jvm" where
  "describe fs boot pr cache rs p =
     (let cmd = read_cmdline (cmdline_file pr);
          j0 = read_status (status_file pr) (new_jvm p cmd (exe_link pr));
          (cache', user) = lookup_user (fs_users fs) cache (j_uid j0);
          j1 = j0\<lparr>j_user := user, j_start := start_time boot pr, j_java_home := derive_java_home (exe_link pr) cmd\<rparr>;
          j2 = resolve_gateway pr (detect_namespace fs pr (read_cgroup (cgroup_file pr) j1));
          (rs', j3) = resolve_container (clock pr) rs j2
      in (cache', rs', parse_entry_point cmd (parse_agent_flags cmd (parse_system_props cmd j3))))"

definition with_perf :: "proc_fs \<Rightarrow> process \<Rightarrow> jvm \<Rightarrow> inspection" where
  "with_perf fs pr j =
     (case read_perf_data (map (perf_file pr) (hsperf_path (fs_root fs) (perf_dirs pr) (j_pid j) (j_nspid j) (j_user j))) of
        Panicked \<Rightarrow> Panics
      | Failed e \<Rightarrow> Found (derive_service_name j)
      | Parsed None \<Rightarrow> Found (derive_service_name j)
      | Parsed (Some pd) \<Rightarrow> Found (derive_service_name (apply_perf_data pd j)))"

definition inspect :: "proc_fs \<Rightarrow> scanner \<Rightarrow> int \<Rightarrow> scanner \<times> inspection" where
  "inspect fs s p =
     (case fs_process fs p of
        None \<Rightarrow> (s, Vanished)
      | Some pr \<Rightarrow>
          if \<not> is_jvm (exe_link pr) (read_cmdline (cmdline_file pr)) (maps_file pr) then (s, NotJava)
          else
            (case describe fs (known_boot fs s) pr (sc_users s) (sc_containers s) p of
               (cache, rs, j) \<Rightarrow>
                 (s\<lparr>sc_boot := known_boot fs s, sc_users := cache, sc_containers := rs\<rparr>, with_perf fs pr j)))"

definition entry_pid :: "scanner \<Rightarrow> string \<times> bool \<Rightarrow> int option" where
  "entry_pid s e =
     (if \<not> snd e then None
      else case atoi (fst e) of None \<Rightarrow> None | Some p \<Rightarrow> if p = sc_self s then None else Some p)"

fun scan_pids :: "proc_fs \<Rightarrow> scanner \<Rightarrow> int list \<Rightarrow> (scanner \<times> jvm list) option" where
  "scan_pids fs s [] = Some (s, [])"
| "scan_pids fs s (p # ps) =
     (case inspect fs s p of
        (s', Panics) \<Rightarrow> None
      | (s', Found j) \<Rightarrow> map_option (\<lambda>(s'', js). (s'', j # js)) (scan_pids fs s' ps)
      | (s', _) \<Rightarrow> scan_pids fs s' ps)"

text \<open>\<open>None\<close> is the panic; the sum holds the error of an unreadable directory.\<close>

definition scan :: "proc_fs \<Rightarrow> scanner \<Rightarrow> (scanner \<times> (unit + jvm list)) option" where
  "scan fs s =
     (case fs_entries fs of
        None \<Rightarrow> Some (s, Inl ())
      | Some es \<Rightarrow> map_option (\<lambda>(s', js). (s', Inr js)) (scan_pids fs s (List.map_filter (entry_pid s) es)))"

section \<open>Lemmas: the caches\<close>

definition user_name :: "proc_fs \<Rightarrow> int \<Rightarrow> string" where
  "user_name fs uid = (case fs_users fs uid of None \<Rightarrow> [] | Some n \<Rightarrow> n)"

text \<open>The caches say what a fresh look would.\<close>

definition caches_ok :: "proc_fs \<Rightarrow> scanner \<Rightarrow> bool" where
  "caches_ok fs s \<longleftrightarrow>
     (\<forall>uid n. sc_users s uid = Some n \<longrightarrow> n = user_name fs uid) \<and>
     (sc_boot s = zero_time \<or> sc_boot s = read_boot_time fs) \<and> sc_containers s = None"

lemma caches_new [simp]: "caches_ok fs (new_scanner self)"
  by (simp add: caches_ok_def new_scanner_def)

lemma known_boot_ok: "caches_ok fs s \<Longrightarrow> known_boot fs s = read_boot_time fs"
  by (auto simp: caches_ok_def known_boot_def is_zero_time_def)

lemma lookup_user_alt:
  "lookup_user (fs_users fs) cache uid =
     (case cache uid of Some n \<Rightarrow> (cache, n) | None \<Rightarrow> (cache(uid \<mapsto> user_name fs uid), user_name fs uid))"
  by (simp add: lookup_user_def user_name_def Let_def split: option.split)

lemma lookup_user_ok:
  assumes "\<forall>uid n. cache uid = Some n \<longrightarrow> n = user_name fs uid"
  shows "snd (lookup_user (fs_users fs) cache uid) = user_name fs uid"
    and "\<forall>u n. fst (lookup_user (fs_users fs) cache uid) u = Some n \<longrightarrow> n = user_name fs u"
  using assms by (auto simp: lookup_user_alt split: option.splits)

lemma resolve_container_none [simp]: "resolve_container now None j = (None, j)"
  by (simp add: resolve_container_def)

lemma describe_alt:
  "describe fs boot pr cache None p =
     (let cmd = read_cmdline (cmdline_file pr);
          j0 = read_status (status_file pr) (new_jvm p cmd (exe_link pr));
          j1 = j0\<lparr>j_user := snd (lookup_user (fs_users fs) cache (j_uid j0)), j_start := start_time boot pr,
                  j_java_home := derive_java_home (exe_link pr) cmd\<rparr>;
          j2 = resolve_gateway pr (detect_namespace fs pr (read_cgroup (cgroup_file pr) j1))
      in (fst (lookup_user (fs_users fs) cache (j_uid j0)), None,
          parse_entry_point cmd (parse_agent_flags cmd (parse_system_props cmd j2))))"
  by (simp only: describe_def Let_def split_beta resolve_container_none fst_conv snd_conv)

lemma describe_ok:
  assumes c: "\<forall>uid n. cache uid = Some n \<longrightarrow> n = user_name fs uid"
  shows "snd (snd (describe fs boot pr cache None p)) = snd (snd (describe fs boot pr Map.empty None p))"
    and "fst (snd (describe fs boot pr cache None p)) = None"
    and "\<forall>u n. fst (describe fs boot pr cache None p) u = Some n \<longrightarrow> n = user_name fs u"
proof -
  have e: "\<forall>uid n. Map.empty uid = Some n \<longrightarrow> n = user_name fs uid" by simp
  show "snd (snd (describe fs boot pr cache None p)) = snd (snd (describe fs boot pr Map.empty None p))"
    by (simp only: describe_alt Let_def snd_conv lookup_user_ok(1) [OF c] lookup_user_ok(1) [OF e])
  show "fst (snd (describe fs boot pr cache None p)) = None"
    by (simp only: describe_alt Let_def snd_conv fst_conv)
  show "\<forall>u n. fst (describe fs boot pr cache None p) u = Some n \<longrightarrow> n = user_name fs u"
    using lookup_user_ok(2) [OF c] by (simp only: describe_alt Let_def fst_conv) blast
qed

lemma inspect_alt:
  "inspect fs s p =
     (case fs_process fs p of
        None \<Rightarrow> (s, Vanished)
      | Some pr \<Rightarrow>
          if \<not> is_jvm (exe_link pr) (read_cmdline (cmdline_file pr)) (maps_file pr) then (s, NotJava)
          else (let d = describe fs (known_boot fs s) pr (sc_users s) (sc_containers s) p
                in (s\<lparr>sc_boot := known_boot fs s, sc_users := fst d, sc_containers := fst (snd d)\<rparr>,
                    with_perf fs pr (snd (snd d)))))"
  by (simp add: inspect_def split_beta Let_def cong: option.case_cong if_cong)

lemma inspect_ok:
  assumes "caches_ok fs s"
  shows "caches_ok fs (fst (inspect fs s p))"
    and "snd (inspect fs s p) = snd (inspect fs (new_scanner 0) p)"
    and "sc_self (fst (inspect fs s p)) = sc_self s"
proof -
  have c: "\<forall>uid n. sc_users s uid = Some n \<longrightarrow> n = user_name fs uid" and n: "sc_containers s = None"
    using assms by (auto simp: caches_ok_def)
  note d = describe_ok [OF c]
  have k: "known_boot fs s = read_boot_time fs" "known_boot fs (new_scanner 0) = read_boot_time fs"
    using known_boot_ok [OF assms] known_boot_ok [OF caches_new] by auto
  have e: "sc_users (new_scanner 0) = Map.empty" "sc_containers (new_scanner 0) = None"
    by (simp_all add: new_scanner_def)
  show "caches_ok fs (fst (inspect fs s p))"
    using assms d(2,3) by (simp add: inspect_alt caches_ok_def k n Let_def split: option.split)
  show "snd (inspect fs s p) = snd (inspect fs (new_scanner 0) p)"
    using d(1) by (simp add: inspect_alt k n e Let_def split: option.split)
  show "sc_self (fst (inspect fs s p)) = sc_self s"
    by (simp add: inspect_alt Let_def split: option.split)
qed

definition found_at :: "proc_fs \<Rightarrow> int \<Rightarrow> jvm option" where
  "found_at fs p = (case snd (inspect fs (new_scanner 0) p) of Found j \<Rightarrow> Some j | _ \<Rightarrow> None)"

lemma scan_pids_ok:
  "caches_ok fs s \<Longrightarrow>
   (case scan_pids fs s ps of
      None \<Rightarrow> list_ex (\<lambda>p. snd (inspect fs (new_scanner 0) p) = Panics) ps
    | Some (s', js) \<Rightarrow> caches_ok fs s' \<and> sc_self s' = sc_self s \<and> js = List.map_filter (found_at fs) ps \<and>
        list_all (\<lambda>p. snd (inspect fs (new_scanner 0) p) \<noteq> Panics) ps)"
proof (induction ps arbitrary: s)
  case (Cons p ps)
  obtain s' r where r: "inspect fs s p = (s', r)" by fastforce
  note i = inspect_ok [OF Cons.prems, of p]
  have ok: "caches_ok fs s'" "r = snd (inspect fs (new_scanner 0) p)" "sc_self s' = sc_self s" using i r by simp_all
  note ih = Cons.IH [OF ok(1)]
  show ?case
  proof (cases r)
    case (Found j)
    with ok(2) have "snd (inspect fs (new_scanner 0) p) = Found j" by simp
    then have "found_at fs p = Some j" "snd (inspect fs (new_scanner 0) p) \<noteq> Panics" by (simp_all add: found_at_def)
    with Found ih ok r show ?thesis
      by (auto simp: List.map_filter_simps split: option.splits)
  qed (use ih ok r in \<open>auto simp: List.map_filter_simps found_at_def split: option.splits\<close>)
qed (simp add: List.map_filter_simps)

section \<open>Lemmas: fields of the kernel's files\<close>

lemma fields_go_word: "list_all (\<lambda>c. \<not> is_space c) w \<Longrightarrow> fields_go acc (w @ s) = fields_go (rev w @ acc) s"
  by (induction w arbitrary: acc) auto

definition field :: "string \<Rightarrow> bool" where
  "field w \<longleftrightarrow> w \<noteq> [] \<and> list_all (\<lambda>c. \<not> is_space c \<and> c \<noteq> CHR '')'') w"

lemma field_word: "field w \<Longrightarrow> list_all (\<lambda>c. \<not> is_space c) w"
  by (simp add: field_def list_all_iff)

lemma fields_go_end [simp]: "fields_go [] [CHR 0x0A] = []"
  by (simp add: is_space_def)

lemma fields_go_sep:
  assumes "field w" and "is_space c"
  shows "fields_go [] (w @ c # s) = w # fields_go [] s"
  using fields_go_word [OF field_word [OF assms(1)], of "[]" "c # s"] assms by (simp add: field_def)

lemma fields_of_join: "list_all field ws \<Longrightarrow> split_fields (join '' '' ws @ [CHR 0x0A]) = ws"
proof (induction ws)
  case (Cons w ws)
  show ?case
  proof (cases ws)
    case Nil
    then show ?thesis using Cons fields_go_sep [of w "CHR 0x0A" "[]"]
      by (simp add: split_fields_def is_space_def)
  next
    case (Cons v vs)
    have "split_fields (join '' '' ws @ [CHR 0x0A]) = ws" using Cons.IH Cons.prems by simp
    moreover have "join '' '' (w # ws) @ [CHR 0x0A] = w @ CHR '' '' # join '' '' ws @ [CHR 0x0A]" using Cons by simp
    ultimately show ?thesis using fields_go_sep [of w "CHR '' ''" "join '' '' ws @ [CHR 0x0A]"] Cons.prems
      by (simp add: split_fields_def is_space_def)
  qed
qed (simp add: split_fields_def is_space_def)

lemma join_no_paren: "list_all field ws \<Longrightarrow> CHR '')'' \<notin> set (join '' '' ws)"
  using set_join [of "'' ''" ws] by (fastforce simp: field_def list_all_iff)

section \<open>Properties\<close>

text \<open>(the start of a process is read off) With a process name of any bytes in \<open>stat\<close>, parentheses
  and spaces included, the start time is the boot time plus the ticks at a hundred a second, as long as
  the process started less than 9223372037 ticks after boot.\<close>

theorem start_time_exact:
  assumes "stat_file pr = Some (itoa p @ '' ('' @ comm @ '') '' @ join '' '' ws @ [CHR 0x0A])"
    and "list_all field ws" and "19 < length ws" and "ws ! 19 = itoa ticks"
    and "0 \<le> ticks" and "ticks < 9223372037" and "boot \<noteq> zero_time"
  shows "start_time boot pr = boot + ticks * (10 * millisecond)"
proof -
  let ?a = "itoa p @ '' ('' @ comm" and ?b = "'' '' @ join '' '' ws @ [CHR 0x0A]"
  have "join '' '' ws \<noteq> []" using assms(2,3) by (cases ws rule: remdups_adj.cases) (auto simp: field_def)
  then have long: "1 < length (join '' '' ws @ [CHR 0x0A])" by (cases "join '' '' ws") auto
  have "last_index (CHR '')'') (?a @ CHR '')'' # ?b) = Some (length ?a)"
    by (rule last_index_append) (use join_no_paren [OF assms(2)] in auto)
  moreover have "drop (length ?a + 2) (?a @ CHR '')'' # ?b) = join '' '' ws @ [CHR 0x0A]"
    by (simp only: drop_append) simp
  ultimately have "start_ticks (?a @ CHR '')'' # ?b) = atoi (itoa ticks)"
    using assms fields_of_join [OF assms(2)] long by (simp add: start_ticks_def)
  then have t: "start_ticks (?a @ CHR '')'' # ?b) = Some ticks" using assms by (simp add: atoi_itoa)
  have "ticks_duration ticks = ticks * (10 * millisecond)"
    using assms(5,6) by (simp add: ticks_duration_def clock_ticks_def in_int64_def signed_divide_int_def sgn_if)
  with t show ?thesis using assms(1,7) by (simp add: start_time_def is_zero_time_def)
qed

definition sample_stat :: "string list" where
  "sample_stat = [''S'', ''1'', ''7'', ''7'', ''0'', ''0'', ''0'', ''0'', ''0'', ''0'', ''0'', ''0'', ''0'', ''0'', ''0'', ''20'', ''0'',
     ''30'', ''0'', ''4500'']"

definition sample_process :: process where
  "sample_process =
     \<lparr>cmdline_file = Some (''java'' @ [nul] @ ''Main'' @ [nul]), exe_link = ''/opt/jdk/bin/java'', maps_file = None,
      status_file = None, stat_file = Some (itoa 7 @ '' ('' @ ''my (app) x'' @ '') '' @ join '' '' sample_stat @ [CHR 0x0A]),
      dir_mtime = None, cgroup_file = None, mnt_ns = None, net_ns = None, routes_file = None, perf_dirs = [],
      perf_file = Map.empty, clock = (0, 0)\<rparr>"

theorem start_time_exact_witness:
  "start_time (1700000000 * second) sample_process = 1700000000 * second + 4500 * (10 * millisecond)"
proof (rule start_time_exact)
  show "stat_file sample_process = Some (itoa 7 @ '' ('' @ ''my (app) x'' @ '') '' @ join '' '' sample_stat @ [CHR 0x0A])"
    by (simp add: sample_process_def)
  show "list_all field sample_stat" by code_simp
  show "sample_stat ! 19 = itoa 4500" by code_simp
qed (simp_all add: sample_stat_def zero_time_def)

text \<open>(start_time_wraps) A tick later the product leaves 64 bits, and the process appears to have started
  before the machine did.\<close>

theorem start_time_wraps:
  "ticks_duration 9223372036 = 92233720360000000 \<and> ticks_duration 9223372037 < 0"
  by code_simp

text \<open>(the caches do not show) With caches that agree with the files (a new scanner's do), a scan
  without a container resolver finds, in the order of the directory, exactly the processes that a
  scanner without any memory finds to be Java, leaves itself out, and keeps the caches in agreement;
  and it panics exactly when the performance data of one of them makes the reader panic.\<close>

theorem scan_stateless:
  assumes "caches_ok fs s"
  shows "case scan fs s of
       None \<Rightarrow> list_ex (\<lambda>p. snd (inspect fs (new_scanner 0) p) = Panics)
                 (List.map_filter (entry_pid s) (the (fs_entries fs)))
     | Some (s', Inl e) \<Rightarrow> s' = s \<and> fs_entries fs = None
     | Some (s', Inr js) \<Rightarrow> caches_ok fs s' \<and>
         js = List.map_filter (found_at fs) (List.map_filter (entry_pid s) (the (fs_entries fs))) \<and>
         list_all (\<lambda>p. snd (inspect fs (new_scanner 0) p) \<noteq> Panics)
           (List.map_filter (entry_pid s) (the (fs_entries fs)))"
proof (cases "fs_entries fs")
  case (Some es)
  show ?thesis
    using scan_pids_ok [OF assms, of "List.map_filter (entry_pid s) es"] Some
    by (auto simp: scan_def split: option.splits)
qed (simp add: scan_def)

definition sample_fs :: proc_fs where
  "sample_fs =
     \<lparr>fs_root = ''/proc'', fs_entries = Some [(''1'', True), (''7'', True), (''uptime'', False)],
      fs_process = [7 \<mapsto> sample_process], fs_stat = Some ''btime 1700000000'', fs_our_net = [],
      fs_users = [0 \<mapsto> ''root'']\<rparr>"

theorem scan_stateless_witness:
  "case scan sample_fs (new_scanner 1) of
       None \<Rightarrow> list_ex (\<lambda>p. snd (inspect sample_fs (new_scanner 0) p) = Panics)
                 (List.map_filter (entry_pid (new_scanner 1)) (the (fs_entries sample_fs)))
     | Some (s', Inl e) \<Rightarrow> s' = new_scanner 1 \<and> fs_entries sample_fs = None
     | Some (s', Inr js) \<Rightarrow> caches_ok sample_fs s' \<and>
         js = List.map_filter (found_at sample_fs)
                (List.map_filter (entry_pid (new_scanner 1)) (the (fs_entries sample_fs))) \<and>
         list_all (\<lambda>p. snd (inspect sample_fs (new_scanner 0) p) \<noteq> Panics)
           (List.map_filter (entry_pid (new_scanner 1)) (the (fs_entries sample_fs)))"
  by (rule scan_stateless) simp

section \<open>What is known of a process found\<close>

text \<open>The fields that say who a process is and how it reaches us; what is read from the command line
  and the performance data leaves them alone.\<close>

definition identity :: "jvm \<Rightarrow> int \<times> string \<times> bool \<times> string \<times> bool \<times> info option" where
  "identity j = (j_pid j, j_gateway j, j_shares_network j, j_container_id j, j_in_container j, j_container j)"

lemma entry_point_identity: "identity (entry_point args j) = identity j"
  by (induction args j rule: entry_point.induct) (auto simp: identity_def split: list.split)

lemma identity_kept [simp]:
  "identity (parse_system_props args j) = identity j"
  "identity (parse_agent_flags args j) = identity j"
  "identity (parse_entry_point cmd j) = identity j"
  "identity (derive_service_name j) = identity j"
  using entry_point_identity [of "drop 1 cmd" j]
  by (auto simp: parse_system_props_def parse_agent_flags_def parse_entry_point_def derive_service_name_def
      with_service_def Let_def identity_def)

lemma identity_perf [simp]: "identity (apply_perf_data pd j) = identity j"
  using identity_kept(1,2)
  by (auto simp: apply_perf_data_def Let_def identity_def split: prod.splits)

definition jvm_ok :: "int \<Rightarrow> jvm \<Rightarrow> bool" where
  "jvm_ok p j \<longleftrightarrow>
     j_pid j = p \<and> (j_gateway j = [] \<or> \<not> j_shares_network j) \<and>
     (j_container_id j = [] \<or> j_in_container j) \<and> (j_container j = None \<or> j_container_id j \<noteq> [])"

lemma jvm_ok_identity: "identity j = identity k \<Longrightarrow> jvm_ok p j = jvm_ok p k"
  by (auto simp: identity_def jvm_ok_def)

lemma status_line_identity: "identity (status_line j l) = identity j"
  by (auto simp: status_line_def identity_def Let_def split: option.split)

lemma read_status_identity: "identity (read_status file j) = identity j"
proof -
  have "identity (foldl status_line j ls) = identity j" for ls
    by (induction ls arbitrary: j) (simp_all add: status_line_identity)
  then show ?thesis by (simp add: read_status_def split: option.split)
qed

lemma resolve_container_ok:
  "j_container j = None \<Longrightarrow> jvm_ok p j \<Longrightarrow> jvm_ok p (snd (resolve_container now rs j))"
  by (auto simp: resolve_container_def jvm_ok_def split: prod.split option.split)

lemma read_cgroup_kept:
  "j_pid (read_cgroup f j) = j_pid j" "j_gateway (read_cgroup f j) = j_gateway j"
  "j_container (read_cgroup f j) = j_container j"
  by (auto simp: read_cgroup_def Let_def split: option.split)

lemma located_ok:
  assumes "j_pid j = p" "j_gateway j = []" "j_container j = None"
  shows "jvm_ok p (resolve_gateway pr (detect_namespace fs pr (read_cgroup f j)))"
    and "j_container (resolve_gateway pr (detect_namespace fs pr (read_cgroup f j))) = None"
  using assms read_cgroup_kept [of f j]
  by (auto simp: resolve_gateway_def detect_namespace_def jvm_ok_def Let_def split: sum.split)

lemma describe_jvm_ok: "jvm_ok p (snd (snd (describe fs boot pr cache rs p)))"
proof -
  let ?cmd = "read_cmdline (cmdline_file pr)"
  let ?j0 = "read_status (status_file pr) (new_jvm p ?cmd (exe_link pr))"
  have "identity ?j0 = identity (new_jvm p ?cmd (exe_link pr))" by (rule read_status_identity)
  then have 0: "j_pid ?j0 = p" "j_gateway ?j0 = []" "j_container ?j0 = None"
    by (simp_all add: identity_def new_jvm_def)
  let ?j1 = "?j0\<lparr>j_user := snd (lookup_user (fs_users fs) cache (j_uid ?j0)), j_start := start_time boot pr,
               j_java_home := derive_java_home (exe_link pr) ?cmd\<rparr>"
  let ?j2 = "resolve_gateway pr (detect_namespace fs pr (read_cgroup (cgroup_file pr) ?j1))"
  have "jvm_ok p (snd (resolve_container (clock pr) rs ?j2))"
    by (rule resolve_container_ok; rule located_ok) (simp_all add: 0)
  moreover have "identity (snd (snd (describe fs boot pr cache rs p))) = identity (snd (resolve_container (clock pr) rs ?j2))"
    by (simp add: describe_def Let_def split_beta)
  ultimately show ?thesis using jvm_ok_identity by blast
qed

text \<open>(what a scan reports is usable) A process that is reported has the pid it was asked for, a
  command line, a service name, a gateway only when it does not share our network, container metadata
  only with a container id, and counts as containerised when it has one.\<close>

theorem found_jvm_ok:
  "case snd (inspect fs s p) of
     Found j \<Rightarrow> jvm_ok p j \<and> j_service j \<noteq> [] \<and>
       (case fs_process fs p of None \<Rightarrow> False | Some pr \<Rightarrow> read_cmdline (cmdline_file pr) \<noteq> [])
   | _ \<Rightarrow> True"
proof -
  have named: "j_service (derive_service_name j) \<noteq> []" for j
    by (auto simp: derive_service_name_def with_service_def main_class_service_name_def Let_def)
  have perf: "jvm_ok p j' \<and> j_service j' \<noteq> []" if "with_perf fs pr j = Found j'" "jvm_ok p j" for pr j j'
    using that named jvm_ok_identity [of j' j p]
    by (auto simp: with_perf_def split: parsed.splits option.splits)
  have "read_cmdline (cmdline_file pr) \<noteq> []"
    if "is_jvm (exe_link pr) (read_cmdline (cmdline_file pr)) (maps_file pr)" for pr
    using that by (auto simp: is_jvm_def)
  then show ?thesis
    using perf describe_jvm_ok by (auto simp: inspect_alt Let_def split: option.split inspection.split)
qed

end
