(* ===== verification/Ebpf_Discovery.thy ===== *)
theory Ebpf_Discovery
  imports Containers Go_Path
begin

text \<open>
  \<open>internal/ebpf/discover.go\<close> and \<open>listenports.go\<close>: which processes other than Java ones are handed to
  the eBPF instrumentation, under which name and with which ports.  What \<open>/proc\<close> holds of a process is
  the record \<open>proc_files\<close>, \<open>None\<close> where a read fails; whether the executable carries Go's build
  information is one of its fields, as the reader of that information is a library.
\<close>

section \<open>What is read\<close>

record proc_files =
  pf_exe :: "string option"
  pf_cmdline :: "string option"
  pf_status :: "string option"
  pf_cgroup :: "string option"
  pf_fds :: "string option list option"
  pf_tcp :: "string list option"
  pf_tcp6 :: "string list option"
  pf_buildinfo :: bool

type_synonym proc_tree = "int \<Rightarrow> proc_files"

section \<open>Targets\<close>

type_synonym runtime = string

definition runtime_node :: runtime where "runtime_node = ''nodejs''"
definition runtime_python :: runtime where "runtime_python = ''python''"
definition runtime_php :: runtime where "runtime_php = ''php''"
definition runtime_go :: runtime where "runtime_go = ''go''"
definition runtime_nginx :: runtime where "runtime_nginx = ''nginx''"
definition runtime_httpd :: runtime where "runtime_httpd = ''httpd''"

lemmas runtimes = runtime_node_def runtime_python_def runtime_php_def runtime_go_def runtime_nginx_def
  runtime_httpd_def

record target =
  tg_pid :: int
  tg_runtime :: runtime
  tg_name :: string
  tg_container :: string
  tg_ports :: "nat list"

definition target_port :: "target \<Rightarrow> nat" where
  "target_port t = (case tg_ports t of [] \<Rightarrow> 0 | p # ps \<Rightarrow> p)"

section \<open>Listening ports\<close>

definition parse_socket_link :: "string \<Rightarrow> nat option" where
  "parse_socket_link l =
     (if \<not> has_prefix l ''socket:['' \<or> \<not> has_suffix l '']'' then None
      else parse_uint10 64 (butlast (drop 8 l)))"

definition socket_inodes :: "string option list option \<Rightarrow> nat list option" where
  "socket_inodes fds = map_option (List.map_filter (\<lambda>l. Option.bind l parse_socket_link)) fds"

definition tcp_listen_state :: string where "tcp_listen_state = ''0A''"

definition parse_local_port :: "string \<Rightarrow> nat option" where
  "parse_local_port addr =
     (case cut (CHR '':'') addr of (_, hex, found) \<Rightarrow> if found then parse_uint16 32 hex else None)"

definition row_port :: "nat list \<Rightarrow> string \<Rightarrow> nat option" where
  "row_port owned line =
     (let ws = split_fields line in
      if length ws < 10 \<or> ws ! 3 \<noteq> tcp_listen_state then None
      else case parse_uint10 64 (ws ! 9) of
             None \<Rightarrow> None
           | Some inode \<Rightarrow> if inode \<in> set owned then parse_local_port (ws ! 1) else None)"

definition listening_ports_in_table :: "nat list \<Rightarrow> string list \<Rightarrow> nat list" where
  "listening_ports_in_table owned rows = List.map_filter (row_port owned) (drop 1 rows)"

definition table_ports :: "nat list \<Rightarrow> string list option \<Rightarrow> nat list" where
  "table_ports owned file = (case file of None \<Rightarrow> [] | Some rows \<Rightarrow> listening_ports_in_table owned rows)"

definition listen_ports :: "proc_files \<Rightarrow> nat list option" where
  "listen_ports f =
     (case socket_inodes (pf_fds f) of
        None \<Rightarrow> None
      | Some owned \<Rightarrow>
          if owned = [] then Some []
          else Some (sort (remdups (table_ports owned (pf_tcp f) @ table_ports owned (pf_tcp6 f)))))"

section \<open>Classification\<close>

definition interpreter_prefix :: "(string \<times> runtime) list" where
  "interpreter_prefix = [(''node'', runtime_node), (''python'', runtime_python), (''php-fpm'', runtime_php)]"

definition native_servers :: "(string \<times> runtime) list" where
  "native_servers = [(''nginx'', runtime_nginx), (''httpd'', runtime_httpd), (''apache2'', runtime_httpd)]"

definition go_daemon_denylist :: "string list" where
  "go_daemon_denylist =
     [''apm2go'', ''obi'', ''dockerd'', ''containerd'', ''kubelet'', ''etcd'', ''runc'', ''docker-proxy'']"

definition classify_exe :: "string \<Rightarrow> runtime option" where
  "classify_exe base = map_option snd (find (\<lambda>p. has_prefix base (fst p)) interpreter_prefix)"

definition container_id :: "proc_files \<Rightarrow> string" where
  "container_id f = (case pf_cgroup f of None \<Rightarrow> [] | Some t \<Rightarrow> container_id_of t)"

definition command_args :: "proc_files \<Rightarrow> string list" where
  "command_args f =
     (case pf_cmdline f of
        None \<Rightarrow> []
      | Some d \<Rightarrow> filter (\<lambda>p. p \<noteq> []) (split_on (CHR 0x00) (trim_right (\<lambda>c. c = CHR 0x00) d)))"

definition script_extensions :: "string list" where
  "script_extensions = [''.js'', ''.mjs'', ''.cjs'', ''.py'']"

fun script_in :: "string list \<Rightarrow> string \<Rightarrow> string" where
  "script_in [] fallback = fallback"
| "script_in (a # as) fallback =
     (if has_prefix a ''-'' then script_in as fallback
      else if path_ext (path_base a) \<in> set script_extensions
           then trim_suffix (path_base a) (path_ext (path_base a))
      else script_in as fallback)"

definition script_name :: "string list \<Rightarrow> string \<Rightarrow> string" where
  "script_name cmdline fallback = script_in (drop 1 cmdline) fallback"

definition pool_marker :: string where "pool_marker = ''pool ''"

definition php_fpm_pool_name :: "string list \<Rightarrow> string" where
  "php_fpm_pool_name cmdline =
     (let joined = join '' '' cmdline in
      case index_of joined pool_marker of
        None \<Rightarrow> []
      | Some i \<Rightarrow>
          (let name = drop (i + length pool_marker) joined
           in trim_space (case index_where (\<lambda>c. c = CHR '' '') name of None \<Rightarrow> name | Some sp \<Rightarrow> take sp name)))"

fun ppid_in :: "string list \<Rightarrow> int option" where
  "ppid_in [] = None"
| "ppid_in (l # ls) =
     (case cut_prefix l ''PPid:'' of None \<Rightarrow> ppid_in ls | Some v \<Rightarrow> atoi (trim_space v))"

definition parent_pid :: "proc_files \<Rightarrow> int option" where
  "parent_pid f = (case pf_status f of None \<Rightarrow> None | Some t \<Rightarrow> ppid_in (split_on (CHR 0x0A) t))"

definition is_process_master :: "proc_tree \<Rightarrow> int \<Rightarrow> bool" where
  "is_process_master proc p =
     (case parent_pid (proc p) of
        None \<Rightarrow> True
      | Some parent \<Rightarrow>
          if parent \<le> 0 then True
          else case (pf_exe (proc p), pf_exe (proc parent)) of
                 (Some self, Some other) \<Rightarrow> path_base self \<noteq> path_base other
               | _ \<Rightarrow> True)"

text \<open>A target needs a port; \<open>None\<close> and the empty list are both \<open>not yet listening\<close>.\<close>

definition target_of :: "proc_files \<Rightarrow> int \<Rightarrow> runtime \<Rightarrow> string \<Rightarrow> target option" where
  "target_of f p r name =
     (case listen_ports f of
        None \<Rightarrow> None
      | Some ports \<Rightarrow>
          if ports = [] then None
          else Some \<lparr>tg_pid = p, tg_runtime = r, tg_name = name, tg_container = container_id f, tg_ports = ports\<rparr>)"

definition classify_interpreter :: "proc_files \<Rightarrow> int \<Rightarrow> runtime \<Rightarrow> string \<Rightarrow> target option" where
  "classify_interpreter f p r base =
     (let args = command_args f in
      if r = runtime_php
      then (let name = php_fpm_pool_name args in if name = [] then None else target_of f p r name)
      else target_of f p r (script_name args base))"

definition classify_native_server :: "proc_tree \<Rightarrow> int \<Rightarrow> runtime \<Rightarrow> target option" where
  "classify_native_server proc p r = (if is_process_master proc p then target_of (proc p) p r r else None)"

definition classify_go_binary :: "proc_files \<Rightarrow> int \<Rightarrow> string \<Rightarrow> target option" where
  "classify_go_binary f p base = (if pf_buildinfo f then target_of f p runtime_go base else None)"

definition classify_process :: "proc_tree \<Rightarrow> int \<Rightarrow> target option" where
  "classify_process proc p =
     (case pf_exe (proc p) of
        None \<Rightarrow> None
      | Some exe \<Rightarrow>
          (let base = path_base exe in
           case classify_exe base of
             Some r \<Rightarrow> classify_interpreter (proc p) p r base
           | None \<Rightarrow>
               (case map_of native_servers base of
                  Some r \<Rightarrow> classify_native_server proc p r
                | None \<Rightarrow>
                    if base \<in> set go_daemon_denylist then None else classify_go_binary (proc p) p base)))"

definition numeric_pid :: "string \<Rightarrow> int option" where
  "numeric_pid name = (case atoi name of None \<Rightarrow> None | Some p \<Rightarrow> if p \<le> 0 then None else Some p)"

text \<open>\<open>Scan\<close>, with the names in the directory, if it can be read.\<close>

definition scan_targets :: "string list option \<Rightarrow> proc_tree \<Rightarrow> target list option" where
  "scan_targets names proc =
     map_option (\<lambda>ns. List.map_filter (classify_process proc) (List.map_filter numeric_pid ns)) names"

section \<open>Lemmas\<close>

lemma map_filter_set: "set (List.map_filter f xs) = {y. \<exists>x \<in> set xs. f x = Some y}"
  by (induction xs) (auto simp: List.map_filter_simps split: option.splits)

lemma target_of_Some:
  "target_of f p r name = Some t \<Longrightarrow>
     tg_pid t = p \<and> tg_runtime t = r \<and> tg_name t = name \<and> tg_ports t \<noteq> [] \<and>
     listen_ports f = Some (tg_ports t)"
  by (auto simp: target_of_def split: option.splits if_splits)

lemma listen_ports_sorted: "listen_ports f = Some ports \<Longrightarrow> sorted ports \<and> distinct ports"
  by (auto simp: listen_ports_def split: option.splits if_splits)

text \<open>Which of the four ways a process became a target.\<close>

definition how_found :: "proc_tree \<Rightarrow> target \<Rightarrow> string \<Rightarrow> bool" where
  "how_found proc t base \<longleftrightarrow>
     classify_exe base = Some (tg_runtime t) \<or>
     (map_of native_servers base = Some (tg_runtime t) \<and> is_process_master proc (tg_pid t) \<and> tg_name t = tg_runtime t) \<or>
     (base \<notin> set go_daemon_denylist \<and> pf_buildinfo (proc (tg_pid t)) \<and> tg_runtime t = runtime_go \<and> tg_name t = base)"

lemma classify_process_Some:
  assumes "classify_process proc p = Some t"
  shows "tg_pid t = p \<and> listen_ports (proc p) = Some (tg_ports t) \<and> tg_ports t \<noteq> [] \<and>
    (\<exists>exe. pf_exe (proc p) = Some exe \<and> how_found proc t (path_base exe))"
proof -
  obtain exe where exe: "pf_exe (proc p) = Some exe" using assms by (auto simp: classify_process_def split: option.splits)
  have "tg_pid t = p \<and> listen_ports (proc p) = Some (tg_ports t) \<and> tg_ports t \<noteq> [] \<and> how_found proc t (path_base exe)"
    using assms exe
    by (auto simp: classify_process_def Let_def how_found_def classify_interpreter_def classify_native_server_def
        classify_go_binary_def split: option.splits if_splits dest!: target_of_Some)
  then show ?thesis using exe by blast
qed

lemma denied_not_interpreter: "base \<in> set go_daemon_denylist \<Longrightarrow> classify_exe base = None \<and> map_of native_servers base = None"
  by (auto simp: go_daemon_denylist_def classify_exe_def interpreter_prefix_def native_servers_def has_prefix_def)

lemma java_not_interpreter: "classify_exe ''java'' = None \<and> map_of native_servers ''java'' = None"
  by (simp add: classify_exe_def interpreter_prefix_def native_servers_def has_prefix_def)

section \<open>Properties\<close>

text \<open>(what is handed over) Every target is a numbered process with at least one listening port, its
  ports in ascending order without repetition; the executable is a recognised interpreter, the master of
  a recognised web server, or a program built by Go that is not on the deny list; and nothing on the
  deny list, apm2go itself included, becomes a target under any reading.\<close>

theorem scan_targets_ok:
  "case scan_targets names proc of
     None \<Rightarrow> names = None
   | Some ts \<Rightarrow> list_all (\<lambda>t. 0 < tg_pid t \<and> tg_ports t \<noteq> [] \<and> sorted (tg_ports t) \<and> distinct (tg_ports t) \<and>
       listen_ports (proc (tg_pid t)) = Some (tg_ports t) \<and>
       (case pf_exe (proc (tg_pid t)) of
          None \<Rightarrow> False
        | Some exe \<Rightarrow> how_found proc t (path_base exe) \<and> path_base exe \<notin> set go_daemon_denylist)) ts"
proof (cases names)
  case (Some ns)
  have "0 < tg_pid t \<and> tg_ports t \<noteq> [] \<and> sorted (tg_ports t) \<and> distinct (tg_ports t) \<and>
       listen_ports (proc (tg_pid t)) = Some (tg_ports t) \<and>
       (\<exists>exe. pf_exe (proc (tg_pid t)) = Some exe \<and> how_found proc t (path_base exe) \<and>
         path_base exe \<notin> set go_daemon_denylist)"
    if "classify_process proc p = Some t" "numeric_pid n = Some p" for t p n
  proof -
    note c = classify_process_Some [OF that(1)]
    then obtain exe where exe: "pf_exe (proc p) = Some exe" "how_found proc t (path_base exe)" by blast
    have "path_base exe \<notin> set go_daemon_denylist"
      using exe(2) denied_not_interpreter by (auto simp: how_found_def)
    moreover have "0 < p" using that(2) by (auto simp: numeric_pid_def split: option.splits if_splits)
    ultimately show ?thesis using c exe listen_ports_sorted by blast
  qed
  then show ?thesis by (fastforce simp: scan_targets_def Some list_all_iff map_filter_set)
qed (simp add: scan_targets_def)

text \<open>(a scan does not depend on the order of the tables) Two readings of a process whose socket
  descriptors and table rows are the same sets, in any order and repeated or not, give the same
  ports.\<close>

lemma sort_remdups_eq: "set xs = set ys \<Longrightarrow> sort (remdups xs) = sort (remdups ys)"
  by (intro sorted_distinct_set_unique) auto

lemma row_port_cong: "set a = set b \<Longrightarrow> row_port a = row_port b"
  by (simp add: row_port_def fun_eq_iff Let_def cong: option.case_cong)

lemma table_ports_set:
  "set (table_ports owned file) =
     {p. \<exists>rows. file = Some rows \<and> (\<exists>l \<in> set (drop 1 rows). row_port owned l = Some p)}"
  by (auto simp: table_ports_def listening_ports_in_table_def map_filter_set split: option.splits)

definition same_rows :: "string list option \<Rightarrow> string list option \<Rightarrow> bool" where
  "same_rows a b \<longleftrightarrow> map_option (\<lambda>r. set (drop 1 r)) a = map_option (\<lambda>r. set (drop 1 r)) b"

lemma table_ports_cong: "set o1 = set o2 \<Longrightarrow> same_rows a b \<Longrightarrow> set (table_ports o1 a) = set (table_ports o2 b)"
  using row_port_cong [of o1 o2] unfolding table_ports_set same_rows_def by (cases a; cases b) auto

theorem ports_stable:
  assumes "map_option set (pf_fds f) = map_option set (pf_fds g)"
    and "same_rows (pf_tcp f) (pf_tcp g)" and "same_rows (pf_tcp6 f) (pf_tcp6 g)"
  shows "listen_ports f = listen_ports g"
proof (cases "pf_fds f")
  case None
  then show ?thesis using assms(1) by (simp add: listen_ports_def socket_inodes_def)
next
  case (Some a)
  with assms(1) obtain b where b: "pf_fds g = Some b" "set a = set b" by (cases "pf_fds g") auto
  define o1 where "o1 = List.map_filter (\<lambda>l. Option.bind l parse_socket_link) a"
  define o2 where "o2 = List.map_filter (\<lambda>l. Option.bind l parse_socket_link) b"
  have o: "set o1 = set o2" using b(2) by (simp add: o1_def o2_def map_filter_set)
  then have "o1 = [] \<longleftrightarrow> o2 = []" by (metis set_empty)
  moreover have "sort (remdups (table_ports o1 (pf_tcp f) @ table_ports o1 (pf_tcp6 f))) =
      sort (remdups (table_ports o2 (pf_tcp g) @ table_ports o2 (pf_tcp6 g)))"
    using table_ports_cong [OF o assms(2)] table_ports_cong [OF o assms(3)] by (intro sort_remdups_eq) simp
  ultimately show ?thesis using Some b by (simp add: listen_ports_def socket_inodes_def flip: o1_def o2_def)
qed

definition sample_files :: "string option list \<Rightarrow> string list \<Rightarrow> proc_files" where
  "sample_files fds rows =
     \<lparr>pf_exe = Some ''/usr/sbin/nginx'', pf_cmdline = None, pf_status = None, pf_cgroup = None,
      pf_fds = Some fds, pf_tcp = Some rows, pf_tcp6 = None, pf_buildinfo = False\<rparr>"

definition sample_row :: "string \<Rightarrow> string" where
  "sample_row port = ''0: 00000000:'' @ port @ '' 00000000:0000 0A 0:0 0:0 0 0 0 42''"

theorem ports_stable_witness:
  "listen_ports (sample_files [Some ''socket:[42]'', None] [''sl'', sample_row ''0050'', sample_row ''01BB'']) =
   listen_ports (sample_files [None, Some ''socket:[42]''] [''sl'', sample_row ''01BB'', sample_row ''0050''])"
  by (rule ports_stable) (auto simp: sample_files_def same_rows_def)

lemma sample_ports:
  "listen_ports (sample_files [Some ''socket:[42]''] [''sl'', sample_row ''01BB'', sample_row ''0050'']) = Some [80, 443]"
  by code_simp

text \<open>(web servers by their master) A worker, a process whose parent runs the same program, is never
  a target of its own when the program is a recognised web server.\<close>

theorem workers_skipped:
  assumes "pf_exe (proc p) = Some self" and "parent_pid (proc p) = Some parent" and "0 < parent"
    and "pf_exe (proc parent) = Some other" and "path_base self = path_base other"
    and "map_of native_servers (path_base self) \<noteq> None"
  shows "classify_process proc p = None"
proof -
  have "classify_exe (path_base self) = None"
    using assms(6) by (auto simp: native_servers_def classify_exe_def interpreter_prefix_def has_prefix_def split: if_splits)
  then show ?thesis using assms
    by (auto simp: classify_process_def classify_native_server_def is_process_master_def Let_def split: option.splits)
qed

theorem workers_skipped_witness:
  "classify_process ((\<lambda>_. sample_files [] [])(9 := (sample_files [] [])\<lparr>pf_status := Some (''PPid:'' @ CHR 0x09 # ''8'')\<rparr>)) 9 = None"
proof (rule workers_skipped [where self = "''/usr/sbin/nginx''" and other = "''/usr/sbin/nginx''" and parent = 8])
  show "parent_pid (((\<lambda>_. sample_files [] [])(9 := (sample_files [] [])\<lparr>pf_status := Some (''PPid:'' @ CHR 0x09 # ''8'')\<rparr>)) (9 :: int)) = Some 8"
    by code_simp
  have "path_base ''/usr/sbin/nginx'' = ''nginx''" by code_simp
  then show "map_of native_servers (path_base ''/usr/sbin/nginx'') \<noteq> None" by (simp add: native_servers_def)
qed (simp_all add: sample_files_def)

text \<open>(node_exporter_is_node) The prefix \<open>node\<close> also takes in Prometheus' \<open>node_exporter\<close>, a Go program, which
  is reported as Node.js.\<close>

theorem node_exporter_is_node: "classify_exe ''node_exporter'' = Some runtime_node"
  by (simp add: classify_exe_def interpreter_prefix_def has_prefix_def)

end
