(* ===== verification/Ebpf_Targets.thy ===== *)
theory Ebpf_Targets
  imports Ebpf_Discovery Net_Addr "HOL-Library.Product_Lexorder"
begin

text \<open>
  What is done to one scan's targets before they are used: telling them apart (\<open>disambiguate\<close> and
  \<open>dropSharedPorts\<close> of \<open>internal/ebpf/discoverer.go\<close>), rendering them into the rules of the
  instrumentation's configuration (\<open>config.go\<close>), and deciding whether two sets of targets are the
  same (\<open>sameTargets\<close> of \<open>supervisor.go\<close>); and the versions of the kernel it needs (\<open>capability.go\<close>).
\<close>

section \<open>Telling targets apart\<close>

definition claims :: "target list \<Rightarrow> nat \<Rightarrow> nat" where
  "claims ts port = count_list (concat (map tg_ports ts)) port"

definition own_ports :: "target list \<Rightarrow> target \<Rightarrow> nat list" where
  "own_ports ts t = filter (\<lambda>p. claims ts p = 1) (tg_ports t)"

definition drop_shared_ports :: "target list \<Rightarrow> target list" where
  "drop_shared_ports ts =
     map (\<lambda>t. if 0 < length (own_ports ts t) \<and> length (own_ports ts t) \<noteq> length (tg_ports t)
              then t\<lparr>tg_ports := own_ports ts t\<rparr> else t) ts"

definition named_apart :: "target list \<Rightarrow> target \<Rightarrow> target" where
  "named_apart ts t =
     (if 1 < count_list (map tg_name ts) (tg_name t)
      then t\<lparr>tg_name := tg_name t @ ''-'' @ itoa (int (target_port t))\<rparr> else t)"

definition disambiguate :: "target list \<Rightarrow> target list" where
  "disambiguate ts = (let out = drop_shared_ports ts in map (named_apart out) out)"

section \<open>The configuration\<close>

record instrument_rule =
  ir_name :: string
  ir_open_ports :: string

record otlp_metrics =
  om_endpoint :: string
  om_protocol :: string
  om_interval :: string
  om_features :: "string list"

record obi_config =
  oc_propagation :: string
  oc_rules :: "instrument_rule list"
  oc_traces :: "string \<times> string"
  oc_metrics :: "otlp_metrics option"
  oc_log_level :: string

definition port_selector :: "nat list \<Rightarrow> string" where
  "port_selector ports = join '','' (map (\<lambda>p. itoa (int p)) ports)"

definition metric_features :: "string list" where
  "metric_features = [''application'', ''application_host'', ''application_runtime'']"

text \<open>The values the YAML is marshalled from.  The sort of the source is not stable; targets of one name
  may come out in either order.\<close>

definition render_config :: "target list \<Rightarrow> string \<Rightarrow> bool \<Rightarrow> obi_config" where
  "render_config ts endpoint with_metrics =
     \<lparr>oc_propagation = ''all'',
      oc_rules = map (\<lambda>t. \<lparr>ir_name = tg_name t, ir_open_ports = port_selector (tg_ports t)\<rparr>) (sort_key tg_name ts),
      oc_traces = (endpoint, ''grpc''),
      oc_metrics = (if with_metrics
        then Some \<lparr>om_endpoint = endpoint, om_protocol = ''grpc'', om_interval = ''15s'', om_features = metric_features\<rparr>
        else None),
      oc_log_level = ''info''\<rparr>"

section \<open>Comparing target sets\<close>

definition target_key :: "target \<Rightarrow> string" where
  "target_key t =
     join ''|'' [tg_name t, tg_runtime t, itoa (tg_pid t),
                 ''['' @ join '' '' (map (\<lambda>p. itoa (int p)) (tg_ports t)) @ '']'']"

definition same_targets :: "target list \<Rightarrow> target list \<Rightarrow> bool" where
  "same_targets a b \<longleftrightarrow> length a = length b \<and> list_all (\<lambda>t. target_key t \<in> set (map target_key a)) b"

section \<open>Kernel versions\<close>

datatype kernel_version = Kernel (k_major: int) (k_minor: int)

definition at_least :: "kernel_version \<Rightarrow> kernel_version \<Rightarrow> bool" where
  "at_least v want = (if k_major v \<noteq> k_major want then k_major want < k_major v else k_minor want \<le> k_minor v)"

definition min_kernel :: kernel_version where "min_kernel = Kernel 5 8"
definition propagation_kernel :: kernel_version where "propagation_kernel = Kernel 5 17"

definition parse_kernel_version :: "string \<Rightarrow> kernel_version option" where
  "parse_kernel_version release =
     (if release = [] then None
      else (let r = (case index_where (\<lambda>c. c = CHR ''-'' \<or> c = CHR ''+'') release of
                       None \<Rightarrow> release | Some i \<Rightarrow> take i release);
                parts = split_on (CHR ''.'') r
            in if length parts < 2 then None
               else case (atoi (parts ! 0), atoi (parts ! 1)) of
                      (Some a, Some b) \<Rightarrow> Some (Kernel a b)
                    | _ \<Rightarrow> None))"

datatype no_spans = NotEmbedded | UnreadableVersion | TooOld | NoBTF | NotRoot

record capability =
  cp_embedded :: bool
  cp_version :: string
  cp_btf :: bool
  cp_privileged :: bool
  cp_spans :: bool
  cp_propagation :: bool
  cp_reason :: "no_spans option"
  cp_breaks_traces :: bool

text \<open>\<open>Detect\<close> over what it measures: the embedded binary, the kernel's release, the type information and
  the effective user.\<close>

definition detect :: "bool \<Rightarrow> string \<Rightarrow> bool \<Rightarrow> int \<Rightarrow> capability" where
  "detect embedded release btf euid =
     (let c = \<lparr>cp_embedded = embedded, cp_version = [], cp_btf = False, cp_privileged = False, cp_spans = False,
               cp_propagation = False, cp_reason = None, cp_breaks_traces = False\<rparr>
      in if \<not> embedded then c\<lparr>cp_reason := Some NotEmbedded\<rparr>
         else (let c1 = c\<lparr>cp_version := trim_space release\<rparr> in
               case parse_kernel_version (trim_space release) of
                 None \<Rightarrow> c1\<lparr>cp_reason := Some UnreadableVersion\<rparr>
               | Some v \<Rightarrow>
                   (let c2 = c1\<lparr>cp_btf := btf, cp_privileged := (euid = 0)\<rparr> in
                    if \<not> at_least v min_kernel then c2\<lparr>cp_reason := Some TooOld\<rparr>
                    else if \<not> btf then c2\<lparr>cp_reason := Some NoBTF\<rparr>
                    else if euid \<noteq> 0 then c2\<lparr>cp_reason := Some NotRoot\<rparr>
                    else (let c3 = c2\<lparr>cp_spans := True\<rparr> in
                          if at_least v propagation_kernel then c3\<lparr>cp_propagation := True\<rparr>
                          else c3\<lparr>cp_breaks_traces := True\<rparr>))))"

section \<open>The order of versions\<close>

instantiation kernel_version :: linorder
begin

definition less_eq_kernel_version :: "kernel_version \<Rightarrow> kernel_version \<Rightarrow> bool" where
  "less_eq_kernel_version a b \<longleftrightarrow> (k_major a, k_minor a) \<le> (k_major b, k_minor b)"

definition less_kernel_version :: "kernel_version \<Rightarrow> kernel_version \<Rightarrow> bool" where
  "less_kernel_version a b \<longleftrightarrow> (k_major a, k_minor a) < (k_major b, k_minor b)"

instance
  by standard
    (auto simp: less_eq_kernel_version_def less_kernel_version_def less_eq_prod_def less_prod_def
      intro: kernel_version.expand)

end

lemma at_least_le: "at_least v w \<longleftrightarrow> w \<le> v"
  by (auto simp: at_least_def less_eq_kernel_version_def less_eq_prod_def)

section \<open>Lemmas: shared ports\<close>

lemma claims_append: "claims (xs @ ys) p = claims xs p + claims ys p"
  by (simp add: claims_def)

lemma claims_two:
  assumes "i < length ts" "j < length ts" "i \<noteq> j" "p \<in> set (tg_ports (ts ! i))" "p \<in> set (tg_ports (ts ! j))"
  shows "1 < claims ts p"
proof -
  have one: "0 < count_list (tg_ports t) p" if "p \<in> set (tg_ports t)" for t :: target
    using that count_list_0_iff by (metis neq0_conv)
  have *: "1 < claims ts p"
    if "a < b" "b < length ts" "p \<in> set (tg_ports (ts ! a))" "p \<in> set (tg_ports (ts ! b))" for a b
  proof -
    have "ts = take a ts @ ts ! a # drop (Suc a) ts" using that by (simp add: id_take_nth_drop)
    then have c: "claims ts p = claims (take a ts) p + (count_list (tg_ports (ts ! a)) p + claims (drop (Suc a) ts) p)"
      by (metis claims_append claims_def concat.simps(2) count_list_append list.simps(9))
    have "ts ! b \<in> set (drop (Suc a) ts)"
      using that by (auto simp: in_set_conv_nth intro!: exI [of _ "b - Suc a"])
    then have "p \<in> set (concat (map tg_ports (drop (Suc a) ts)))" using that(4) by auto
    then have "0 < claims (drop (Suc a) ts) p" by (metis claims_def count_list_0_iff neq0_conv)
    then show ?thesis using c one [OF that(3)] by simp
  qed
  show ?thesis using * [of i j] * [of j i] assms by (cases "i < j") auto
qed

lemma filter_full: "length (filter P xs) = length xs \<Longrightarrow> filter P xs = xs"
  using length_filter_less [of _ xs P] by (intro filter_True) force

lemma length_drop_shared [simp]: "length (drop_shared_ports ts) = length ts"
  by (simp add: drop_shared_ports_def)

lemma length_disambiguate [simp]: "length (disambiguate ts) = length ts"
  by (simp add: disambiguate_def Let_def)

lemma drop_shared_nth:
  assumes "i < length ts"
  shows "tg_ports (drop_shared_ports ts ! i) =
      (if own_ports ts (ts ! i) = [] then tg_ports (ts ! i) else own_ports ts (ts ! i))"
    and "tg_name (drop_shared_ports ts ! i) = tg_name (ts ! i)"
    and "tg_pid (drop_shared_ports ts ! i) = tg_pid (ts ! i)"
  using assms filter_full [of "\<lambda>p. claims ts p = 1" "tg_ports (ts ! i)"]
  by (auto simp: drop_shared_ports_def own_ports_def)

lemma named_apart_fields [simp]:
  "tg_ports (named_apart ts t) = tg_ports t" "tg_pid (named_apart ts t) = tg_pid t"
  "tg_runtime (named_apart ts t) = tg_runtime t"
  by (simp_all add: named_apart_def)

lemma disambiguate_nth:
  "i < length ts \<Longrightarrow> disambiguate ts ! i = named_apart (drop_shared_ports ts) (drop_shared_ports ts ! i)"
  by (simp add: disambiguate_def Let_def)

lemma drop_shared_fields:
  "map tg_pid (drop_shared_ports ts) = map tg_pid ts" "map tg_name (drop_shared_ports ts) = map tg_name ts"
  "map tg_runtime (drop_shared_ports ts) = map tg_runtime ts"
  by (simp_all add: drop_shared_ports_def)

lemma disambiguate_pids: "map tg_pid (disambiguate ts) = map tg_pid ts"
  using drop_shared_fields(1) [of ts] by (simp add: disambiguate_def Let_def comp_def)

lemma disambiguate_runtimes: "map tg_runtime (disambiguate ts) = map tg_runtime ts"
  using drop_shared_fields(3) [of ts] by (simp add: disambiguate_def Let_def comp_def)

section \<open>Lemmas: keys\<close>

lemma last_split_unique:
  fixes c :: char
  assumes "c \<notin> set b" "c \<notin> set b'" "a @ c # b = a' @ c # b'"
  shows "a = a' \<and> b = b'"
proof -
  have "length a = length a'"
    using last_index_append [OF assms(1), of a] last_index_append [OF assms(2), of a'] assms(3) by simp
  with assms(3) show ?thesis by simp
qed

lemma int_text_chars: "set (itoa i) \<subseteq> insert (CHR ''-'') {c. is_digit c}"
  using dec_nat_digits by (auto simp: itoa_def list_all_iff)

lemma itoa_int_chars: "set (itoa (int n)) \<subseteq> {c. is_digit c}"
  using dec_nat_digits by (auto simp: itoa_def list_all_iff)

lemma bar_free: "CHR ''|'' \<notin> set (itoa i)" "CHR '' '' \<notin> set (itoa i)" "CHR '','' \<notin> set (itoa i)"
  using int_text_chars [of i] by (auto simp: is_digit_def less_eq_char_def)

lemma itoa_nonempty: "itoa i \<noteq> []"
  by (simp add: itoa_def)

lemma join_nonempty: "x \<noteq> [] \<Longrightarrow> join sep (x # xs) \<noteq> []"
  by (cases xs) auto

lemma ports_text_inj:
  assumes "c \<notin> {d. is_digit d}" and "join [c] (map (\<lambda>p. itoa (int p)) a) = join [c] (map (\<lambda>p. itoa (int p)) b)"
  shows "a = b"
proof -
  have c: "c \<notin> set (itoa (int p))" for p using itoa_int_chars [of p] assms(1) by auto
  have s: "xs \<noteq> [] \<Longrightarrow> split_on c (join [c] (map (\<lambda>p. itoa (int p)) xs)) = map (\<lambda>p. itoa (int p)) xs" for xs
    by (rule split_on_join) (use c in auto)
  have n: "xs \<noteq> [] \<Longrightarrow> join [c] (map (\<lambda>p. itoa (int p)) xs) \<noteq> []" for xs
    by (cases xs) (simp_all add: join_nonempty itoa_nonempty)
  show ?thesis
  proof (cases "a = [] \<or> b = []")
    case True
    with assms(2) n [of a] n [of b] show ?thesis by (cases "a = []"; cases "b = []") auto
  next
    case False
    then have ne: "a \<noteq> []" "b \<noteq> []" by simp_all
    have "map (\<lambda>p. itoa (int p)) a = split_on c (join [c] (map (\<lambda>p. itoa (int p)) a))" by (rule s [OF ne(1), symmetric])
    also have "\<dots> = split_on c (join [c] (map (\<lambda>p. itoa (int p)) b))" by (simp only: assms(2))
    also have "\<dots> = map (\<lambda>p. itoa (int p)) b" by (rule s [OF ne(2)])
    finally show ?thesis by (rule map_injective) (auto simp: inj_on_def dest: itoa_inj)
  qed
qed

text \<open>What the configuration is made from, and the pid.\<close>

definition target_view :: "target \<Rightarrow> string \<times> runtime \<times> int \<times> nat list" where
  "target_view t = (tg_name t, tg_runtime t, tg_pid t, tg_ports t)"

lemma target_key_inj:
  assumes "CHR ''|'' \<notin> set (tg_runtime a)" and "CHR ''|'' \<notin> set (tg_runtime b)"
  shows "target_key a = target_key b \<longleftrightarrow> target_view a = target_view b"
proof
  assume e: "target_key a = target_key b"
  let ?w = "\<lambda>t. ''['' @ join '' '' (map (\<lambda>p. itoa (int p)) (tg_ports t)) @ '']''"
  have w: "CHR ''|'' \<notin> set (?w t)" for t
    using set_join [of "'' ''" "map (\<lambda>p. itoa (int p)) (tg_ports t)"] bar_free(1) by fastforce
  have 1: "(tg_name a @ ''|'' @ tg_runtime a @ ''|'' @ itoa (tg_pid a)) @ CHR ''|'' # ?w a =
      (tg_name b @ ''|'' @ tg_runtime b @ ''|'' @ itoa (tg_pid b)) @ CHR ''|'' # ?w b"
    using e by (simp add: target_key_def)
  note p1 = last_split_unique [OF w w 1]
  have 2: "(tg_name a @ ''|'' @ tg_runtime a) @ CHR ''|'' # itoa (tg_pid a) =
      (tg_name b @ ''|'' @ tg_runtime b) @ CHR ''|'' # itoa (tg_pid b)"
    using p1 by simp
  note p2 = last_split_unique [OF bar_free(1) bar_free(1) 2]
  have 3: "tg_name a @ CHR ''|'' # tg_runtime a = tg_name b @ CHR ''|'' # tg_runtime b" using p2 by simp
  note p3 = last_split_unique [OF assms 3]
  have "tg_pid a = tg_pid b" using p2 itoa_inj by blast
  moreover have "tg_ports a = tg_ports b"
    by (rule ports_text_inj [of "CHR '' ''"]) (use p1 in \<open>simp_all add: is_digit_def less_eq_char_def\<close>)
  ultimately show "target_view a = target_view b" using p3 by (simp add: target_view_def)
qed (simp add: target_view_def target_key_def)

text \<open>Lists of targets as the scan makes them: one per process, runtimes with no bar in them.\<close>

definition targets_sane :: "target list \<Rightarrow> bool" where
  "targets_sane ts \<longleftrightarrow> distinct (map tg_pid ts) \<and> list_all (\<lambda>t. CHR ''|'' \<notin> set (tg_runtime t)) ts"

lemma sane_key_inj:
  "targets_sane a \<Longrightarrow> targets_sane b \<Longrightarrow> x \<in> set a \<Longrightarrow> y \<in> set b \<Longrightarrow>
     target_key x = target_key y \<longleftrightarrow> target_view x = target_view y"
  by (intro target_key_inj) (auto simp: targets_sane_def list_all_iff)

lemma sane_keys_distinct:
  assumes "targets_sane a"
  shows "distinct (map target_key a)"
proof -
  have "inj_on target_key (set a)"
  proof (rule inj_onI)
    fix x y assume xy: "x \<in> set a" "y \<in> set a" "target_key x = target_key y"
    then have "tg_pid x = tg_pid y" using sane_key_inj [OF assms assms] by (simp add: target_view_def)
    with xy assms show "x = y" by (auto simp: targets_sane_def distinct_map dest: inj_onD)
  qed
  moreover have "distinct a" using assms by (simp add: targets_sane_def distinct_map)
  ultimately show ?thesis by (simp add: distinct_map)
qed

lemma same_targets_keys:
  assumes "targets_sane a" and "targets_sane b"
  shows "same_targets a b \<longleftrightarrow> set (map target_key a) = set (map target_key b)"
proof
  assume s: "same_targets a b"
  then have "set (map target_key b) \<subseteq> set (map target_key a)" by (auto simp: same_targets_def list_all_iff)
  moreover have "card (set (map target_key a)) = card (set (map target_key b))"
    using s distinct_card [OF sane_keys_distinct [OF assms(1)]] distinct_card [OF sane_keys_distinct [OF assms(2)]]
    by (simp add: same_targets_def)
  ultimately show "set (map target_key a) = set (map target_key b)" using card_subset_eq by (metis List.finite_set)
next
  assume s: "set (map target_key a) = set (map target_key b)"
  then have "length a = length b"
    using distinct_card [OF sane_keys_distinct [OF assms(1)]] distinct_card [OF sane_keys_distinct [OF assms(2)]] by simp
  with s show "same_targets a b" by (auto simp: same_targets_def list_all_iff)
qed

lemma keys_views:
  assumes "targets_sane a" and "targets_sane b"
  shows "target_key ` set a = target_key ` set b \<longleftrightarrow> target_view ` set a = target_view ` set b"
proof -
  have sub: "target_key ` set x \<subseteq> target_key ` set y \<longleftrightarrow> target_view ` set x \<subseteq> target_view ` set y"
    if "targets_sane x" "targets_sane y" for x y
  proof -
    have "target_key u \<in> target_key ` set y \<longleftrightarrow> target_view u \<in> target_view ` set y" if "u \<in> set x" for u
      using sane_key_inj [OF \<open>targets_sane x\<close> \<open>targets_sane y\<close> that] by (simp add: image_iff cong: bex_cong)
    then show ?thesis by (simp add: image_subset_iff)
  qed
  show ?thesis by (simp only: set_eq_subset sub [OF assms] sub [OF assms(2,1)])
qed

section \<open>Properties\<close>

text \<open>(a port names one target) After the ports claimed twice are dropped, a port is still shared by two
  targets only where neither of them had any port of its own, and those keep all they had.\<close>

theorem shared_ports_only_when_forced:
  assumes "i < length ts" and "j < length ts" and "i \<noteq> j"
    and "port \<in> set (tg_ports (disambiguate ts ! i))" and "port \<in> set (tg_ports (disambiguate ts ! j))"
  shows "own_ports ts (ts ! i) = [] \<and> own_ports ts (ts ! j) = [] \<and>
    tg_ports (disambiguate ts ! i) = tg_ports (ts ! i) \<and> tg_ports (disambiguate ts ! j) = tg_ports (ts ! j)"
proof -
  have d: "tg_ports (disambiguate ts ! k) = (if own_ports ts (ts ! k) = [] then tg_ports (ts ! k) else own_ports ts (ts ! k))"
    if "k < length ts" for k using that by (simp add: disambiguate_nth drop_shared_nth)
  have "port \<in> set (tg_ports (ts ! i))" "port \<in> set (tg_ports (ts ! j))"
    using assms d by (auto simp: own_ports_def split: if_splits)
  then have two: "1 < claims ts port" using claims_two [of i ts j port] assms by blast
  have "own_ports ts (ts ! k) = [] \<and> tg_ports (disambiguate ts ! k) = tg_ports (ts ! k)"
    if "k < length ts" "port \<in> set (tg_ports (disambiguate ts ! k))" for k
  proof (cases "own_ports ts (ts ! k) = []")
    case True
    then show ?thesis using d [OF that(1)] by simp
  next
    case False
    then have "port \<in> set (own_ports ts (ts ! k))" using d [OF that(1)] that(2) by simp
    then show ?thesis using two by (simp add: own_ports_def)
  qed
  from this [OF assms(1,4)] this [OF assms(2,5)] show ?thesis by blast
qed

definition sample_target :: "int \<Rightarrow> string \<Rightarrow> nat list \<Rightarrow> target" where
  "sample_target p name ports =
     \<lparr>tg_pid = p, tg_runtime = runtime_node, tg_name = name, tg_container = [], tg_ports = ports\<rparr>"

theorem shared_ports_only_when_forced_witness:
  "own_ports [sample_target 1 ''a'' [80], sample_target 2 ''b'' [80]] (sample_target 1 ''a'' [80]) = [] \<and>
   tg_ports (disambiguate [sample_target 1 ''a'' [80], sample_target 2 ''b'' [80]] ! 0) = [80]"
proof -
  let ?ts = "[sample_target 1 ''a'' [80], sample_target 2 ''b'' [80]]"
  have "tg_ports (disambiguate ?ts ! 0) = [80]" "tg_ports (disambiguate ?ts ! 1) = [80]" by code_simp+
  with shared_ports_only_when_forced [of 0 ?ts 1 80] show ?thesis by simp
qed

text \<open>(only a real change is a change) For targets as a scan makes them, one per process, two sets are the
  same exactly when they have the same names, runtimes, pids and ports, in whatever order.\<close>

theorem same_targets_exact:
  assumes "targets_sane a" and "targets_sane b"
  shows "same_targets a b \<longleftrightarrow> target_view ` set a = target_view ` set b"
  using same_targets_keys [OF assms] keys_views [OF assms] by simp

theorem same_targets_exact_witness:
  "same_targets [sample_target 1 ''a'' [80], sample_target 2 ''b'' [81]] [sample_target 2 ''b'' [81], sample_target 1 ''a'' [80]] =
   (target_view ` set [sample_target 1 ''a'' [80], sample_target 2 ''b'' [81]] =
    target_view ` set [sample_target 2 ''b'' [81], sample_target 1 ''a'' [80]])"
  by (rule same_targets_exact) (simp_all add: targets_sane_def sample_target_def runtimes)

text \<open>(the selector says the ports) Splitting a rendered selector at its commas and reading the numbers
  gives the ports back.\<close>

lemma atoi_itoa_nat: "int p < 2 ^ 63 \<Longrightarrow> atoi (itoa (int p)) = Some (int p)"
  by (rule atoi_itoa) auto

theorem selector_roundtrip:
  assumes "ports \<noteq> []" and "list_all (\<lambda>p. p < 65536) ports"
  shows "map atoi (split_on (CHR '','') (port_selector ports)) = map (\<lambda>p. Some (int p)) ports"
proof -
  have "split_on (CHR '','') (port_selector ports) = map (\<lambda>p. itoa (int p)) ports"
    unfolding port_selector_def using assms(1) bar_free(3) by (intro split_on_join) auto
  then show ?thesis using assms(2) atoi_itoa_nat by (auto simp: list_all_iff)
qed

theorem selector_roundtrip_witness:
  "map atoi (split_on (CHR '','') (port_selector [80, 443])) = map (\<lambda>p. Some (int p)) [80, 443]"
  by (rule selector_roundtrip) simp_all

text \<open>(what a kernel can do) Spans are collected exactly when the binary is there, the version can be read and
  is at least 5.8 in the order of versions, the type information is there and the user is root; traces
  join from 5.17 on; and a reason is given exactly when there are no spans.\<close>

theorem detect_exact:
  "(cp_spans (detect embedded release btf euid) \<longleftrightarrow>
      embedded \<and> (case parse_kernel_version (trim_space release) of None \<Rightarrow> False | Some v \<Rightarrow> Kernel 5 8 \<le> v) \<and> btf \<and> euid = 0) \<and>
   (cp_propagation (detect embedded release btf euid) \<longleftrightarrow>
      cp_spans (detect embedded release btf euid) \<and>
      (case parse_kernel_version (trim_space release) of None \<Rightarrow> False | Some v \<Rightarrow> Kernel 5 17 \<le> v)) \<and>
   (cp_reason (detect embedded release btf euid) = None \<longleftrightarrow> cp_spans (detect embedded release btf euid)) \<and>
   (cp_breaks_traces (detect embedded release btf euid) \<longleftrightarrow>
      cp_spans (detect embedded release btf euid) \<and> \<not> cp_propagation (detect embedded release btf euid))"
  by (simp add: detect_def Let_def at_least_le min_kernel_def propagation_kernel_def split: option.split)

section \<open>What telling apart does not reach\<close>

text \<open>(names_still_collide) A name made unique can be the name another target already has.\<close>

theorem names_still_collide:
  "map tg_name (disambiguate [sample_target 1 ''app'' [80], sample_target 2 ''app'' [81], sample_target 3 ''app-80'' [90]])
     = [''app-80'', ''app-81'', ''app-80'']"
  by code_simp

text \<open>(kept_port_selects_another) A target whose only port is shared keeps it, and the rule made from it selects
  the other process too, although that one has a port of its own.\<close>

theorem kept_port_selects_another:
  "map tg_ports (disambiguate [sample_target 1 ''web'' [80, 8100], sample_target 2 ''proxy'' [80]]) = [[8100], [80]]"
  by code_simp

end
