(* ===== verification/Ebpf_Control.thy ===== *)
theory Ebpf_Control
  imports Ebpf_Targets Spans Tokens "HOL-Library.AList"
begin

text \<open>
  The consumers of the eBPF discovery and what feeds them: the supervisor of the instrumentation
  process (\<open>internal/ebpf/supervisor.go\<close>), the registry of runtimes (\<open>registry.go\<close>), the sampling of the
  processes' resources (\<open>internal/procmetrics/collector.go\<close>), the sink that adds apm2go itself
  (\<open>self.go\<close>), one discovery pass (\<open>discoverer.go\<close>) and how \<open>cmd/apm2go/run.go\<close> wires them.  The
  supervisor is a state machine: a turn of its loop is a function, and its environment may hand over
  targets, end the process or cancel at any moment.
\<close>

section \<open>The supervisor\<close>

datatype phase = Starting | Disabled | Deciding | Waiting | Running "target list" | BackingOff | Stopped

record supervisor =
  su_targets :: "target list"
  su_changed :: bool
  su_phase :: phase

definition new_supervisor :: supervisor where
  "new_supervisor = \<lparr>su_targets = [], su_changed = False, su_phase = Starting\<rparr>"

definition sup_set_targets :: "target list \<Rightarrow> supervisor \<Rightarrow> supervisor" where
  "sup_set_targets ts s =
     (if same_targets (su_targets s) ts then s else s\<lparr>su_targets := ts, su_changed := True\<rparr>)"

text \<open>The start of \<open>Run\<close>: what the host can do, and whether the binary could be staged.\<close>

definition sup_boot :: "capability \<Rightarrow> bool \<Rightarrow> supervisor \<Rightarrow> supervisor" where
  "sup_boot c staged s = s\<lparr>su_phase := (if cp_spans c \<and> staged then Deciding else Disabled)\<rparr>"

text \<open>One turn of the loop, when neither the context is done nor the process ends.\<close>

definition sup_turn :: "supervisor \<Rightarrow> supervisor" where
  "sup_turn s =
     (case su_phase s of
        Deciding \<Rightarrow> s\<lparr>su_phase := (if su_targets s = [] then Waiting else Running (su_targets s))\<rparr>
      | Waiting \<Rightarrow> if su_changed s then s\<lparr>su_changed := False, su_phase := Deciding\<rparr> else s
      | Running ts \<Rightarrow> if su_changed s then s\<lparr>su_changed := False, su_phase := Deciding\<rparr> else s
      | BackingOff \<Rightarrow> s\<lparr>su_phase := Deciding\<rparr>
      | _ \<Rightarrow> s)"

inductive sup_step :: "supervisor \<Rightarrow> supervisor \<Rightarrow> bool" where
  boot: "su_phase s = Starting \<Longrightarrow> sup_step s (sup_boot c staged s)"
| turn: "sup_step s (sup_turn s)"
| discovered: "sup_step s (sup_set_targets ts s)"
| process_ended: "su_phase s = Running ts \<Longrightarrow> sup_step s (s\<lparr>su_phase := BackingOff\<rparr>)"
| cancelled: "sup_step s (s\<lparr>su_phase := Stopped\<rparr>)"

inductive sup_reachable :: "supervisor \<Rightarrow> bool" where
  start: "sup_reachable new_supervisor"
| step: "sup_reachable s \<Longrightarrow> sup_step s s' \<Longrightarrow> sup_reachable s'"

inductive_cases sup_stepE: "sup_step s s'"

subsection \<open>What the process is started with\<close>

definition ingest_header :: "string \<Rightarrow> string" where
  "ingest_header token = ''x-apm2go-token='' @ token"

definition obi_args :: "string \<Rightarrow> string list" where
  "obi_args config_path = [''-config'', config_path]"

definition obi_env :: "string \<Rightarrow> bool \<Rightarrow> string list" where
  "obi_env token with_metrics =
     [''PATH=/usr/bin:/bin'', ''OTEL_EXPORTER_OTLP_TRACES_HEADERS='' @ ingest_header token] @
     (if with_metrics then [''OTEL_EXPORTER_OTLP_METRICS_HEADERS='' @ ingest_header token] else [])"

definition config_path :: "string \<Rightarrow> string" where
  "config_path data_dir = path_join [path_join [data_dir, ''ebpf''], ''obi.yaml'']"

definition max_tail :: nat where "max_tail = 500"

text \<open>The tail of the output, behind a UTF-8 ellipsis when it was cut.\<close>

definition trimmed :: "string \<Rightarrow> string" where
  "trimmed s =
     (let t = trim_right (\<lambda>c. c \<in> {CHR 0x0A, CHR '' '', CHR 0x09}) s
      in if max_tail < length t then [CHR 0xE2, CHR 0x80, CHR 0xA6] @ drop (length t - max_tail) t else t)"

text \<open>The file the binary is staged in, and what the staging makes of it: whether the temporary file can be
  written and renamed is an argument.\<close>

definition materialize :: "bool \<Rightarrow> string \<Rightarrow> string option \<Rightarrow> bool \<times> string option" where
  "materialize writable data file =
     (case file of
        Some f \<Rightarrow> if length f = length data then (True, file)
                  else if writable then (True, Some data) else (False, file)
      | None \<Rightarrow> if writable then (True, Some data) else (False, None))"

section \<open>The registry of runtimes\<close>

definition max_remembered :: nat where "max_remembered = 4096"

record runtime_registry =
  rr_runtimes :: "(string \<times> runtime) list"
  rr_current :: "target list"
  rr_since :: "(string \<times> gotime) list"

definition new_runtime_registry :: runtime_registry where
  "new_runtime_registry = \<lparr>rr_runtimes = [], rr_current = [], rr_since = []\<rparr>"

definition remember_since :: "gotime \<Rightarrow> target \<Rightarrow> runtime_registry \<Rightarrow> runtime_registry" where
  "remember_since now t r =
     (if tg_name t \<noteq> [] \<and> map_of (rr_since r) (tg_name t) = None \<and> length (rr_since r) < max_remembered
      then r\<lparr>rr_since := AList.update (tg_name t) now (rr_since r)\<rparr> else r)"

definition remember_runtime :: "target \<Rightarrow> runtime_registry \<Rightarrow> runtime_registry" where
  "remember_runtime t r =
     (if tg_name t = [] \<or> tg_runtime t = [] then r
      else if map_of (rr_runtimes r) (tg_name t) = None \<and> max_remembered \<le> length (rr_runtimes r) then r
      else r\<lparr>rr_runtimes := AList.update (tg_name t) (tg_runtime t) (rr_runtimes r)\<rparr>)"

definition reg_set_targets :: "gotime \<Rightarrow> target list \<Rightarrow> runtime_registry \<Rightarrow> runtime_registry" where
  "reg_set_targets now ts r =
     foldl (\<lambda>r t. remember_runtime t (remember_since now t r)) (r\<lparr>rr_current := ts\<rparr>) ts"

definition runtime_for :: "runtime_registry \<Rightarrow> string \<Rightarrow> string" where
  "runtime_for r name = (case map_of (rr_runtimes r) name of None \<Rightarrow> [] | Some x \<Rightarrow> x)"

record watched_process =
  wp_name :: string
  wp_runtime :: string
  wp_pid :: int
  wp_ports :: "nat list"
  wp_container :: string
  wp_first_seen :: gotime

definition registry_snapshot :: "runtime_registry \<Rightarrow> watched_process list" where
  "registry_snapshot r =
     sort_key wp_name
       (map (\<lambda>t. \<lparr>wp_name = tg_name t, wp_runtime = tg_runtime t, wp_pid = tg_pid t, wp_ports = tg_ports t,
                  wp_container = tg_container t,
                  wp_first_seen = (case map_of (rr_since r) (tg_name t) of None \<Rightarrow> zero_time | Some t0 \<Rightarrow> t0)\<rparr>)
         (rr_current r))"

section \<open>Process metrics\<close>

text \<open>What the kernel says of one process, \<open>None\<close> where it cannot be read.\<close>

record reading =
  rd_cpu :: "rat option"
  rd_rss :: "rat option"
  rd_percent :: "rat option"
  rd_io :: "(rat \<times> rat) option"

record collector =
  co_host :: string
  co_cpus :: rat
  co_targets :: "target list"
  co_prior :: "(int \<times> rat \<times> gotime) list"

definition col_set_targets :: "target list \<Rightarrow> collector \<Rightarrow> collector" where
  "col_set_targets ts c = c\<lparr>co_targets := ts\<rparr>"

definition gauge :: "collector \<Rightarrow> target \<Rightarrow> gotime \<Rightarrow> string \<Rightarrow> rat \<Rightarrow> string \<Rightarrow> (string \<rightharpoonup> string) \<Rightarrow> metric" where
  "gauge c t ts name v unit attrs =
     \<lparr>m_timestamp = ts, m_name = name, m_kind = KindGauge, m_service = tg_name t, m_host_name = co_host c,
      m_pid = tg_pid t, m_value = Fin v, m_count = 0, m_sum = Fin 0, m_buckets = [], m_unit = unit,
      m_attributes = attrs\<rparr>"

definition sum_metric :: "collector \<Rightarrow> target \<Rightarrow> gotime \<Rightarrow> string \<Rightarrow> rat \<Rightarrow> string \<Rightarrow> (string \<rightharpoonup> string) \<Rightarrow> metric" where
  "sum_metric c t ts name v unit attrs = (gauge c t ts name v unit attrs)\<lparr>m_kind := KindSum\<rparr>"

definition cpu_metric :: "target \<Rightarrow> reading \<Rightarrow> gotime \<Rightarrow> collector \<Rightarrow> collector \<times> metric list" where
  "cpu_metric t rd now c =
     (case rd_cpu rd of
        None \<Rightarrow> (c, [])
      | Some cpu \<Rightarrow>
          (let c' = c\<lparr>co_prior := AList.update (tg_pid t) (cpu, now) (co_prior c)\<rparr> in
           case map_of (co_prior c) (tg_pid t) of
             None \<Rightarrow> (c', [])
           | Some (before, since) \<Rightarrow>
               (let elapsed = rat_of_int (now - since) / rat_of_int second;
                    utilization = (cpu - before) / elapsed / co_cpus c
                in if elapsed \<le> 0 then (c', [])
                   else if utilization < 0 then (c', [])
                   else (c', [gauge c t now ''process.cpu.utilization'' utilization ''1'' Map.empty]))))"

definition memory_metrics :: "collector \<Rightarrow> target \<Rightarrow> reading \<Rightarrow> gotime \<Rightarrow> metric list" where
  "memory_metrics c t rd now =
     (case rd_rss rd of
        None \<Rightarrow> []
      | Some rss \<Rightarrow>
          gauge c t now ''process.memory.usage'' rss ''By'' Map.empty #
          (case rd_percent rd of
             None \<Rightarrow> []
           | Some p \<Rightarrow> [gauge c t now ''process.memory.utilization'' (p / 100) ''1'' Map.empty]))"

definition disk_metrics :: "collector \<Rightarrow> target \<Rightarrow> reading \<Rightarrow> gotime \<Rightarrow> metric list" where
  "disk_metrics c t rd now =
     (case rd_io rd of
        None \<Rightarrow> []
      | Some (r, w) \<Rightarrow>
          [sum_metric c t now ''process.disk.io'' r ''By'' [''direction'' \<mapsto> ''read''],
           sum_metric c t now ''process.disk.io'' w ''By'' [''direction'' \<mapsto> ''write'']])"

definition sample_target_at :: "(int \<Rightarrow> reading option) \<Rightarrow> gotime \<Rightarrow> collector \<Rightarrow> target \<Rightarrow> collector \<times> metric list" where
  "sample_target_at readings now c t =
     (case readings (tg_pid t) of
        None \<Rightarrow> (c, [])
      | Some rd \<Rightarrow>
          (case cpu_metric t rd now c of
             (c', ms) \<Rightarrow> (c', ms @ memory_metrics c t rd now @ disk_metrics c t rd now)))"

fun sample_targets :: "(int \<Rightarrow> reading option) \<Rightarrow> gotime \<Rightarrow> collector \<Rightarrow> target list \<Rightarrow> collector \<times> metric list" where
  "sample_targets readings now c [] = (c, [])"
| "sample_targets readings now c (t # ts) =
     (case sample_target_at readings now c t of
        (c1, ms) \<Rightarrow> (case sample_targets readings now c1 ts of (c2, ms') \<Rightarrow> (c2, ms @ ms')))"

text \<open>One tick: the samples, with the histories of processes that are no longer targets dropped.\<close>

definition collect_metrics :: "(int \<Rightarrow> reading option) \<Rightarrow> gotime \<Rightarrow> collector \<Rightarrow> collector \<times> metric list" where
  "collect_metrics readings now c =
     (case sample_targets readings now c (co_targets c) of
        (c', ms) \<Rightarrow>
          (c'\<lparr>co_prior := filter (\<lambda>e. fst e \<in> tg_pid ` set (co_targets c)) (co_prior c')\<rparr>, ms))"

section \<open>Sinks\<close>

definition with_self :: "(target list \<Rightarrow> 's \<Rightarrow> 's) \<Rightarrow> target \<Rightarrow> target list \<Rightarrow> 's \<Rightarrow> 's" where
  "with_self deliver self ts = deliver (ts @ [self])"

record watchers =
  w_supervisor :: supervisor
  w_collector :: collector
  w_registry :: runtime_registry

definition self_target :: "int \<Rightarrow> target" where
  "self_target p = \<lparr>tg_pid = p, tg_runtime = runtime_go, tg_name = ''apm2go'', tg_container = [], tg_ports = []\<rparr>"

definition otlp_endpoint :: "string \<Rightarrow> string option" where
  "otlp_endpoint grpc_addr =
     (case split_host_port grpc_addr of Inl _ \<Rightarrow> None | Inr (_, port) \<Rightarrow> Some (''http://127.0.0.1:'' @ port))"

definition api_port :: "string \<Rightarrow> int option" where
  "api_port addr = (case split_host_port addr of Inl _ \<Rightarrow> None | Inr (_, port) \<Rightarrow> atoi port)"

text \<open>A port of the configured address, as the target lists it.\<close>

definition api_sink :: "string \<Rightarrow> int \<Rightarrow> target list \<Rightarrow> supervisor \<Rightarrow> supervisor" where
  "api_sink api_addr self =
     (case api_port api_addr of
        None \<Rightarrow> sup_set_targets
      | Some port \<Rightarrow> with_self sup_set_targets ((self_target self)\<lparr>tg_ports := [nat port]\<rparr>))"

definition deliver_all :: "string \<Rightarrow> int \<Rightarrow> gotime \<Rightarrow> target list \<Rightarrow> watchers \<Rightarrow> watchers" where
  "deliver_all api_addr self now ts w =
     \<lparr>w_supervisor = api_sink api_addr self ts (w_supervisor w),
      w_collector = with_self col_set_targets (self_target self) ts (w_collector w),
      w_registry = with_self (reg_set_targets now) (self_target self) ts (w_registry w)\<rparr>"

definition discover_pass ::
  "string \<Rightarrow> int \<Rightarrow> gotime \<Rightarrow> string list option \<Rightarrow> proc_tree \<Rightarrow> watchers \<Rightarrow> watchers" where
  "discover_pass api_addr self now names proc w =
     (case scan_targets names proc of
        None \<Rightarrow> w
      | Some found \<Rightarrow> deliver_all api_addr self now (disambiguate found) w)"

section \<open>The interface of a sink\<close>

text \<open>What the discovery relies on in a consumer: after a delivery it watches the targets delivered, by
  whatever way it stores them.\<close>

definition same_views :: "target list \<Rightarrow> target list \<Rightarrow> bool" where
  "same_views a b \<longleftrightarrow> target_view ` set a = target_view ` set b"

locale target_sink =
  fixes deliver :: "target list \<Rightarrow> 's \<Rightarrow> 's"
    and watched :: "'s \<Rightarrow> target list"
  assumes delivered: "targets_sane (watched s) \<Longrightarrow> targets_sane ts \<Longrightarrow> same_views (watched (deliver ts s)) ts"
    and kept_sane: "targets_sane (watched s) \<Longrightarrow> targets_sane ts \<Longrightarrow> targets_sane (watched (deliver ts s))"
begin

text \<open>With apm2go itself added: it is always among the watched, and the others are those delivered.\<close>

lemma self_delivered:
  assumes "targets_sane (watched s)" and "targets_sane (ts @ [self])"
  shows "target_view ` set (watched (with_self deliver self ts s)) = insert (target_view self) (target_view ` set ts)"
    and "targets_sane (watched (with_self deliver self ts s))"
  using delivered [OF assms] kept_sane [OF assms] by (auto simp: with_self_def same_views_def)

text \<open>Only the last delivery counts.\<close>

lemma last_delivery:
  assumes "targets_sane (watched s)" and "targets_sane ts" and "targets_sane us"
  shows "same_views (watched (deliver us (deliver ts s))) (watched (deliver us s))"
  using delivered [OF kept_sane [OF assms(1,2)] assms(3)] delivered [OF assms(1,3)] by (simp add: same_views_def)

end

lemma foldl_remember_current:
  "rr_current (foldl (\<lambda>r t. remember_runtime t (remember_since now t r)) r ts) = rr_current r"
  by (induction ts arbitrary: r) (simp_all add: remember_runtime_def remember_since_def)

lemma reg_current [simp]: "rr_current (reg_set_targets now ts r) = ts"
  by (simp add: reg_set_targets_def foldl_remember_current)

interpretation supervisor_sink: target_sink sup_set_targets su_targets
  by unfold_locales
    (auto simp: sup_set_targets_def same_views_def same_targets_keys keys_views image_image)

interpretation collector_sink: target_sink col_set_targets co_targets
  by unfold_locales (simp_all add: col_set_targets_def same_views_def)

interpretation registry_sink: target_sink "reg_set_targets now" rr_current for now
  by unfold_locales (simp_all add: same_views_def)

section \<open>Lemmas: the supervisor\<close>

text \<open>The instrumentation runs for the current targets, or is about to be told of the others.\<close>

definition sup_ok :: "supervisor \<Rightarrow> bool" where
  "sup_ok s \<longleftrightarrow>
     (case su_phase s of
        Running ts \<Rightarrow> ts \<noteq> [] \<and> (su_changed s \<or> ts = su_targets s)
      | Waiting \<Rightarrow> su_changed s \<or> su_targets s = []
      | _ \<Rightarrow> True)"

lemma sup_ok_new: "sup_ok new_supervisor"
  by (simp add: sup_ok_def new_supervisor_def)

lemma sup_turn_ok: "sup_ok s \<Longrightarrow> sup_ok (sup_turn s)"
  by (auto simp: sup_ok_def sup_turn_def split: phase.splits if_splits)

lemma sup_set_ok: "sup_ok s \<Longrightarrow> sup_ok (sup_set_targets ts s)"
  by (auto simp: sup_ok_def sup_set_targets_def split: phase.splits)

lemma sup_step_ok: "sup_step s s' \<Longrightarrow> sup_ok s \<Longrightarrow> sup_ok s'"
  by (elim sup_stepE) (auto simp: sup_turn_ok sup_set_ok, auto simp: sup_ok_def sup_boot_def)

lemma sup_reachable_ok: "sup_reachable s \<Longrightarrow> sup_ok s"
  by (induction rule: sup_reachable.induct) (auto simp: sup_ok_new sup_step_ok)

definition sup_live :: "supervisor \<Rightarrow> bool" where
  "sup_live s \<longleftrightarrow> (case su_phase s of Deciding \<Rightarrow> True | Waiting \<Rightarrow> True | Running _ \<Rightarrow> True | BackingOff \<Rightarrow> True | _ \<Rightarrow> False)"

definition sup_settled :: "supervisor \<Rightarrow> bool" where
  "sup_settled s \<longleftrightarrow>
     \<not> su_changed s \<and> su_phase s = (if su_targets s = [] then Waiting else Running (su_targets s)) \<and> sup_turn s = s"

lemma settled_step: "su_targets (sup_turn s) = su_targets s"
  by (auto simp: sup_turn_def split: phase.split)

lemma decided: "su_phase s = Deciding \<Longrightarrow> \<not> su_changed s \<Longrightarrow> sup_settled (sup_turn s)"
  by (auto simp: sup_settled_def sup_turn_def)

lemma settled_stays: "sup_settled s \<Longrightarrow> sup_settled (sup_turn s)"
  by (simp add: sup_settled_def)

lemma informed: "su_phase s = Running ts \<or> su_phase s = Waiting \<Longrightarrow> su_changed s \<Longrightarrow> sup_settled (sup_turn (sup_turn s))"
  by (rule decided) (auto simp: sup_turn_def)

section \<open>Lemmas: the registry\<close>

definition registry_ok :: "runtime_registry \<Rightarrow> bool" where
  "registry_ok r \<longleftrightarrow> length (rr_runtimes r) \<le> max_remembered \<and> length (rr_since r) \<le> max_remembered"

lemma length_update: "length (AList.update k v xs) = (if map_of xs k = None then Suc (length xs) else length xs)"
  by (induction xs) auto

lemma remember_since_ok: "registry_ok r \<Longrightarrow> registry_ok (remember_since now t r)"
  by (auto simp: registry_ok_def remember_since_def length_update)

lemma remember_runtime_ok: "registry_ok r \<Longrightarrow> registry_ok (remember_runtime t r)"
  by (auto simp: registry_ok_def remember_runtime_def length_update)

lemma foldl_remember_ok:
  "registry_ok r \<Longrightarrow> registry_ok (foldl (\<lambda>r t. remember_runtime t (remember_since now t r)) r ts)"
  by (induction ts arbitrary: r) (simp_all add: remember_since_ok remember_runtime_ok)

lemma reg_set_ok: "registry_ok r \<Longrightarrow> registry_ok (reg_set_targets now ts r)"
  unfolding reg_set_targets_def by (rule foldl_remember_ok) (simp add: registry_ok_def)

lemma runtime_kept:
  "map_of (rr_runtimes r) n \<noteq> None \<Longrightarrow>
     map_of (rr_runtimes (foldl (\<lambda>r t. remember_runtime t (remember_since now t r)) r ts)) n \<noteq> None"
proof (induction ts arbitrary: r)
  case (Cons t ts)
  have "map_of (rr_runtimes (remember_runtime t (remember_since now t r))) n \<noteq> None"
    using Cons.prems by (auto simp: remember_runtime_def remember_since_def update_conv')
  then show ?case using Cons.IH by simp
qed simp

lemma runtime_space:
  "length (rr_runtimes (foldl (\<lambda>r t. remember_runtime t (remember_since now t r)) r ts)) \<le> length (rr_runtimes r) + length ts"
proof (induction ts arbitrary: r)
  case (Cons t ts)
  have "length (rr_runtimes (remember_runtime t (remember_since now t r))) \<le> Suc (length (rr_runtimes r))"
    by (simp add: remember_runtime_def remember_since_def length_update)
  then show ?case using Cons.IH [of "remember_runtime t (remember_since now t r)"] by simp
qed simp

lemma foldl_runtime_last:
  assumes "length (rr_runtimes r) + length ts \<le> max_remembered"
    and "list_all (\<lambda>t. tg_name t = n \<longrightarrow> tg_runtime t = x) ts" and "x \<noteq> []" and "n \<noteq> []"
    and "n \<in> tg_name ` set ts \<or> map_of (rr_runtimes r) n = Some x"
  shows "map_of (rr_runtimes (foldl (\<lambda>r t. remember_runtime t (remember_since now t r)) r ts)) n = Some x"
  using assms
proof (induction ts arbitrary: r)
  case (Cons t ts)
  let ?r = "remember_runtime t (remember_since now t r)"
  have len: "length (rr_runtimes ?r) \<le> Suc (length (rr_runtimes r))"
    by (simp add: remember_runtime_def remember_since_def length_update)
  have "n \<in> tg_name ` set ts \<or> map_of (rr_runtimes ?r) n = Some x"
    using Cons.prems by (auto simp: remember_runtime_def remember_since_def update_conv')
  then have "map_of (rr_runtimes (foldl (\<lambda>r t. remember_runtime t (remember_since now t r)) ?r ts)) n = Some x"
    using Cons.prems len by (intro Cons.IH) simp_all
  then show ?case by simp
qed simp

section \<open>Lemmas: a scan and the samples\<close>

lemma how_found_runtime:
  "how_found proc t base \<Longrightarrow>
     tg_runtime t \<in> {runtime_node, runtime_python, runtime_php, runtime_nginx, runtime_httpd, runtime_go}"
  by (auto simp: how_found_def classify_exe_def interpreter_prefix_def native_servers_def split: if_splits)

lemma scan_sane:
  assumes "scan_targets names proc = Some found" and "distinct (map tg_pid found)"
  shows "targets_sane found"
proof -
  have "CHR ''|'' \<notin> set (tg_runtime t)" if t: "t \<in> set found" for t
  proof -
    obtain p where "classify_process proc p = Some t"
      using assms(1) t by (auto simp: scan_targets_def map_filter_set)
    then obtain exe where "how_found proc t (path_base exe)" using classify_process_Some by blast
    then show ?thesis using how_found_runtime [of proc t "path_base exe"] by (auto simp: runtimes)
  qed
  then show ?thesis using assms(2) by (simp add: targets_sane_def list_all_iff)
qed

lemma disambiguate_sane: "targets_sane ts \<Longrightarrow> targets_sane (disambiguate ts)"
proof -
  assume s: "targets_sane ts"
  have "set (map tg_runtime (disambiguate ts)) = set (map tg_runtime ts)" by (simp only: disambiguate_runtimes)
  then have "tg_runtime t \<in> tg_runtime ` set ts" if "t \<in> set (disambiguate ts)" for t using that by auto
  then show "targets_sane (disambiguate ts)"
    using s disambiguate_pids [of ts] by (fastforce simp: targets_sane_def list_all_iff)
qed

text \<open>A metric of one tick: whose it is, and what a CPU figure rests on.\<close>

definition metric_ok :: "collector \<Rightarrow> gotime \<Rightarrow> metric \<Rightarrow> bool" where
  "metric_ok c now m \<longleftrightarrow>
     m_timestamp m = now \<and> (m_service m, m_pid m) \<in> (\<lambda>t. (tg_name t, tg_pid t)) ` set (co_targets c) \<and>
     (if m_name m = ''process.cpu.utilization''
      then (case (m_value m, map_of (co_prior c) (m_pid m)) of
              (Fin v, Some (before, since)) \<Rightarrow> 0 \<le> v \<and> since < now
            | _ \<Rightarrow> False)
      else True)"

definition sampled_from :: "collector \<Rightarrow> gotime \<Rightarrow> collector \<Rightarrow> bool" where
  "sampled_from c now c1 \<longleftrightarrow>
     co_targets c1 = co_targets c \<and>
     (\<forall>p. map_of (co_prior c1) p = map_of (co_prior c) p \<or> (\<exists>cpu. map_of (co_prior c1) p = Some (cpu, now)))"

lemma cpu_metric_state:
  "cpu_metric t rd now c1 = (c2, ms) \<Longrightarrow>
     c2 = c1 \<or> (\<exists>cpu. c2 = c1\<lparr>co_prior := AList.update (tg_pid t) (cpu, now) (co_prior c1)\<rparr>)"
  by (auto simp: cpu_metric_def Let_def split: option.splits if_splits)

lemma sampled_update:
  "sampled_from c now c1 \<Longrightarrow> sampled_from c now (c1\<lparr>co_prior := AList.update p (cpu, now) (co_prior c1)\<rparr>)"
  by (simp add: sampled_from_def update_conv')

lemma cpu_metric_ok:
  assumes "sampled_from c now c1" and "t \<in> set (co_targets c)" and "cpu_metric t rd now c1 = (c2, ms)"
  shows "sampled_from c now c2 \<and> list_all (metric_ok c now) ms"
proof -
  have "sampled_from c now c2"
    using cpu_metric_state [OF assms(3)] sampled_update [OF assms(1)] assms(1) by auto
  moreover have "metric_ok c now m" if "m \<in> set ms" for m
  proof -
    from assms(3) that obtain before since v where
      m: "m = gauge c1 t now ''process.cpu.utilization'' v ''1'' Map.empty" "0 \<le> v"
      and p: "map_of (co_prior c1) (tg_pid t) = Some (before, since)" "\<not> rat_of_int (now - since) / rat_of_int second \<le> 0"
      by (auto simp: cpu_metric_def Let_def split: option.splits if_splits) (metis not_less)
    from p(2) have "since < now" by (simp add: divide_le_0_iff)
    with p assms(1) have "map_of (co_prior c) (tg_pid t) = Some (before, since)"
      unfolding sampled_from_def by (metis fst_conv option.inject prod.inject less_irrefl)
    with m \<open>since < now\<close> assms(2) show ?thesis by (auto simp: metric_ok_def gauge_def)
  qed
  ultimately show ?thesis by (simp add: list_all_iff)
qed

lemma other_metrics_ok:
  assumes "t \<in> set (co_targets c)"
  shows "list_all (metric_ok c now) (memory_metrics c1 t rd now)" "list_all (metric_ok c now) (disk_metrics c1 t rd now)"
  using assms
  by (auto simp: memory_metrics_def disk_metrics_def metric_ok_def sum_metric_def gauge_def split: option.split)

lemma sample_target_ok:
  assumes "sampled_from c now c1" and "t \<in> set (co_targets c)" and "sample_target_at readings now c1 t = (c2, ms)"
  shows "sampled_from c now c2 \<and> list_all (metric_ok c now) ms"
proof (cases "readings (tg_pid t)")
  case (Some rd)
  obtain c' ms' where r: "cpu_metric t rd now c1 = (c', ms')" by fastforce
  from cpu_metric_ok [OF assms(1,2) r] other_metrics_ok [OF assms(2)] show ?thesis
    using assms(3) Some r by (auto simp: sample_target_at_def)
qed (use assms in \<open>simp add: sample_target_at_def\<close>)

lemma sample_targets_ok:
  "sampled_from c now c1 \<Longrightarrow> set ts \<subseteq> set (co_targets c) \<Longrightarrow> sample_targets readings now c1 ts = (c2, ms) \<Longrightarrow>
     sampled_from c now c2 \<and> list_all (metric_ok c now) ms"
proof (induction ts arbitrary: c1 c2 ms)
  case (Cons t ts)
  obtain c' m' where 1: "sample_target_at readings now c1 t = (c', m')" by fastforce
  obtain c'' m'' where 2: "sample_targets readings now c' ts = (c'', m'')" by fastforce
  from sample_target_ok [OF Cons.prems(1) _ 1] Cons.prems(2) have 3: "sampled_from c now c' \<and> list_all (metric_ok c now) m'"
    by simp
  with Cons.IH [OF _ _ 2] Cons.prems 1 2 show ?case by auto
qed auto

section \<open>Properties\<close>

text \<open>C10 (no change of targets is missed). Whatever the order of discoveries, turns, crashes and cancellation,
  the instrumentation runs for the targets that are current, or a change is waiting to be noticed; and
  it waits for targets only when there are none.\<close>

theorem no_change_missed:
  assumes "sup_reachable s"
  shows "case su_phase s of
      Running ts \<Rightarrow> ts \<noteq> [] \<and> (su_changed s \<or> ts = su_targets s)
    | Waiting \<Rightarrow> su_changed s \<or> su_targets s = []
    | _ \<Rightarrow> True"
  using sup_reachable_ok [OF assms] by (simp add: sup_ok_def)

definition can_do :: capability where
  "can_do = detect True ''6.1.0'' True 0"

definition one_target :: "target list" where
  "one_target = [sample_target 7 ''shop'' [3000]]"

text \<open>Targets that arrive while the binary is being staged.\<close>

lemma early_targets:
  "sup_reachable \<lparr>su_targets = one_target, su_changed = True, su_phase = Running one_target\<rparr>"
proof -
  have 1: "sup_reachable (sup_set_targets one_target new_supervisor)"
    by (rule sup_reachable.step [OF sup_reachable.start sup_step.discovered])
  have "su_phase (sup_set_targets one_target new_supervisor) = Starting"
    by (simp add: sup_set_targets_def new_supervisor_def)
  then have 2: "sup_reachable (sup_boot can_do True (sup_set_targets one_target new_supervisor))"
    by (rule sup_reachable.step [OF 1 sup_step.boot])
  have 3: "sup_reachable (sup_turn (sup_boot can_do True (sup_set_targets one_target new_supervisor)))"
    by (rule sup_reachable.step [OF 2 sup_step.turn])
  have "cp_spans can_do" by code_simp
  then show ?thesis using 3
    by (simp add: sup_turn_def sup_boot_def sup_set_targets_def new_supervisor_def same_targets_def one_target_def)
qed

theorem no_change_missed_witness:
  "case Running one_target of Running ts \<Rightarrow> ts \<noteq> [] \<and> (True \<or> ts = one_target) | _ \<Rightarrow> True"
  using no_change_missed [OF early_targets] by simp

text \<open>C9 (a change takes effect). Once discovery is quiet and the process does not end, at most four turns of
  the loop bring the instrumentation to run for exactly the current targets, or to wait when there are
  none, and it stays there.\<close>

theorem change_takes_effect:
  assumes "sup_reachable s" and "sup_live s"
  shows "sup_settled (sup_turn (sup_turn (sup_turn (sup_turn s)))) \<and>
    su_targets (sup_turn (sup_turn (sup_turn (sup_turn s)))) = su_targets s"
proof -
  have ok: "sup_ok s" by (rule sup_reachable_ok [OF assms(1)])
  have deciding: "sup_settled (sup_turn (sup_turn (sup_turn u)))" if "su_phase u = Deciding" for u
  proof (cases "su_changed u")
    case True
    have "su_phase (sup_turn u) = Running (su_targets u) \<or> su_phase (sup_turn u) = Waiting" "su_changed (sup_turn u)"
      using that True by (auto simp: sup_turn_def)
    then show ?thesis using informed [of "sup_turn u"] by auto
  next
    case False
    then show ?thesis using decided [OF that] settled_stays by blast
  qed
  have "sup_settled (sup_turn (sup_turn (sup_turn (sup_turn s))))"
  proof (cases "su_phase s = BackingOff")
    case True
    then have "su_phase (sup_turn s) = Deciding" by (simp add: sup_turn_def)
    then show ?thesis by (rule deciding)
  next
    case not_off: False
    show ?thesis
    proof (cases "su_phase s = Deciding")
      case True
      then show ?thesis using deciding settled_stays by blast
    next
      case False
      then have p: "su_phase s = Waiting \<or> (\<exists>ts. su_phase s = Running ts)"
        using assms(2) not_off by (auto simp: sup_live_def split: phase.splits)
      show ?thesis
      proof (cases "su_changed s")
        case True
        then show ?thesis using p informed settled_stays by blast
      next
        case False
        then have "sup_settled s" using p ok by (auto simp: sup_ok_def sup_settled_def sup_turn_def)
        then show ?thesis using settled_stays by blast
      qed
    qed
  qed
  then show ?thesis by (simp add: settled_step)
qed

theorem change_takes_effect_witness:
  "sup_settled (sup_turn (sup_turn (sup_turn (sup_turn \<lparr>su_targets = one_target, su_changed = True, su_phase = Running one_target\<rparr>))))"
  using change_takes_effect [OF early_targets] by (simp add: sup_live_def)

text \<open>(early_targets_restart) Targets that arrived before the loop first looked leave their signal behind: the
  process is started for them, and at once stopped and started again for the same targets.\<close>

theorem early_targets_restart:
  "sup_turn \<lparr>su_targets = one_target, su_changed = True, su_phase = Running one_target\<rparr> =
     \<lparr>su_targets = one_target, su_changed = False, su_phase = Deciding\<rparr> \<and>
   sup_turn \<lparr>su_targets = one_target, su_changed = False, su_phase = Deciding\<rparr> =
     \<lparr>su_targets = one_target, su_changed = False, su_phase = Running one_target\<rparr>"
  by (simp add: sup_turn_def one_target_def)

text \<open>(stale_binary_kept) Staging compares sizes, not contents: another binary of the same size stays.\<close>

theorem stale_binary_kept:
  "materialize True ''new!'' (Some ''old?'') = (True, Some ''old?'')"
  by (simp add: materialize_def)

text \<open>(runtimes are remembered, within a bound) Over any sequence of scans both tables stay within 4096
  names; and while there is room, every service of the last scan whose targets agree on a runtime is
  answered with it.\<close>

theorem registry_remembers:
  assumes "registry_ok r" and "length (rr_runtimes r) + length ts \<le> max_remembered" and "t \<in> set ts"
    and "tg_name t \<noteq> []" and "tg_runtime t \<noteq> []" and "list_all (\<lambda>u. tg_name u = tg_name t \<longrightarrow> tg_runtime u = tg_runtime t) ts"
  shows "registry_ok (reg_set_targets now ts r) \<and> runtime_for (reg_set_targets now ts r) (tg_name t) = tg_runtime t"
  using foldl_runtime_last [of "r\<lparr>rr_current := ts\<rparr>" ts "tg_name t" "tg_runtime t" now] assms reg_set_ok
  by (auto simp: runtime_for_def reg_set_targets_def)

theorem registry_remembers_witness:
  "registry_ok (reg_set_targets 5 one_target new_runtime_registry) \<and>
   runtime_for (reg_set_targets 5 one_target new_runtime_registry) ''shop'' = ''nodejs''"
  using registry_remembers [of new_runtime_registry one_target "sample_target 7 ''shop'' [3000]" 5]
  by (simp add: registry_ok_def new_runtime_registry_def one_target_def sample_target_def runtimes max_remembered_def)

text \<open>C27 (one scan, three views). After a discovery pass the supervisor, the collector of process metrics and
  the registry of runtimes all watch the targets of that scan and apm2go itself, which is handed to the
  instrumentation with the port of its interface and nothing else, and to the others without a port; a
  scan that fails changes nothing.\<close>

theorem one_scan_three_views:
  assumes "targets_sane (su_targets (w_supervisor w))" and "targets_sane (co_targets (w_collector w))"
    and "targets_sane (rr_current (w_registry w))" and "api_port addr = Some port"
    and "distinct (self # map tg_pid (case scan_targets names proc of None \<Rightarrow> [] | Some ts \<Rightarrow> ts))"
  shows "case scan_targets names proc of
      None \<Rightarrow> discover_pass addr self now names proc w = w
    | Some found \<Rightarrow>
        target_view ` set (su_targets (w_supervisor (discover_pass addr self now names proc w))) =
          insert (''apm2go'', ''go'', self, [nat port]) (target_view ` set (disambiguate found)) \<and>
        target_view ` set (co_targets (w_collector (discover_pass addr self now names proc w))) =
          insert (''apm2go'', ''go'', self, []) (target_view ` set (disambiguate found)) \<and>
        target_view ` set (rr_current (w_registry (discover_pass addr self now names proc w))) =
          insert (''apm2go'', ''go'', self, []) (target_view ` set (disambiguate found))"
proof (cases "scan_targets names proc")
  case (Some found)
  have "distinct (self # map tg_pid found)" using assms(5) Some by simp
  then have s: "targets_sane (disambiguate found)" and n: "self \<notin> tg_pid ` set (disambiguate found)"
    using scan_sane [OF Some] disambiguate_sane disambiguate_pids [of found] by (auto simp flip: set_map)
  have a: "targets_sane (disambiguate found @ [t])" if "tg_pid t = self" "tg_runtime t = runtime_go" for t
    using s n that by (auto simp: targets_sane_def runtimes)
  have v: "target_view ((self_target self)\<lparr>tg_ports := ps\<rparr>) = (''apm2go'', ''go'', self, ps)" for ps
    by (simp add: target_view_def self_target_def runtimes)
  have v0: "target_view (self_target self) = (''apm2go'', ''go'', self, [])"
    by (simp add: target_view_def self_target_def runtimes)
  have "targets_sane (disambiguate found @ [(self_target self)\<lparr>tg_ports := [nat port]\<rparr>])"
    by (rule a) (simp_all add: self_target_def)
  from supervisor_sink.self_delivered(1) [OF assms(1) this]
  have 1: "target_view ` set (su_targets (w_supervisor (discover_pass addr self now names proc w))) =
      insert (''apm2go'', ''go'', self, [nat port]) (target_view ` set (disambiguate found))"
    using Some assms(4) by (simp add: discover_pass_def deliver_all_def api_sink_def v)
  have p: "targets_sane (disambiguate found @ [self_target self])" by (rule a) (simp_all add: self_target_def)
  note 2 = collector_sink.self_delivered(1) [OF assms(2) p] and 3 = registry_sink.self_delivered(1) [OF assms(3) p, of now]
  from 1 2 3 show ?thesis using Some by (simp add: discover_pass_def deliver_all_def v0)
qed (simp add: discover_pass_def)

definition sample_watchers :: watchers where
  "sample_watchers =
     \<lparr>w_supervisor = new_supervisor,
      w_collector = \<lparr>co_host = ''h'', co_cpus = 4, co_targets = [], co_prior = []\<rparr>,
      w_registry = new_runtime_registry\<rparr>"

definition sample_proc :: proc_tree where
  "sample_proc = (\<lambda>_. sample_files [Some ''socket:[42]''] [''sl'', sample_row ''0050''])"

lemma sample_scan:
  "scan_targets (Some [''7'']) sample_proc =
     Some [\<lparr>tg_pid = 7, tg_runtime = ''nginx'', tg_name = ''nginx'', tg_container = [], tg_ports = [80]\<rparr>]"
  by code_simp

theorem one_scan_three_views_witness:
  "target_view ` set (su_targets (w_supervisor (discover_pass ''127.0.0.1:8080'' 99 5 (Some [''7'']) sample_proc sample_watchers))) =
     insert (''apm2go'', ''go'', 99, [8080])
       (target_view ` set (disambiguate [\<lparr>tg_pid = 7, tg_runtime = ''nginx'', tg_name = ''nginx'', tg_container = [], tg_ports = [80]\<rparr>]))"
proof -
  have "api_port ''127.0.0.1:8080'' = Some 8080" by code_simp
  from one_scan_three_views [where w = sample_watchers and names = "Some [''7'']" and proc = sample_proc and self = 99
      and now = 5, OF _ _ _ this] show ?thesis
    by (simp add: sample_scan targets_sane_def sample_watchers_def new_supervisor_def new_runtime_registry_def)
qed

text \<open>(process samples are sound) Every metric of a tick carries the tick's time and the name and pid of a
  current target; a CPU figure is never negative and is given only for a process seen at an earlier
  tick; and afterwards the history holds current targets only.\<close>

theorem process_samples_sound:
  "case collect_metrics readings now c of
     (c', ms) \<Rightarrow> list_all (metric_ok c now) ms \<and> co_targets c' = co_targets c \<and>
       fst ` set (co_prior c') \<subseteq> tg_pid ` set (co_targets c)"
proof -
  obtain c1 ms where r: "sample_targets readings now c (co_targets c) = (c1, ms)" by fastforce
  have "sampled_from c now c" by (simp add: sampled_from_def)
  from sample_targets_ok [OF this _ r] r show ?thesis
    by (auto simp: collect_metrics_def sampled_from_def)
qed

end
