(* ===== verification/Tables.thy ===== *)
theory Tables
  imports Prelude
begin

text \<open>
  The parts of the query language the store's statements use, as list functions: grouping, ordering and
  the cutting of a result.  A table is the list of its rows in the order they were appended; groups come in
  the order of their first row and equal sort keys in that order too, where the database leaves the order
  open.  Timestamps are stored in microseconds.
\<close>

section \<open>Grouping\<close>

definition group_by :: "('r \<Rightarrow> 'k) \<Rightarrow> 'r list \<Rightarrow> ('k \<times> 'r list) list" where
  "group_by key rows = map (\<lambda>k. (k, filter (\<lambda>r. key r = k) rows)) (remdups (map key rows))"

lemma group_keys: "map fst (group_by key rows) = remdups (map key rows)"
  by (simp add: group_by_def o_def)

lemma group_keys_set [simp]: "fst ` set (group_by key rows) = key ` set rows"
  by (metis group_keys image_set set_map set_remdups)

lemma group_distinct [simp]: "distinct (map fst (group_by key rows))"
  by (simp add: group_keys)

lemma in_group_by:
  "(k, g) \<in> set (group_by key rows) \<longleftrightarrow> k \<in> key ` set rows \<and> g = filter (\<lambda>r. key r = k) rows"
  by (auto simp: group_by_def)

lemma group_nonempty: "(k, g) \<in> set (group_by key rows) \<Longrightarrow> g \<noteq> []"
  by (auto simp: in_group_by filter_empty_conv)

lemma group_lookup:
  "map_of (group_by key rows) k = (if k \<in> key ` set rows then Some (filter (\<lambda>r. key r = k) rows) else None)"
proof (cases "k \<in> key ` set rows")
  case True
  then have "(k, filter (\<lambda>r. key r = k) rows) \<in> set (group_by key rows)" by (simp add: in_group_by)
  then show ?thesis using True by (simp add: map_of_is_SomeI)
next
  case False
  then show ?thesis by (simp add: map_of_eq_None_iff)
qed

text \<open>Every row is in exactly one group, so a sum over the groups of a sum over each is the sum over all.\<close>

lemma sum_over_keys:
  assumes "distinct ks" and "key ` set rows \<subseteq> set ks"
  shows "(\<Sum>k\<leftarrow>ks. \<Sum>r\<leftarrow>filter (\<lambda>r. key r = k) rows. f r) = (\<Sum>r\<leftarrow>rows. f r :: int)"
  using assms(2)
proof (induction rows)
  case Nil show ?case by (induction ks) simp_all
next
  case (Cons r rows)
  have "(\<Sum>k\<leftarrow>ks. \<Sum>q\<leftarrow>filter (\<lambda>q. key q = k) (r # rows). f q) =
      (\<Sum>k\<leftarrow>ks. if key r = k then f r else 0) + (\<Sum>k\<leftarrow>ks. \<Sum>q\<leftarrow>filter (\<lambda>q. key q = k) rows. f q)"
    unfolding sum_list_addf [symmetric] by (intro arg_cong [where f = sum_list] map_cong) auto
  also have "(\<Sum>k\<leftarrow>ks. if key r = k then f r else 0) = f r"
    using assms(1) Cons.prems by (simp add: sum_list_distinct_conv_sum_set)
  finally show ?case using Cons by simp
qed

lemma sum_over_groups: "(\<Sum>(k, g)\<leftarrow>group_by key rows. \<Sum>r\<leftarrow>g. f r) = (\<Sum>r\<leftarrow>rows. f r :: int)"
  using sum_over_keys [of "remdups (map key rows)" key rows f] by (simp add: group_by_def o_def)

section \<open>Aggregates\<close>

text \<open>An aggregate that is added up row by row, over whatever rows: what a rollup may store and add again.\<close>

locale additive =
  fixes total :: "'r list \<Rightarrow> int"
  assumes none: "total [] = 0" and more: "total (r # rs) = total [r] + total rs"
begin

lemma as_sum: "total rs = (\<Sum>r\<leftarrow>rs. total [r])"
proof (induction rs)
  case (Cons r rs) then show ?case using more [of r rs] by simp
qed (simp add: none)

lemma append: "total (rs @ ss) = total rs + total ss"
  by (simp add: as_sum [of "rs @ ss"] as_sum [of rs] as_sum [of ss])

lemma regrouped: "(\<Sum>(k, g)\<leftarrow>group_by key rs. total g) = total rs"
proof -
  have "(\<Sum>(k, g)\<leftarrow>group_by key rs. total g) = (\<Sum>(k, g)\<leftarrow>group_by key rs. \<Sum>r\<leftarrow>g. total [r])"
    by (simp only: as_sum [symmetric])
  also have "\<dots> = (\<Sum>r\<leftarrow>rs. total [r])" by (rule sum_over_groups)
  finally show ?thesis by (simp only: as_sum [symmetric])
qed

lemma split: "total (filter p rs) + total (filter (\<lambda>r. \<not> p r) rs) = total rs"
proof (induction rs)
  case (Cons r rs)
  then show ?case using more [of r rs] more [of r "filter p rs"] more [of r "filter (\<lambda>r. \<not> p r) rs"] by simp
qed (simp add: none)

end

section \<open>Times in the store\<close>

definition micros :: "gotime \<Rightarrow> int" where
  "micros t = t div 1000"

definition of_micros :: "int \<Rightarrow> gotime" where
  "of_micros u = u * 1000"

lemma micros_of [simp]: "micros (of_micros u) = u"
  by (simp add: micros_def of_micros_def)

lemma micros_mono: "s \<le> t \<Longrightarrow> micros s \<le> micros t"
  by (simp add: micros_def zdiv_mono1)

text \<open>\<open>time_bucket\<close> for a width in microseconds: the buckets are counted from the Monday 3 January 2000.\<close>

definition bucket_origin :: int where "bucket_origin = 946857600000000"

definition time_bucket :: "int \<Rightarrow> int \<Rightarrow> int" where
  "time_bucket w u = u - (u - bucket_origin) mod w"

lemma time_bucket_le: "0 < w \<Longrightarrow> time_bucket w u \<le> u \<and> u < time_bucket w u + w"
  using pos_mod_sign [of w "u - bucket_origin"] pos_mod_bound [of w "u - bucket_origin"] by (simp add: time_bucket_def)

lemma time_bucket_alt: "time_bucket w u = bucket_origin + w * ((u - bucket_origin) div w)"
  by (simp add: time_bucket_def minus_mod_eq_mult_div [symmetric])

lemma time_bucket_mono: "0 < w \<Longrightarrow> u \<le> v \<Longrightarrow> time_bucket w u \<le> time_bucket w v"
  by (simp add: time_bucket_alt zdiv_mono1)

lemma time_bucket_start: "w dvd bucket_origin \<Longrightarrow> w dvd a \<Longrightarrow> time_bucket w a = a"
  by (simp add: time_bucket_def)

lemma time_bucket_window:
  assumes "0 < w" and "w dvd bucket_origin" and "w dvd a" and "w dvd b"
  shows "a \<le> time_bucket w u \<and> time_bucket w u < b \<longleftrightarrow> a \<le> u \<and> u < b"
proof -
  have bound: "a \<le> time_bucket w u \<longleftrightarrow> a \<le> u" if "w dvd a" for a
    using time_bucket_mono [OF assms(1), of a u] time_bucket_start [OF assms(2) that] time_bucket_le [OF assms(1), of u] by linarith
  show ?thesis using bound [OF assms(3)] bound [OF assms(4)] by linarith
qed

section \<open>Nullable columns\<close>

definition wrap32 :: "int \<Rightarrow> int" where
  "wrap32 i = (i + 2 ^ 31) mod 2 ^ 32 - 2 ^ 31"

lemma wrap32_id [simp]: "- (2 ^ 31) \<le> i \<Longrightarrow> i < 2 ^ 31 \<Longrightarrow> wrap32 i = i"
  by (simp add: wrap32_def)

definition nullable_string :: "string \<Rightarrow> string option" where
  "nullable_string s = (if s = [] then None else Some s)"

definition nullable_int32 :: "int \<Rightarrow> int option" where
  "nullable_int32 n = (if n = 0 then None else Some (wrap32 n))"

text \<open>The \<open>String\<close> and \<open>Int32\<close> fields of a scanned nullable value: zero when it is NULL.\<close>

definition null_string :: "string option \<Rightarrow> string" where
  "null_string v = (case v of None \<Rightarrow> [] | Some s \<Rightarrow> s)"

definition null_int :: "int option \<Rightarrow> int" where
  "null_int v = (case v of None \<Rightarrow> 0 | Some n \<Rightarrow> n)"

lemma null_string_back [simp]: "null_string (nullable_string s) = s"
  by (simp add: null_string_def nullable_string_def)

lemma null_int_back [simp]: "null_int (nullable_int32 n) = wrap32 n"
  by (simp add: null_int_def nullable_int32_def)

end
