(* ===== verification/Latency.thy ===== *)
theory Latency
  imports Prelude
begin

text \<open>
  \<open>internal/store/histogram.go\<close>: latencies as a histogram of 256 buckets whose bounds grow geometrically.
  The bounds are real numbers, as the source computes them but without its rounding; the index has an
  executable form in whole numbers, proved equal.  Counts are unbounded.
\<close>

section \<open>Buckets\<close>

definition histogram_buckets :: nat where "histogram_buckets = 256"
definition min_duration :: int where "min_duration = 1000"
definition max_duration :: int where "max_duration = 1000000000000"

definition histogram_growth :: real where
  "histogram_growth = (real_of_int max_duration / real_of_int min_duration) powr (1 / real histogram_buckets)"

definition bucket_index :: "int \<Rightarrow> nat" where
  "bucket_index d =
     (if d \<le> min_duration then 0
      else if max_duration \<le> d then histogram_buckets - 1
      else let idx = \<lfloor>ln (real_of_int d / real_of_int min_duration) / ln histogram_growth\<rfloor>
           in if idx < 0 then 0
              else if int histogram_buckets \<le> idx then histogram_buckets - 1
              else nat idx)"

definition bucket_upper_bound :: "int \<Rightarrow> int" where
  "bucket_upper_bound i =
     (if i < 0 then min_duration
      else if int histogram_buckets - 1 \<le> i then max_duration
      else \<lfloor>real_of_int min_duration * histogram_growth ^ nat (i + 1)\<rfloor>)"

definition bucket_midpoint :: "nat \<Rightarrow> int" where
  "bucket_midpoint i =
     \<lfloor>sqrt ((real_of_int min_duration * histogram_growth ^ i) * (real_of_int min_duration * histogram_growth ^ (i + 1)))\<rfloor>"

text \<open>The same index in whole numbers: how many inner bounds \<open>1000 g\<^sup>i\<close> the duration has reached.\<close>

definition bucket_search :: "int \<Rightarrow> nat" where
  "bucket_search d = length (filter (\<lambda>i. 1000 ^ 256 * 10 ^ (9 * i) \<le> nat d ^ 256) [1..<256])"

section \<open>The histogram\<close>

record histogram =
  h_counts :: "int list"
  h_total :: int

definition no_observations :: histogram where
  "no_observations = \<lparr>h_counts = replicate histogram_buckets 0, h_total = 0\<rparr>"

definition histogram_add :: "int \<Rightarrow> int \<Rightarrow> histogram \<Rightarrow> histogram" where
  "histogram_add b n h =
     (if b < 0 \<or> int histogram_buckets \<le> b then h
      else h\<lparr>h_counts := (h_counts h)[nat b := h_counts h ! nat b + n], h_total := h_total h + n\<rparr>)"

definition histogram_merge :: "histogram \<Rightarrow> histogram \<Rightarrow> histogram" where
  "histogram_merge h other =
     h\<lparr>h_counts := map2 (+) (h_counts h) (h_counts other), h_total := h_total h + h_total other\<rparr>"

definition first_non_empty_bucket :: "histogram \<Rightarrow> int" where
  "first_non_empty_bucket h = (case find (\<lambda>i. 0 < h_counts h ! i) [0..<length (h_counts h)] of None \<Rightarrow> 0 | Some i \<Rightarrow> int i)"

definition last_non_empty_bucket :: "histogram \<Rightarrow> int" where
  "last_non_empty_bucket h =
     (case find (\<lambda>i. 0 < h_counts h ! i) (rev [0..<length (h_counts h)]) of None \<Rightarrow> 0 | Some i \<Rightarrow> int i)"

text \<open>The loop over the buckets with the running total: the bucket where the rank is reached.\<close>

fun rank_bucket :: "int \<Rightarrow> int \<Rightarrow> nat \<Rightarrow> int list \<Rightarrow> nat option" where
  "rank_bucket target sofar i [] = None"
| "rank_bucket target sofar i (c # cs) =
     (if target \<le> sofar + c then Some i else rank_bucket target (sofar + c) (Suc i) cs)"

definition quantile_bucket :: "histogram \<Rightarrow> rat \<Rightarrow> int" where
  "quantile_bucket h q =
     (if q \<le> 0 then first_non_empty_bucket h
      else if 1 \<le> q then last_non_empty_bucket h
      else case rank_bucket \<lceil>q * of_int (h_total h)\<rceil> 0 0 (h_counts h) of
             Some i \<Rightarrow> int i
           | None \<Rightarrow> last_non_empty_bucket h)"

definition quantile :: "histogram \<Rightarrow> rat \<Rightarrow> int" where
  "quantile h q = (if h_total h = 0 then 0 else bucket_upper_bound (quantile_bucket h q))"

section \<open>The index, exactly\<close>

definition span_ratio :: real where "span_ratio = 10 ^ 9"

lemma span_ratio_gt: "1 < span_ratio"
  by (simp add: span_ratio_def)

lemma growth_alt: "histogram_growth = span_ratio powr (1 / 256)"
  by (simp add: histogram_growth_def span_ratio_def max_duration_def min_duration_def histogram_buckets_def)

lemma growth_gt: "1 < histogram_growth"
  unfolding growth_alt using span_ratio_gt by simp

lemma ln_growth: "ln histogram_growth = ln span_ratio / 256"
  unfolding growth_alt using span_ratio_gt by (simp add: ln_powr)

lemma growth_power: "histogram_growth ^ 256 = span_ratio"
proof -
  have "histogram_growth ^ 256 = histogram_growth powr 256" using growth_gt by (subst powr_realpow [symmetric]) auto
  also have "\<dots> = span_ratio" unfolding growth_alt using span_ratio_gt by (simp add: powr_powr)
  finally show ?thesis .
qed

definition log_position :: "int \<Rightarrow> real" where
  "log_position d = ln (real_of_int d / real_of_int min_duration) / ln histogram_growth"

lemma reached_iff:
  assumes "0 < x"
  shows "real i \<le> ln x / ln histogram_growth \<longleftrightarrow> span_ratio ^ i \<le> x ^ 256"
proof -
  have "0 < ln span_ratio" using span_ratio_gt by simp
  then have "real i \<le> ln x / ln histogram_growth \<longleftrightarrow> real i * ln span_ratio \<le> 256 * ln x"
    unfolding ln_growth by (simp add: field_simps)
  also have "\<dots> \<longleftrightarrow> ln (span_ratio ^ i) \<le> ln (x ^ 256)"
    using assms span_ratio_gt by (simp add: ln_realpow)
  also have "\<dots> \<longleftrightarrow> span_ratio ^ i \<le> x ^ 256" using assms span_ratio_gt by (intro ln_le_cancel_iff) auto
  finally show ?thesis .
qed

lemma growth_reached_iff:
  assumes "0 < x"
  shows "real i \<le> ln x / ln histogram_growth \<longleftrightarrow> histogram_growth ^ i \<le> x"
proof -
  have "0 < ln histogram_growth" using growth_gt by simp
  then have "real i \<le> ln x / ln histogram_growth \<longleftrightarrow> real i * ln histogram_growth \<le> ln x"
    by (simp add: field_simps)
  also have "\<dots> \<longleftrightarrow> ln (histogram_growth ^ i) \<le> ln x" using growth_gt by (simp add: ln_realpow)
  also have "\<dots> \<longleftrightarrow> histogram_growth ^ i \<le> x" using assms growth_gt by (intro ln_le_cancel_iff) auto
  finally show ?thesis .
qed

lemma whole_reached_iff:
  assumes "0 < d"
  shows "real i \<le> log_position d \<longleftrightarrow> 1000 ^ 256 * 10 ^ (9 * i) \<le> nat d ^ 256"
proof -
  have "real i \<le> log_position d \<longleftrightarrow> span_ratio ^ i \<le> (real_of_int d / 1000) ^ 256"
    unfolding log_position_def using assms by (subst reached_iff) (simp_all add: min_duration_def)
  also have "\<dots> \<longleftrightarrow> 1000 ^ 256 * span_ratio ^ i \<le> real_of_int d ^ 256"
    by (simp only: power_divide) (subst pos_le_divide_eq, simp, simp only: mult.commute)
  also have "\<dots> \<longleftrightarrow> real (1000 ^ 256 * 10 ^ (9 * i)) \<le> real (nat d ^ 256)"
    using assms by (simp only: span_ratio_def power_mult of_nat_mult of_nat_power of_nat_numeral) simp
  also have "\<dots> \<longleftrightarrow> 1000 ^ 256 * 10 ^ (9 * i) \<le> nat d ^ 256" by (rule of_nat_le_iff)
  finally show ?thesis .
qed

lemma count_upto: "k < n \<Longrightarrow> length (filter (\<lambda>i. i \<le> k) [1..<n]) = k"
proof -
  assume "k < n"
  have "length (filter (\<lambda>i. i \<le> k) [1..<n]) = card (set (filter (\<lambda>i. i \<le> k) [1..<n]))"
    by (rule distinct_card [symmetric]) simp
  also have "set (filter (\<lambda>i. i \<le> k) [1..<n]) = {1..k}" using \<open>k < n\<close> by auto
  finally show ?thesis by simp
qed

lemma log_position_range:
  assumes "min_duration < d" and "d < max_duration"
  shows "0 \<le> log_position d" and "log_position d < 256"
proof -
  have x: "1 < real_of_int d / 1000" using assms by (simp add: min_duration_def)
  have g: "0 < ln histogram_growth" using growth_gt by simp
  show "0 \<le> log_position d" unfolding log_position_def using x g by (simp add: min_duration_def)
  have "real_of_int d / 1000 < span_ratio" using assms by (simp add: max_duration_def span_ratio_def)
  then have "ln (real_of_int d / 1000) < ln span_ratio" using x span_ratio_gt by (subst ln_less_cancel_iff) auto
  then show "log_position d < 256"
    unfolding log_position_def ln_growth using span_ratio_gt by (simp add: min_duration_def field_simps)
qed

lemma bucket_index_inner:
  assumes "min_duration < d" and "d < max_duration"
  shows "bucket_index d = nat \<lfloor>log_position d\<rfloor>" and "nat \<lfloor>log_position d\<rfloor> < 256"
proof -
  note r = log_position_range [OF assms]
  from r have f: "0 \<le> \<lfloor>log_position d\<rfloor>" "\<lfloor>log_position d\<rfloor> < 256" by (simp_all add: floor_less_iff)
  then show "nat \<lfloor>log_position d\<rfloor> < 256" by (simp only: nat_less_iff)
  show "bucket_index d = nat \<lfloor>log_position d\<rfloor>"
    using assms f by (simp add: bucket_index_def Let_def histogram_buckets_def flip: log_position_def)
qed

lemma search_inner:
  assumes "min_duration < d" and "d < max_duration"
  shows "bucket_search d = nat \<lfloor>log_position d\<rfloor>"
proof -
  have d: "0 < d" using assms by (simp add: min_duration_def)
  note r = log_position_range [OF assms]
  have "1000 ^ 256 * 10 ^ (9 * i) \<le> nat d ^ 256 \<longleftrightarrow> i \<le> nat \<lfloor>log_position d\<rfloor>" for i
    unfolding whole_reached_iff [OF d, symmetric] using r(1) by (simp add: le_nat_floor le_floor_iff nat_le_iff le_nat_iff)
  then have "bucket_search d = length (filter (\<lambda>i. i \<le> nat \<lfloor>log_position d\<rfloor>) [1..<256])"
    by (simp only: bucket_search_def)
  also have "\<dots> = nat \<lfloor>log_position d\<rfloor>" by (rule count_upto [OF bucket_index_inner(2) [OF assms]])
  finally show ?thesis .
qed

lemma search_low:
  assumes "d \<le> min_duration"
  shows "bucket_search d = 0"
proof -
  have "nat d ^ 256 < 1000 ^ 256 * 10 ^ (9 * i)" if "1 \<le> i" for i
  proof -
    have "nat d ^ 256 \<le> 1000 ^ 256" using assms by (intro power_mono) (simp_all add: min_duration_def nat_le_iff)
    also have "\<dots> < 1000 ^ 256 * 10 ^ (9 * i)"
    proof -
      have "(1 :: nat) < 10 ^ (9 * i)" using that by (intro one_less_power) simp_all
      then have "1000 ^ 256 * (1 :: nat) < 1000 ^ 256 * 10 ^ (9 * i)" by (intro mult_less_mono2) (simp_all only: zero_less_power zero_less_numeral)
      then show ?thesis by (simp only: mult_1_right)
    qed
    finally show ?thesis .
  qed
  then have "filter (\<lambda>i. 1000 ^ 256 * 10 ^ (9 * i) \<le> nat d ^ 256) [1..<256] = []"
    by (intro filter_False) (auto simp: not_le)
  then show ?thesis by (simp only: bucket_search_def list.size)
qed

lemma search_high:
  assumes "max_duration \<le> d"
  shows "bucket_search d = 255"
proof -
  have "1000 ^ 256 * 10 ^ (9 * i) \<le> nat d ^ 256" if "i < 256" for i
  proof -
    have "(10 :: nat) ^ (9 * i) \<le> 10 ^ (9 * 256)" using that by (intro power_increasing) simp_all
    then have "1000 ^ 256 * 10 ^ (9 * i) \<le> 1000 ^ 256 * (10 :: nat) ^ (9 * 256)" by (intro mult_le_mono2)
    also have "\<dots> = (1000 * 10 ^ 9) ^ 256" by (simp only: power_mult power_mult_distrib)
    also have "\<dots> \<le> nat d ^ 256" using assms by (intro power_mono) (simp_all add: max_duration_def le_nat_iff)
    finally show ?thesis .
  qed
  then have "filter (\<lambda>i. 1000 ^ 256 * 10 ^ (9 * i) \<le> nat d ^ 256) [1..<256] = [1..<256]"
    by (intro filter_True) auto
  then have "bucket_search d = length [1..<256]" by (simp only: bucket_search_def)
  then show ?thesis by simp
qed

lemma index_search: "bucket_index d = bucket_search d"
proof -
  consider "d \<le> min_duration" | "max_duration \<le> d" "min_duration < d" | "min_duration < d" "d < max_duration"
    by linarith
  then show ?thesis
  proof cases
    case 1 then show ?thesis by (simp add: search_low bucket_index_def)
  next
    case 2 then show ?thesis by (simp add: search_high bucket_index_def histogram_buckets_def)
  next
    case 3 then show ?thesis by (simp add: search_inner bucket_index_inner)
  qed
qed

lemma bucket_index_less: "bucket_index d < 256"
proof -
  have "length (filter (\<lambda>i. 1000 ^ 256 * 10 ^ (9 * i) \<le> nat d ^ 256) [1..<256]) \<le> length [1..<256::nat]"
    by (rule length_filter_le)
  then have "bucket_search d \<le> length [1..<256::nat]" by (simp only: bucket_search_def)
  then show ?thesis unfolding index_search by simp
qed

lemma length_filter_mono: "(\<And>x. P x \<Longrightarrow> Q x) \<Longrightarrow> length (filter P xs) \<le> length (filter Q xs)"
  by (induction xs) auto

lemma bucket_index_mono: "d \<le> e \<Longrightarrow> bucket_index d \<le> bucket_index e"
  unfolding index_search bucket_search_def
  by (rule length_filter_mono) (meson le_trans nat_mono power_mono zero_le)

section \<open>Bounds of a bucket\<close>

lemma index_lower:
  assumes "min_duration < d" and "d < max_duration"
  shows "1000 * histogram_growth ^ bucket_index d \<le> real_of_int d"
    and "real_of_int d < 1000 * histogram_growth ^ (bucket_index d + 1)"
proof -
  have x: "0 < real_of_int d / real_of_int min_duration" using assms by (simp add: min_duration_def)
  note r = log_position_range [OF assms]
  have "real (bucket_index d) \<le> log_position d" "\<not> real (bucket_index d + 1) \<le> log_position d"
    unfolding bucket_index_inner(1) [OF assms] using r by linarith+
  then show "1000 * histogram_growth ^ bucket_index d \<le> real_of_int d"
    "real_of_int d < 1000 * histogram_growth ^ (bucket_index d + 1)"
    unfolding log_position_def growth_reached_iff [OF x] by (simp_all add: min_duration_def field_simps)
qed

lemma upper_covers:
  assumes "d < max_duration"
  shows "d \<le> bucket_upper_bound (int (bucket_index d))"
proof (cases "min_duration < d")
  case True
  show ?thesis
  proof (cases "bucket_index d = 255")
    case False
    then have "bucket_index d < 255" using bucket_index_less [of d] by simp
    then show ?thesis using index_lower(2) [OF True assms]
      by (simp add: bucket_upper_bound_def histogram_buckets_def min_duration_def le_floor_iff nat_add_distrib)
  qed (use assms in \<open>simp add: bucket_upper_bound_def histogram_buckets_def\<close>)
next
  case False
  then have "bucket_index d = 0" by (simp add: bucket_index_def)
  moreover have "min_duration \<le> bucket_upper_bound 0"
    using growth_gt by (simp add: bucket_upper_bound_def histogram_buckets_def min_duration_def le_floor_iff)
  ultimately show ?thesis using False by simp
qed

lemma upper_close: "real_of_int (bucket_upper_bound (int (bucket_index d))) \<le> histogram_growth * real_of_int (max 1000 d)"
proof -
  consider "d \<le> min_duration" | "max_duration \<le> d" "min_duration < d" | "min_duration < d" "d < max_duration" by linarith
  then show ?thesis
  proof cases
    case 1
    then have "bucket_index d = 0" by (simp add: bucket_index_def)
    then have "real_of_int (bucket_upper_bound (int (bucket_index d))) \<le> histogram_growth * 1000"
      using of_int_floor_le [of "histogram_growth * 1000"]
      by (simp add: mult.commute bucket_upper_bound_def histogram_buckets_def min_duration_def)
    moreover have "max 1000 d = 1000" using 1 by (simp add: min_duration_def)
    ultimately show ?thesis by simp
  next
    case 2
    then have "bucket_index d = 255" by (simp add: bucket_index_def histogram_buckets_def)
    then have "bucket_upper_bound (int (bucket_index d)) = max_duration"
      by (simp add: bucket_upper_bound_def histogram_buckets_def)
    moreover have "real_of_int max_duration \<le> real_of_int (max 1000 d)" using 2 by simp
    moreover have "real_of_int (max 1000 d) \<le> histogram_growth * real_of_int (max 1000 d)"
      using mult_right_mono [of 1 histogram_growth "real_of_int (max 1000 d)"] growth_gt by simp
    ultimately show ?thesis by linarith
  next
    case 3
    note l = index_lower(1) [OF 3]
    have d: "max 1000 d = d" using 3 by (simp add: min_duration_def)
    have "histogram_growth * (1000 * histogram_growth ^ bucket_index d) \<le> histogram_growth * real_of_int d"
      using l growth_gt by (intro mult_left_mono) auto
    then have g: "1000 * histogram_growth ^ (bucket_index d + 1) \<le> histogram_growth * real_of_int d"
      by (simp add: mult.left_commute)
    have "real_of_int (bucket_upper_bound (int (bucket_index d))) \<le> 1000 * histogram_growth ^ (bucket_index d + 1)"
    proof (cases "bucket_index d = 255")
      case True
      then show ?thesis using growth_power
        by (simp add: bucket_upper_bound_def histogram_buckets_def max_duration_def span_ratio_def)
    next
      case False
      then have "bucket_index d < 255" using bucket_index_less [of d] by simp
      then show ?thesis
        by (simp add: bucket_upper_bound_def histogram_buckets_def min_duration_def nat_add_distrib)
    qed
    with g d show ?thesis by linarith
  qed
qed

lemma growth_bound: "histogram_growth < 1.0845"
proof (rule power_less_imp_less_base [of _ 256])
  have fourth: "y ^ n \<le> x ^ (4 * n)" if "y \<le> x ^ 4" "0 \<le> y" for x y :: real and n
    unfolding power_mult using that by (intro power_mono)
  have "span_ratio < 179.6 ^ 4" by (simp add: span_ratio_def power_divide)
  also have "\<dots> \<le> 3.661 ^ (4 * 4)" by (rule fourth) (simp_all add: power_divide)
  also have "\<dots> = 3.661 ^ 16" by (simp only: numeral_times_numeral semiring_norm)
  also have "\<dots> \<le> 1.3833 ^ (4 * 16)" by (rule fourth) (simp_all add: power_divide)
  also have "\<dots> = 1.3833 ^ 64" by (simp only: numeral_times_numeral semiring_norm)
  also have "\<dots> \<le> 1.0845 ^ (4 * 64)" by (rule fourth) (simp_all add: power_divide)
  also have "\<dots> = 1.0845 ^ 256" by (simp only: numeral_times_numeral semiring_norm)
  finally show "histogram_growth ^ 256 < 1.0845 ^ 256" unfolding growth_power .
qed simp

section \<open>Tallies\<close>

text \<open>What is expected of a summary that is added to value by value, and of one that can also be merged: it
  stands for the multiset of what was added.\<close>

locale tally =
  fixes empty :: 'h
    and add :: "nat \<Rightarrow> 'h \<Rightarrow> 'h"
    and bag :: "'h \<Rightarrow> nat multiset"
    and valid :: "'h \<Rightarrow> bool"
    and admits :: "nat \<Rightarrow> bool"
  assumes bag_empty: "bag empty = {#}" and valid_empty: "valid empty"
    and bag_add: "valid h \<Longrightarrow> admits b \<Longrightarrow> bag (add b h) = add_mset b (bag h)"
    and valid_add: "valid h \<Longrightarrow> admits b \<Longrightarrow> valid (add b h)"
    and same_bag: "valid h \<Longrightarrow> valid k \<Longrightarrow> bag h = bag k \<Longrightarrow> h = k"
begin

lemma added:
  assumes "valid h" and "list_all admits bs"
  shows "valid (fold add bs h) \<and> bag (fold add bs h) = mset bs + bag h"
  using assms by (induction bs arbitrary: h) (simp_all add: bag_add valid_add)

lemma tallied:
  assumes "list_all admits bs"
  shows "valid (fold add bs empty)" and "bag (fold add bs empty) = mset bs"
  using added [OF valid_empty assms] by (simp_all add: bag_empty)

lemma order_free:
  assumes "list_all admits bs" and "mset bs = mset cs"
  shows "fold add bs empty = fold add cs empty"
proof (rule same_bag)
  have "list_all admits cs" using assms mset_eq_setD [OF assms(2)] by (simp add: list_all_iff)
  then show "valid (fold add bs empty)" "valid (fold add cs empty)" "bag (fold add bs empty) = bag (fold add cs empty)"
    using tallied assms by simp_all
qed

end

locale mergeable_tally = tally empty add bag valid admits
  for empty :: 'h and add bag valid admits +
  fixes merge :: "'h \<Rightarrow> 'h \<Rightarrow> 'h"
  assumes bag_merge: "valid h \<Longrightarrow> valid k \<Longrightarrow> bag (merge h k) = bag h + bag k"
    and valid_merge: "valid h \<Longrightarrow> valid k \<Longrightarrow> valid (merge h k)"
begin

lemma merged:
  assumes "list_all admits bs" and "list_all admits cs"
  shows "merge (fold add bs empty) (fold add cs empty) = fold add (bs @ cs) empty"
proof (rule same_bag)
  note b = tallied [OF assms(1)] and c = tallied [OF assms(2)]
  have bc: "list_all admits (bs @ cs)" using assms by simp
  show "valid (merge (fold add bs empty) (fold add cs empty))" using b c by (simp add: valid_merge)
  show "valid (fold add (bs @ cs) empty)" by (rule tallied(1) [OF bc])
  show "bag (merge (fold add bs empty) (fold add cs empty)) = bag (fold add (bs @ cs) empty)"
    using b c tallied(2) [OF bc] by (simp add: bag_merge)
qed

end

text \<open>The multiset a histogram stands for, and its invariant.\<close>

definition histogram_bag :: "histogram \<Rightarrow> nat multiset" where
  "histogram_bag h = mset (concat (map (\<lambda>i. replicate (nat (h_counts h ! i)) i) [0..<length (h_counts h)]))"

definition histogram_valid :: "histogram \<Rightarrow> bool" where
  "histogram_valid h \<longleftrightarrow>
     length (h_counts h) = histogram_buckets \<and> list_all (\<lambda>c. 0 \<le> c) (h_counts h) \<and> h_total h = sum_list (h_counts h)"

definition histogram_count :: "nat \<Rightarrow> histogram \<Rightarrow> histogram" where
  "histogram_count b h = histogram_add (int b) 1 h"

lemma count_replicates:
  "count (mset (concat (map (\<lambda>i. replicate (f i) i) [0..<n]))) b = (if b < n then f b else 0)"
  by (induction n) auto

lemma count_bag: "count (histogram_bag h) b = (if b < length (h_counts h) then nat (h_counts h ! b) else 0)"
  unfolding histogram_bag_def by (rule count_replicates)

lemma sum_list_bump: "b < length xs \<Longrightarrow> sum_list (xs[b := xs ! b + (n :: int)]) = sum_list xs + n"
proof (induction xs arbitrary: b)
  case (Cons x xs) then show ?case by (cases b) simp_all
qed simp

lemma histogram_count_simps:
  assumes "b < histogram_buckets"
  shows "h_counts (histogram_count b h) = (h_counts h)[b := h_counts h ! b + 1]"
    and "h_total (histogram_count b h) = h_total h + 1"
  using assms by (simp_all add: histogram_count_def histogram_add_def)

interpretation histograms: mergeable_tally no_observations histogram_count histogram_bag histogram_valid
  "\<lambda>b. b < histogram_buckets" histogram_merge
proof unfold_locales
  show "histogram_bag no_observations = {#}"
    by (rule multiset_eqI) (simp add: count_bag no_observations_def)
  show "histogram_valid no_observations"
    by (simp add: histogram_valid_def no_observations_def list_all_iff sum_list_replicate)
next
  fix h b assume h: "histogram_valid h" and b: "b < histogram_buckets"
  then show "histogram_bag (histogram_count b h) = add_mset b (histogram_bag h)"
    by (intro multiset_eqI)
      (auto simp: count_bag histogram_count_simps nth_list_update histogram_valid_def list_all_length nat_add_distrib)
  show "histogram_valid (histogram_count b h)"
    using h b by (auto simp: histogram_valid_def histogram_count_simps sum_list_bump list_all_length nth_list_update)
next
  fix h k assume v: "histogram_valid h" "histogram_valid k" and e: "histogram_bag h = histogram_bag k"
  have "h_counts h ! b = h_counts k ! b" if "b < histogram_buckets" for b
  proof -
    have "nat (h_counts h ! b) = nat (h_counts k ! b)"
      using count_bag [of h b] count_bag [of k b] e that v by (simp add: histogram_valid_def)
    then show ?thesis using that v by (auto simp: histogram_valid_def list_all_length nat_eq_iff)
  qed
  then have "h_counts h = h_counts k" using v by (intro nth_equalityI) (simp_all add: histogram_valid_def)
  then show "h = k" using v by (simp add: histogram_valid_def)
next
  fix h k assume v: "histogram_valid h" "histogram_valid k"
  show "histogram_bag (histogram_merge h k) = histogram_bag h + histogram_bag k"
    using v by (intro multiset_eqI)
      (auto simp: count_bag histogram_merge_def histogram_valid_def list_all_length nat_add_distrib)
  have "sum_list (map2 (+) xs ys) = sum_list xs + sum_list ys" if "length xs = length ys" for xs ys :: "int list"
    using that by (induction xs ys rule: list_induct2) auto
  then show "histogram_valid (histogram_merge h k)"
    using v by (auto simp: histogram_merge_def histogram_valid_def list_all_length)
qed

section \<open>Ranks\<close>

definition histogram_of :: "int list \<Rightarrow> histogram" where
  "histogram_of ds = fold histogram_count (map bucket_index ds) no_observations"

lemma admitted: "list_all (\<lambda>b. b < histogram_buckets) (map bucket_index ds)"
  using bucket_index_less by (simp add: list_all_iff histogram_buckets_def)

lemma histogram_of_facts:
  "histogram_valid (histogram_of ds)" "histogram_bag (histogram_of ds) = mset (map bucket_index ds)"
  using histograms.tallied [OF admitted] by (simp_all add: histogram_of_def)

lemma count_as_list: "count (mset xs) b = count_list xs b"
  by (induction xs) simp_all

lemma histogram_of_counts:
  assumes "b < 256"
  shows "h_counts (histogram_of ds) ! b = int (count_list (map bucket_index ds) b)"
proof -
  note v = histogram_of_facts(1) [of ds]
  have "nat (h_counts (histogram_of ds) ! b) = count_list (map bucket_index ds) b"
    using count_bag [of "histogram_of ds" b] histogram_of_facts(2) [of ds] v assms
    by (simp add: histogram_valid_def histogram_buckets_def count_as_list del: mset_map)
  moreover have "0 \<le> h_counts (histogram_of ds) ! b"
    using v assms by (simp add: histogram_valid_def histogram_buckets_def list_all_length)
  ultimately show ?thesis by linarith
qed

lemma rank_bucket_spec:
  "sofar < target \<Longrightarrow> rank_bucket target sofar i cs = Some k \<Longrightarrow>
     i \<le> k \<and> k < i + length cs \<and> target \<le> sofar + sum_list (take (Suc (k - i)) cs) \<and>
     sofar + sum_list (take (k - i) cs) < target"
proof (induction cs arbitrary: sofar i)
  case (Cons c cs)
  show ?case
  proof (cases "target \<le> sofar + c")
    case False
    then have "Suc i \<le> k \<and> k < Suc i + length cs \<and> target \<le> sofar + c + sum_list (take (Suc (k - Suc i)) cs) \<and>
        sofar + c + sum_list (take (k - Suc i) cs) < target"
      using Cons.prems by (intro Cons.IH) simp_all
    moreover from this have "k - i = Suc (k - Suc i)" by linarith
    ultimately show ?thesis by simp
  qed (use Cons.prems in simp)
qed simp

lemma rank_bucket_found: "sofar < target \<Longrightarrow> target \<le> sofar + sum_list cs \<Longrightarrow> rank_bucket target sofar i cs \<noteq> None"
  by (induction cs arbitrary: sofar i) auto

lemma count_next:
  "length (filter (\<lambda>d. f d \<le> Suc k) ds) = length (filter (\<lambda>d. f d \<le> k) ds) + count_list (map f ds) (Suc k)"
  by (induction ds) auto

lemma count_all_upto:
  "sum_list (map (\<lambda>b. int (count_list (map f ds) b)) [0..<Suc k]) = int (length (filter (\<lambda>d. f d \<le> k) ds))"
proof (induction k)
  case 0 show ?case by (induction ds) auto
next
  case (Suc k)
  have "sum_list (map (\<lambda>b. int (count_list (map f ds) b)) [0..<Suc (Suc k)]) =
      sum_list (map (\<lambda>b. int (count_list (map f ds) b)) [0..<Suc k]) + int (count_list (map f ds) (Suc k))"
    by simp
  also have "\<dots> = int (length (filter (\<lambda>d. f d \<le> Suc k) ds))" unfolding Suc.IH count_next by simp
  finally show ?case .
qed

lemma sum_counts:
  assumes "k < 256"
  shows "sum_list (take (Suc k) (h_counts (histogram_of ds))) = int (length (filter (\<lambda>d. bucket_index d \<le> k) ds))"
proof -
  have len: "length (h_counts (histogram_of ds)) = 256"
    using histogram_of_facts(1) [of ds] by (simp add: histogram_valid_def histogram_buckets_def)
  have "take (Suc k) (h_counts (histogram_of ds)) = map (\<lambda>b. int (count_list (map bucket_index ds) b)) [0..<Suc k]"
    using assms len histogram_of_counts [of _ ds] by (intro nth_equalityI) (simp_all del: upt_Suc)
  then show ?thesis by (simp only: count_all_upto)
qed

lemma sorted_rank:
  "sorted (xs :: nat list) \<Longrightarrow> r < length xs \<Longrightarrow> Suc r \<le> length (filter (\<lambda>x. x \<le> k) xs) \<longleftrightarrow> xs ! r \<le> k"
proof (induction xs arbitrary: r)
  case (Cons x xs)
  show ?case
  proof (cases "x \<le> k")
    case True
    then show ?thesis using Cons by (cases r) auto
  next
    case False
    then have "filter (\<lambda>x. x \<le> k) xs = []" using Cons.prems(1) by (auto intro!: filter_False)
    moreover have "x \<le> (x # xs) ! r" using Cons.prems by (cases r) auto
    ultimately show ?thesis using False by simp
  qed
qed simp


lemma rank_is_bucket:
  assumes r: "r < length ds" and k: "k < 256"
    and up: "int r + 1 \<le> sum_list (take (Suc k) (h_counts (histogram_of ds)))"
    and low: "sum_list (take k (h_counts (histogram_of ds))) < int r + 1"
  shows "bucket_index (sort ds ! r) = k"
proof -
  let ?xs = "map bucket_index (sort ds)"
  have s: "sorted ?xs" by (rule sorted_map_mono) (auto intro!: monoI bucket_index_mono simp: mono_on_def)
  have n: "length (filter (\<lambda>x. x \<le> j) ?xs) = length (filter (\<lambda>d. bucket_index d \<le> j) ds)" for j
  proof -
    have "size (mset (filter (\<lambda>d. bucket_index d \<le> j) (sort ds))) = size (mset (filter (\<lambda>d. bucket_index d \<le> j) ds))"
      by (simp only: mset_filter mset_sort)
    then show ?thesis by (simp only: filter_map length_map o_def size_mset)
  qed
  have e: "?xs ! r = bucket_index (sort ds ! r)" using r by simp
  have "Suc r \<le> length (filter (\<lambda>x. x \<le> k) ?xs)" using up unfolding sum_counts [OF k] n by simp
  then have "bucket_index (sort ds ! r) \<le> k" using sorted_rank [OF s, of r k] r e by simp
  moreover have "\<not> bucket_index (sort ds ! r) < k"
  proof
    assume *: "bucket_index (sort ds ! r) < k"
    then obtain j where j: "k = Suc j" by (cases k) auto
    have "\<not> Suc r \<le> length (filter (\<lambda>x. x \<le> j) ?xs)"
      using low k unfolding j n by (simp add: sum_counts)
    then show False using sorted_rank [OF s, of r j] r e * j by simp
  qed
  ultimately show ?thesis by simp
qed

lemma quantile_of_rank:
  assumes "0 < q" and "q < 1" and "ds \<noteq> []"
  shows "quantile (histogram_of ds) q =
      bucket_upper_bound (int (bucket_index (sort ds ! nat (\<lceil>q * of_nat (length ds)\<rceil> - 1))))"
    and "nat (\<lceil>q * of_nat (length ds)\<rceil> - 1) < length ds"
proof -
  let ?h = "histogram_of ds" and ?t = "\<lceil>q * of_nat (length ds)\<rceil>"
  define r where "r = nat (?t - 1)"
  note v = histogram_of_facts(1) [of ds]
  have len: "length (h_counts ?h) = 256" using v by (simp add: histogram_valid_def histogram_buckets_def)
  have "sum_list (take (Suc 255) (h_counts ?h)) = int (length (filter (\<lambda>d. bucket_index d \<le> 255) ds))"
    by (rule sum_counts) simp
  moreover have "filter (\<lambda>d. bucket_index d \<le> 255) ds = ds"
    using bucket_index_less by (intro filter_True) (auto simp: less_eq_Suc_le)
  ultimately have sum: "sum_list (h_counts ?h) = int (length ds)" using len by simp
  then have tot: "h_total ?h = int (length ds)" using v by (simp add: histogram_valid_def)
  have n: "(0 :: rat) < of_nat (length ds)" using assms(3) by simp
  have "0 < ?t" using assms n by simp
  moreover have "?t \<le> int (length ds)"
  proof -
    have "q * of_nat (length ds) \<le> of_nat (length ds)" using assms n by simp
    then show ?thesis by (simp add: ceiling_le_iff)
  qed
  ultimately have t: "0 < ?t" "?t = int r + 1" "r < length ds" unfolding r_def by linarith+
  show "nat (?t - 1) < length ds" by (rule t(3) [unfolded r_def])
  obtain k where k: "rank_bucket ?t 0 0 (h_counts ?h) = Some k"
    using rank_bucket_found [of 0 ?t "h_counts ?h" 0] t sum by auto
  note spec = rank_bucket_spec [OF t(1) k]
  have b: "bucket_index (sort ds ! r) = k"
    using spec t len by (intro rank_is_bucket) (simp_all add: add.commute)
  have "quantile_bucket ?h q = int k"
    using assms k tot by (simp add: quantile_bucket_def)
  moreover have "h_total ?h \<noteq> 0" using tot assms(3) by simp
  ultimately show "quantile ?h q = bucket_upper_bound (int (bucket_index (sort ds ! nat (?t - 1))))"
    using b by (simp add: quantile_def r_def)
qed

section \<open>The contract\<close>

text \<open>(bucket_index_exact) The logarithm of \<open>BucketIndex\<close> counts, for every duration, the inner bounds
  \<open>1000 g\<^sup>i\<close> the duration has reached, and the count can be made in whole numbers.\<close>

theorem bucket_index_exact:
  "bucket_index d = length (filter (\<lambda>i. 1000 ^ 256 * 10 ^ (9 * i) \<le> nat d ^ 256) [1..<256])"
  unfolding index_search bucket_search_def ..

text \<open>C21 (quantile_brackets). A quantile read off the histogram of any latencies below the last bound is at
  least the latency of that rank and at most one growth step above it, less than 8.45 percent.\<close>

theorem quantile_brackets:
  assumes "0 < q" and "q < 1" and "ds \<noteq> []" and "list_all (\<lambda>d. d < max_duration) ds"
  shows "(let exact = sort ds ! nat (\<lceil>q * of_nat (length ds)\<rceil> - 1); shown = quantile (histogram_of ds) q
          in exact \<le> shown \<and> real_of_int shown \<le> histogram_growth * real_of_int (max 1000 exact) \<and> histogram_growth < 1.0845)"
proof -
  note rank = quantile_of_rank [OF assms(1-3)]
  have "sort ds ! nat (\<lceil>q * of_nat (length ds)\<rceil> - 1) \<in> set (sort ds)" using rank(2) by (intro nth_mem) simp
  then have "sort ds ! nat (\<lceil>q * of_nat (length ds)\<rceil> - 1) < max_duration" using assms(4) by (simp add: list_all_iff)
  then show ?thesis unfolding Let_def rank(1) using upper_covers upper_close growth_bound by blast
qed

theorem quantile_brackets_witness:
  "let exact = sort [3000, 1000, 2000] ! nat (\<lceil>(1 / 2 :: rat) * of_nat (length [3000, 1000, 2000 :: int])\<rceil> - 1);
       shown = quantile (histogram_of [3000, 1000, 2000]) (1 / 2)
   in exact \<le> shown \<and> real_of_int shown \<le> histogram_growth * real_of_int (max 1000 exact) \<and> histogram_growth < 1.0845"
  by (rule quantile_brackets) (simp_all add: max_duration_def)

text \<open>(merge_is_union) Adding the histograms of two sets of spans gives the histogram of both together.\<close>

theorem merge_is_union: "histogram_merge (histogram_of ds) (histogram_of es) = histogram_of (ds @ es)"
  unfolding histogram_of_def map_append by (rule histograms.merged [OF admitted admitted])

text \<open>(slow_span_understated) Beyond the last bound the promise fails: a span of 2000 seconds is reported as
  1000 seconds.\<close>

theorem slow_span_understated: "quantile (histogram_of [2000000000000]) (1 / 2) = 1000000000000"
proof -
  have "quantile (histogram_of [2000000000000]) (1 / 2) = bucket_upper_bound (int (bucket_index 2000000000000))"
    using quantile_of_rank(1) [of "1 / 2" "[2000000000000]"] by simp
  then show ?thesis
    by (simp add: bucket_index_def bucket_upper_bound_def histogram_buckets_def min_duration_def max_duration_def)
qed

end
