(* ===== verification/Span_Store.thy ===== *)
theory Span_Store
  imports Tables Spans Latency Go_Path "HOL-Library.Product_Lexorder"
begin

text \<open>
  The table of spans (\<open>internal/store/writer.go\<close>), opening a trace and searching for traces
  (\<open>query_traces.go\<close>), and the checks made when the database is opened (\<open>store.go\<close>, \<open>schema.go\<close>).
  The database engine is not under \<open>src/\<close>: its statements are the list functions they stand for, what it keeps
  of a failed append and which rows a \<open>LIMIT\<close> without an order picks are arguments.  The JSON text of
  attributes and events is not modelled, only when a column is empty.
\<close>

section \<open>Rows\<close>

definition span_kind_value :: "span_kind \<Rightarrow> int" where
  "span_kind_value k =
     (case k of KindUnspecified \<Rightarrow> 0 | KindInternal \<Rightarrow> 1 | KindServer \<Rightarrow> 2 | KindClient \<Rightarrow> 3 | KindProducer \<Rightarrow> 4
      | KindConsumer \<Rightarrow> 5 | KindOther i \<Rightarrow> i)"

definition status_value :: "status_code \<Rightarrow> int" where
  "status_value s = (case s of StatusUnset \<Rightarrow> 0 | StatusOK \<Rightarrow> 1 | StatusError \<Rightarrow> 2 | StatusOther i \<Rightarrow> i)"

record span_row =
  sr_ts :: int
  sr_trace :: bytes
  sr_span :: bytes
  sr_parent :: "bytes option"
  sr_service :: string
  sr_operation :: string
  sr_kind :: int
  sr_duration :: int
  sr_bucket :: nat
  sr_status :: int
  sr_status_message :: "string option"
  sr_is_error :: bool
  sr_is_root :: bool
  sr_http_method :: "string option"
  sr_http_route :: "string option"
  sr_http_status :: "int option"
  sr_db_system :: "string option"
  sr_db_statement :: "string option"
  sr_db_name :: "string option"
  sr_peer_service :: "string option"
  sr_host_name :: "string option"
  sr_pid :: "int option"
  sr_exception :: "string option"
  sr_attributes :: "(string \<rightharpoonup> string) option"
  sr_events :: "event list option"
  sr_runtime :: "string option"

definition nullable_bytes :: "bytes \<Rightarrow> bytes option" where
  "nullable_bytes b = (if is_zero_bytes b then None else Some b)"

definition encode_attributes :: "(string \<rightharpoonup> string) \<Rightarrow> (string \<rightharpoonup> string) option" where
  "encode_attributes m = (if m = Map.empty then None else Some m)"

definition encode_events :: "event list \<Rightarrow> event list option" where
  "encode_events evs = (if evs = [] then None else Some evs)"

definition row_of_span :: "span \<Rightarrow> span_row" where
  "row_of_span s =
     \<lparr>sr_ts = micros (timestamp s), sr_trace = trace_id s, sr_span = span_id s,
      sr_parent = nullable_bytes (parent_span_id s), sr_service = service s, sr_operation = operation s,
      sr_kind = span_kind_value (span_kind s), sr_duration = sint (span_duration s),
      sr_bucket = bucket_search (sint (span_duration s)), sr_status = status_value (status s),
      sr_status_message = nullable_string (status_message s), sr_is_error = is_error s, sr_is_root = is_root s,
      sr_http_method = nullable_string (http_method s), sr_http_route = nullable_string (http_route s),
      sr_http_status = nullable_int32 (http_status s), sr_db_system = nullable_string (db_system s),
      sr_db_statement = nullable_string (db_statement s), sr_db_name = nullable_string (db_name s),
      sr_peer_service = nullable_string (peer_service s), sr_host_name = nullable_string (host_name s),
      sr_pid = nullable_int32 (pid s), sr_exception = nullable_string (exception_type s),
      sr_attributes = encode_attributes (attributes s), sr_events = encode_events (events s),
      sr_runtime = nullable_string (runtime s)\<rparr>"

text \<open>What becomes of a batch: it is flushed, or something fails and the engine keeps some of its first rows.\<close>

datatype write_outcome = Flushed | Broken nat

definition write_spans :: "write_outcome \<Rightarrow> span list \<Rightarrow> span_row list \<Rightarrow> span_row list \<times> bool" where
  "write_spans out ss rows =
     (if ss = [] then (rows, True)
      else case out of
             Flushed \<Rightarrow> (rows @ map row_of_span ss, True)
           | Broken kept \<Rightarrow> (rows @ map row_of_span (take kept ss), False))"

section \<open>A trace\<close>

definition scan_span :: "span_row \<Rightarrow> span" where
  "scan_span r =
     \<lparr>timestamp = of_micros (sr_ts r), span_duration = word_of_int (sr_duration r), trace_id = sr_trace r,
      span_id = sr_span r, parent_span_id = (case sr_parent r of None \<Rightarrow> zero_span_id | Some b \<Rightarrow> b),
      service = sr_service r, operation = sr_operation r, span_kind = span_kind_of (sr_kind r),
      status = status_code_of (sr_status r), status_message = null_string (sr_status_message r),
      http_method = null_string (sr_http_method r), http_route = null_string (sr_http_route r),
      http_status = null_int (sr_http_status r), db_system = null_string (sr_db_system r),
      db_statement = null_string (sr_db_statement r), db_name = null_string (sr_db_name r),
      peer_service = null_string (sr_peer_service r), host_name = null_string (sr_host_name r),
      pid = null_int (sr_pid r), runtime = [],
      attributes = (case sr_attributes r of None \<Rightarrow> Map.empty | Some m \<Rightarrow> m),
      events = (case sr_events r of None \<Rightarrow> [] | Some evs \<Rightarrow> evs)\<rparr>"

record trace =
  tr_id :: string
  tr_spans :: "span list"
  tr_start :: gotime
  tr_duration :: int
  tr_services :: "string list"

text \<open>\<open>Time.Sub\<close> saturates.\<close>

definition time_sub :: "gotime \<Rightarrow> gotime \<Rightarrow> duration" where
  "time_sub a b = max (- (2 ^ 63)) (min (2 ^ 63 - 1) (a - b))"

definition max_trace_spans :: nat where "max_trace_spans = 10000"

definition trace_rows :: "bytes \<Rightarrow> span_row list \<Rightarrow> span_row list" where
  "trace_rows tid rows =
     take max_trace_spans (sort_key (\<lambda>r. (sr_ts r, - sr_duration r)) (filter (\<lambda>r. sr_trace r = tid) rows))"

text \<open>The loop over the rows keeps the earliest start and the latest end seen, each from Go's zero time.\<close>

definition extend_start :: "gotime \<Rightarrow> span \<Rightarrow> gotime" where
  "extend_start t s = (if is_zero_time t \<or> timestamp s < t then timestamp s else t)"

definition extend_end :: "gotime \<Rightarrow> span \<Rightarrow> gotime" where
  "extend_end t s = (if t < end_time s then end_time s else t)"

definition get_trace :: "bytes \<Rightarrow> span_row list \<Rightarrow> trace option" where
  "get_trace tid rows =
     (let spans = map scan_span (trace_rows tid rows);
          start = foldl extend_start zero_time spans;
          stop = foldl extend_end zero_time spans
      in if spans = [] then None
         else Some \<lparr>tr_id = hex_encode tid, tr_spans = spans, tr_start = start, tr_duration = time_sub stop start,
                    tr_services = remdups (map service spans)\<rparr>)"

section \<open>Searching\<close>

record time_range =
  rg_from :: gotime
  rg_to :: gotime

definition range_duration :: "time_range \<Rightarrow> duration" where
  "range_duration r = time_sub (rg_to r) (rg_from r)"

definition in_range :: "time_range \<Rightarrow> int \<Rightarrow> bool" where
  "in_range r u \<longleftrightarrow> micros (rg_from r) \<le> u \<and> u < micros (rg_to r)"

record trace_filter =
  tf_range :: time_range
  tf_service :: string
  tf_operation :: string
  tf_min :: duration
  tf_max :: duration
  tf_only_errors :: bool
  tf_http_status :: int
  tf_search :: string
  tf_limit :: int

definition max_trace_limit :: int where "max_trace_limit = 1000"
definition candidate_multiplier :: int where "candidate_multiplier = 10"

definition trace_limit :: "trace_filter \<Rightarrow> int" where
  "trace_limit f = (if tf_limit f \<le> 0 \<or> max_trace_limit < tf_limit f then max_trace_limit else tf_limit f)"

text \<open>\<open>ILIKE\<close>: a percent sign stands for any text, an underscore for one character, letters match in either case.\<close>

fun like :: "string \<Rightarrow> string \<Rightarrow> bool" where
  "like [] s = (s = [])"
| "like (p # ps) [] = (p = CHR ''%'' \<and> like ps [])"
| "like (p # ps) (c # cs) =
     (if p = CHR ''%'' then like ps (c # cs) \<or> like (p # ps) cs
      else (p = CHR ''_'' \<or> p = c) \<and> like ps cs)"

definition ilike :: "string \<Rightarrow> string \<Rightarrow> bool" where
  "ilike s pat = like (to_lower pat) (to_lower s)"

definition ilike_null :: "string option \<Rightarrow> string \<Rightarrow> bool" where
  "ilike_null v pat = (case v of None \<Rightarrow> False | Some s \<Rightarrow> ilike s pat)"

text \<open>A condition is its text, the arguments bound to its placeholders, and what it says of a row.\<close>

datatype sql_arg = ArgTime gotime | ArgText string | ArgInt int

type_synonym 'r condition = "string \<times> sql_arg list \<times> ('r \<Rightarrow> bool)"

definition match_conditions :: "trace_filter \<Rightarrow> span_row condition list" where
  "match_conditions f =
     [(''ts >= ?'', [ArgTime (rg_from (tf_range f))], \<lambda>r. micros (rg_from (tf_range f)) \<le> sr_ts r),
      (''ts < ?'', [ArgTime (rg_to (tf_range f))], \<lambda>r. sr_ts r < micros (rg_to (tf_range f)))] @
     (if tf_service f \<noteq> [] then [(''service = ?'', [ArgText (tf_service f)], \<lambda>r. sr_service r = tf_service f)] else []) @
     (if tf_operation f \<noteq> []
      then [(''operation = ?'', [ArgText (tf_operation f)], \<lambda>r. sr_operation r = tf_operation f)] else []) @
     (if tf_only_errors f then [(''is_error'', [], sr_is_error)] else []) @
     (if tf_search f \<noteq> []
      then let pat = ''%'' @ tf_search f @ ''%''
           in [(''(operation ILIKE ? OR http_route ILIKE ? OR db_statement ILIKE ?)'',
                [ArgText pat, ArgText pat, ArgText pat],
                \<lambda>r. ilike (sr_operation r) pat \<or> ilike_null (sr_http_route r) pat \<or> ilike_null (sr_db_statement r) pat)]
      else [])"

definition trace_match_clause :: "trace_filter \<Rightarrow> string \<times> sql_arg list" where
  "trace_match_clause f =
     (join '' AND '' (map fst (match_conditions f)), concat (map (fst \<circ> snd) (match_conditions f)))"

definition row_matches :: "trace_filter \<Rightarrow> span_row \<Rightarrow> bool" where
  "row_matches f r \<longleftrightarrow> list_all (\<lambda>c. snd (snd c) r) (match_conditions f)"

text \<open>The conditions on the root span of a trace.\<close>

definition root_conditions :: "trace_filter \<Rightarrow> span_row condition list" where
  "root_conditions f =
     (if 0 < tf_min f then [(''root.duration_ns >= ?'', [ArgInt (tf_min f)], \<lambda>r. tf_min f \<le> sr_duration r)] else []) @
     (if 0 < tf_max f then [(''root.duration_ns <= ?'', [ArgInt (tf_max f)], \<lambda>r. sr_duration r \<le> tf_max f)] else []) @
     (if 0 < tf_http_status f
      then [(''root.http_status = ?'', [ArgInt (tf_http_status f)], \<lambda>r. sr_http_status r = Some (tf_http_status f))]
      else [])"

definition root_matches :: "trace_filter \<Rightarrow> span_row \<Rightarrow> bool" where
  "root_matches f r \<longleftrightarrow> list_all (\<lambda>c. snd (snd c) r) (root_conditions f)"

text \<open>The number rendered into the text: digits are written from the end of a buffer of twenty bytes.\<close>

function sql_digits :: "int \<Rightarrow> string \<Rightarrow> string" where
  "sql_digits n buf = (if 0 < n then sql_digits (n div 10) (char_of (nat (48 + n mod 10)) # buf) else buf)"
  by pat_completeness auto
termination by (relation "measure (\<lambda>(n, buf). nat n)") auto

declare sql_digits.simps [simp del]

definition sql_itoa :: "int \<Rightarrow> string" where
  "sql_itoa n = (if n \<le> 0 then ''0'' else sql_digits n [])"

definition nibble_digit :: "8 word \<Rightarrow> char" where
  "nibble_digit b = ''0123456789abcdef'' ! unat b"

definition blob_hex :: "bytes \<Rightarrow> string" where
  "blob_hex b = concat (map (\<lambda>c. [nibble_digit (drop_bit 4 c), nibble_digit (and c 15)]) b)"

text \<open>What the statement's variable parts are, and its arguments in order.\<close>

definition search_tail :: "trace_filter \<Rightarrow> string" where
  "search_tail f =
     (if root_conditions f \<noteq> [] then '' WHERE '' @ join '' AND '' (map fst (root_conditions f)) else []) @
     '' ORDER BY agg.start_time DESC LIMIT '' @ sql_itoa (trace_limit f)"

definition search_args :: "trace_filter \<Rightarrow> sql_arg list" where
  "search_args f = snd (trace_match_clause f) @ concat (map (fst \<circ> snd) (root_conditions f))"

record trace_summary =
  ts_trace :: string
  ts_root_service :: string
  ts_root_operation :: string
  ts_start :: gotime
  ts_duration :: int
  ts_spans :: nat
  ts_errors :: nat
  ts_services :: nat
  ts_http_method :: string
  ts_http_route :: string
  ts_http_status :: int
  ts_exception :: string

definition root_row :: "span_row list \<Rightarrow> span_row" where
  "root_row g = hd (sort_key (\<lambda>r. (\<not> sr_is_root r, sr_ts r, - sr_duration r)) g)"

definition summarize :: "bytes \<Rightarrow> span_row list \<Rightarrow> trace_summary" where
  "summarize tid g =
     (let root_span = root_row g
      in \<lparr>ts_trace = blob_hex tid, ts_root_service = sr_service root_span, ts_root_operation = sr_operation root_span,
          ts_start = of_micros (Min (sr_ts ` set g)), ts_duration = sr_duration root_span, ts_spans = length g,
          ts_errors = length (filter sr_is_error g), ts_services = card (sr_service ` set g),
          ts_http_method = null_string (sr_http_method root_span), ts_http_route = null_string (sr_http_route root_span),
          ts_http_status = null_int (sr_http_status root_span), ts_exception = null_string (sr_exception root_span)\<rparr>)"

text \<open>\<open>pick\<close> is which of the matching traces the first \<open>LIMIT\<close> keeps.\<close>

definition search_traces :: "(nat \<Rightarrow> bytes list \<Rightarrow> bytes list) \<Rightarrow> trace_filter \<Rightarrow> span_row list \<Rightarrow> trace_summary list" where
  "search_traces pick f rows =
     (let matched = pick (nat (trace_limit f * candidate_multiplier))
                      (remdups (map sr_trace (filter (row_matches f) rows)));
          groups = map (\<lambda>tid. (tid, filter (\<lambda>r. sr_trace r = tid) rows)) matched;
          kept = filter (\<lambda>(tid, g). root_matches f (root_row g)) groups
      in take (nat (trace_limit f)) (sort_key (\<lambda>t. - ts_start t) (map (\<lambda>(tid, g). summarize tid g) kept)))"

section \<open>Opening the database\<close>

definition schema_version :: int where "schema_version = 4"

datatype version_check = VersionRecorded | VersionCurrent | VersionUpgraded int
  | VersionUnreadable string | VersionTooNew int

text \<open>The stored text of the version, the text afterwards, and the outcome.\<close>

definition check_schema_version :: "string option \<Rightarrow> string option \<times> version_check" where
  "check_schema_version stored =
     (case stored of
        None \<Rightarrow> (Some (itoa schema_version), VersionRecorded)
      | Some raw \<Rightarrow>
          (case atoi raw of
             None \<Rightarrow> (stored, VersionUnreadable raw)
           | Some found \<Rightarrow>
               if schema_version < found then (stored, VersionTooNew found)
               else if found < schema_version then (Some (itoa schema_version), VersionUpgraded found)
               else (stored, VersionCurrent)))"

definition pragma_statements :: "string \<Rightarrow> int \<Rightarrow> string list" where
  "pragma_statements memory_limit threads =
     (if memory_limit \<noteq> [] then [''SET memory_limit='' @ [CHR 0x27] @ memory_limit @ [CHR 0x27]] else []) @
     (if 0 < threads then [''SET threads='' @ itoa threads] else [])"

text \<open>The size on disk: the file and its write-ahead log, a missing file counting nothing; \<open>Inl\<close> is a failed
  \<open>stat\<close>.\<close>

definition file_size :: "unit + nat option \<Rightarrow> unit + nat" where
  "file_size st = (case st of Inl e \<Rightarrow> Inl e | Inr None \<Rightarrow> Inr 0 | Inr (Some n) \<Rightarrow> Inr n)"

definition file_size_bytes :: "unit + nat option \<Rightarrow> unit + nat option \<Rightarrow> unit + nat" where
  "file_size_bytes main wal =
     (case file_size main of
        Inl e \<Rightarrow> Inl e
      | Inr bytes \<Rightarrow> (case file_size wal of Inl e \<Rightarrow> Inr bytes | Inr n \<Rightarrow> Inr (bytes + n)))"

definition store_path :: "string \<Rightarrow> string \<Rightarrow> string" where
  "store_path data_dir p = (if has_prefix p ''/'' then p else path_join [data_dir, p])"


section \<open>Lemmas: rows\<close>

definition span_storable :: "span \<Rightarrow> bool" where
  "span_storable s \<longleftrightarrow>
     length (parent_span_id s) = 8 \<and> span_kind_of (span_kind_value (span_kind s)) = span_kind s \<and>
     status_code_of (status_value (status s)) = status s"

text \<open>What is left of a span that was stored: whole microseconds, 32-bit numbers, and no runtime.\<close>

definition stored_span :: "span \<Rightarrow> span" where
  "stored_span s =
     s\<lparr>timestamp := of_micros (micros (timestamp s)), http_status := wrap32 (http_status s), pid := wrap32 (pid s),
       runtime := []\<rparr>"

lemma parent_back:
  "length b = 8 \<Longrightarrow> (case nullable_bytes b of None \<Rightarrow> zero_span_id | Some b' \<Rightarrow> b') = b"
  by (simp add: nullable_bytes_def is_zero_bytes_iff)

lemma scan_row: "span_storable s \<Longrightarrow> scan_span (row_of_span s) = stored_span s"
  by (simp add: span_storable_def scan_span_def row_of_span_def stored_span_def parent_back encode_attributes_def
      encode_events_def)

lemma row_trace [simp]: "sr_trace (row_of_span s) = trace_id s"
  by (simp add: row_of_span_def)

lemma trace_rows_mset:
  "length (filter (\<lambda>r. sr_trace r = tid) rows) \<le> max_trace_spans \<Longrightarrow>
     mset (trace_rows tid rows) = mset (filter (\<lambda>r. sr_trace r = tid) rows)"
  by (simp add: trace_rows_def)

lemma trace_rows_set: "set (trace_rows tid rows) \<subseteq> {r \<in> set rows. sr_trace r = tid}"
  unfolding trace_rows_def using set_take_subset [of max_trace_spans] by fastforce

lemma trace_rows_sorted: "sorted (map (\<lambda>r. of_micros (sr_ts r)) (trace_rows tid rows))"
proof -
  have "sorted (map (\<lambda>r. (sr_ts r, - sr_duration r)) (trace_rows tid rows))"
    unfolding trace_rows_def take_map [symmetric] by (intro sorted_wrt_take) simp
  then have "sorted_wrt (\<lambda>r q. of_micros (sr_ts r) \<le> of_micros (sr_ts q)) (trace_rows tid rows)"
    unfolding sorted_map by (rule sorted_wrt_mono_rel [rotated]) (auto simp: of_micros_def)
  then show ?thesis by (simp add: sorted_map)
qed

section \<open>Lemmas: the extent of a trace\<close>

lemma start_bound:
  assumes "list_all (\<lambda>s. zero_time < timestamp s) ss" and "zero_time \<le> t"
  shows "list_all (\<lambda>s. foldl extend_start t ss \<le> timestamp s) ss \<and> (zero_time < t \<longrightarrow> foldl extend_start t ss \<le> t)
    \<and> zero_time \<le> foldl extend_start t ss"
  using assms
proof (induction ss arbitrary: t)
  case (Cons s ss)
  have "zero_time < extend_start t s" using Cons.prems by (auto simp: extend_start_def is_zero_time_def)
  moreover have "extend_start t s \<le> timestamp s" "zero_time < t \<longrightarrow> extend_start t s \<le> t"
    by (auto simp: extend_start_def is_zero_time_def)
  ultimately show ?case using Cons.IH [of "extend_start t s"] Cons.prems by (auto intro: order_trans)
qed simp

lemma start_reached:
  "ss \<noteq> [] \<Longrightarrow> is_zero_time t \<Longrightarrow> foldl extend_start t ss \<in> timestamp ` set ss"
proof (induction ss arbitrary: t)
  case (Cons s ss)
  have "foldl extend_start t ss = t \<or> foldl extend_start t ss \<in> timestamp ` set ss" for t
    by (induction ss arbitrary: t) (auto simp: extend_start_def)
  moreover have "extend_start t s = timestamp s" using Cons.prems by (simp add: extend_start_def)
  ultimately show ?case by (metis foldl_Cons image_insert insertCI list.simps(15))
qed simp

lemma end_bound: "t \<le> foldl extend_end t ss \<and> list_all (\<lambda>s. end_time s \<le> foldl extend_end t ss) ss"
proof (induction ss arbitrary: t)
  case (Cons s ss)
  have "t \<le> extend_end t s" "end_time s \<le> extend_end t s" by (simp_all add: extend_end_def)
  then show ?case using Cons.IH [of "extend_end t s"] by auto
qed simp

lemma end_reached: "foldl extend_end t ss = t \<or> (\<exists>s \<in> set ss. foldl extend_end t ss = end_time s)"
proof (induction ss arbitrary: t)
  case (Cons s ss)
  then show ?case using Cons.IH [of "extend_end t s"] by (auto simp: extend_end_def split: if_splits)
qed simp

section \<open>Lemmas: rendering\<close>

lemma sql_digits_dec: "0 < n \<Longrightarrow> sql_digits n buf = dec_nat (nat n) @ buf"
proof (induction n buf rule: sql_digits.induct)
  case (1 n buf)
  have digit: "char_of (nat (48 + n mod 10)) = digit_char (nat n mod 10)"
    using 1(2) by (simp add: digit_char_def nat_add_distrib nat_mod_distrib)
  show ?case
  proof (cases "n < 10")
    case True
    then have "n div 10 = 0" using 1(2) by simp
    then show ?thesis using 1(2) True digit
      by (simp add: sql_digits.simps [of n] sql_digits.simps [of 0] dec_nat.simps [of "nat n"])
  next
    case False
    then have "0 < n div 10" by (simp add: pos_imp_zdiv_pos_iff)
    then have "sql_digits n buf = dec_nat (nat (n div 10)) @ digit_char (nat n mod 10) # buf"
      using 1 digit by (simp add: sql_digits.simps [of n])
    moreover have "nat (n div 10) = nat n div 10" using 1(2) by (simp add: nat_div_distrib)
    ultimately show ?thesis using False dec_nat.simps [of "nat n"] by simp
  qed
qed

lemma sql_itoa_nonneg: "0 \<le> n \<Longrightarrow> sql_itoa n = itoa n"
proof -
  have "char_of (48 :: nat) = CHR ''0''" by code_simp
  then show "0 \<le> n \<Longrightarrow> sql_itoa n = itoa n"
    by (auto simp: sql_itoa_def itoa_def sql_digits_dec dec_nat.simps [of 0] digit_char_def)
qed

lemma nibbles: "unat (drop_bit 4 b :: 8 word) = unat b div 16" "unat (and b 15 :: 8 word) = unat b mod 16"
proof -
  show "unat (drop_bit 4 b) = unat b div 16" unfolding unat_drop_bit_eq by (simp add: drop_bit_eq_div)
  have "and b 15 = take_bit 4 b" by (simp add: take_bit_eq_mask mask_eq_exp_minus_1)
  then show "unat (and b 15) = unat b mod 16" by (simp only: unsigned_take_bit_eq) (simp add: take_bit_eq_mod)
qed

lemma hex_table: "d < 16 \<Longrightarrow> ''0123456789abcdef'' ! d = hex_digit d"
proof -
  assume "d < 16"
  then have "d \<in> set [0..<16]" by simp
  moreover have "list_all (\<lambda>d. ''0123456789abcdef'' ! d = hex_digit d) [0..<16]" by code_simp
  ultimately show ?thesis by (simp only: list_all_iff)
qed

lemma blob_hex_encode: "blob_hex b = hex_encode b"
proof (induction b)
  case (Cons c b)
  have "unat c div 16 < 16" using unat_byte_lt [of c] by linarith
  then show ?case using Cons by (simp add: blob_hex_def nibble_digit_def nibbles hex_table)
qed (simp add: blob_hex_def)


section \<open>Lemmas: searching\<close>

lemma trace_limit_range: "1 \<le> trace_limit f" "trace_limit f \<le> 1000"
  by (auto simp: trace_limit_def max_trace_limit_def)

definition placeholders :: "string \<Rightarrow> nat" where
  "placeholders s = length (filter (\<lambda>c. c = CHR ''?'') s)"

lemma placeholders_append [simp]: "placeholders (a @ b) = placeholders a + placeholders b"
  by (simp add: placeholders_def)

lemma placeholders_join:
  assumes "placeholders sep = 0"
  shows "placeholders (join sep xs) = (\<Sum>x\<leftarrow>xs. placeholders x)"
  using assms by (induction sep xs rule: join.induct) (simp_all add: placeholders_def)

definition bound_conditions :: "'r condition list \<Rightarrow> bool" where
  "bound_conditions cs \<longleftrightarrow> list_all (\<lambda>c. placeholders (fst c) = length (fst (snd c))) cs"

lemma bound_match: "bound_conditions (match_conditions f)"
  by (simp add: bound_conditions_def match_conditions_def placeholders_def Let_def)

lemma bound_root: "bound_conditions (root_conditions f)"
  by (simp add: bound_conditions_def root_conditions_def placeholders_def)

lemma bound_joined:
  "bound_conditions cs \<Longrightarrow> placeholders (join '' AND '' (map fst cs)) = length (concat (map (fst \<circ> snd) cs))"
  by (subst placeholders_join)
    (simp_all add: placeholders_def bound_conditions_def length_concat o_def list_all_iff cong: map_cong)

lemma placeholders_itoa: "0 \<le> n \<Longrightarrow> placeholders (sql_itoa n) = 0"
proof -
  assume "0 \<le> n"
  have "CHR ''?'' \<notin> set (itoa n)" using dec_nat_digits [of "nat n"] \<open>0 \<le> n\<close> by (auto simp: itoa_def list_all_iff is_digit_def)
  then show ?thesis using sql_itoa_nonneg [OF \<open>0 \<le> n\<close>] by (auto simp: placeholders_def filter_empty_conv)
qed

lemma root_row_in: "g \<noteq> [] \<Longrightarrow> root_row g \<in> set g"
proof -
  assume "g \<noteq> []"
  then have "sort_key (\<lambda>r. (\<not> sr_is_root r, sr_ts r, - sr_duration r)) g \<noteq> []" by (metis set_empty set_sort)
  then show ?thesis unfolding root_row_def by (metis hd_in_set set_sort)
qed

lemma root_row_first:
  assumes "r \<in> set g"
  shows "(\<not> sr_is_root (root_row g), sr_ts (root_row g)) \<le> (\<not> sr_is_root r, sr_ts r)"
proof -
  let ?k = "\<lambda>r. (\<not> sr_is_root r, sr_ts r, - sr_duration r)"
  have st: "set (sort_key ?k g) = set g" and srt: "sorted (map ?k (sort_key ?k g))" by simp_all
  show ?thesis
  proof (cases "sort_key ?k g")
    case Nil then show ?thesis using st assms by simp
  next
    case (Cons x xs)
    have "?k x \<le> ?k r" using srt st assms unfolding Cons by auto
    then show ?thesis unfolding root_row_def Cons by auto
  qed
qed


section \<open>Spans out of the store\<close>



definition stored_example :: span where
  "stored_example =
     \<lparr>timestamp = 1700000000000001234, span_duration = 5000000, trace_id = replicate 16 7, span_id = replicate 8 3,
      parent_span_id = zero_span_id, service = ''shop'', operation = ''GET /'', span_kind = KindServer, status = StatusUnset,
      status_message = [], http_method = ''GET'', http_route = ''/'', http_status = 200, db_system = [], db_statement = [],
      db_name = [], peer_service = [], host_name = ''h'', pid = 41, runtime = ''java'', attributes = Map.empty, events = []\<rparr>"

lemma stored_example_ok: "list_all span_storable [stored_example]" "replicate 16 7 \<in> trace_id ` set [stored_example]"
  by (simp_all add: span_storable_def stored_example_def span_kind_value_def span_kind_of_def status_value_def
      status_code_of_def)


text \<open>(a trace spans its spans) The start and the length reported for a trace are those of its spans: none
  starts before, none ends after, and both ends are reached.\<close>

theorem trace_extent:
  assumes "get_trace tid rows = Some t" and "list_all (\<lambda>r. micros zero_time < sr_ts r \<and> 0 \<le> sr_duration r \<and> sr_duration r < 2 ^ 63) rows"
    and "list_all (\<lambda>s. end_time s - tr_start t < 2 ^ 63) (tr_spans t)"
  shows "tr_start t = Min (timestamp ` set (tr_spans t)) \<and>
    tr_duration t = Max (end_time ` set (tr_spans t)) - Min (timestamp ` set (tr_spans t))"
proof -
  let ?ss = "map scan_span (trace_rows tid rows)"
  have t: "?ss \<noteq> []" "tr_spans t = ?ss" "tr_start t = foldl extend_start zero_time ?ss"
    "tr_duration t = time_sub (foldl extend_end zero_time ?ss) (tr_start t)"
    using assms(1) by (auto simp: get_trace_def Let_def split: if_splits)
  have row: "zero_time < timestamp s \<and> timestamp s \<le> end_time s" if mem: "s \<in> set ?ss" for s
  proof -
    obtain r where r: "s = scan_span r" "r \<in> set rows" using mem trace_rows_set [of tid rows] by auto
    then have "micros zero_time < sr_ts r" "0 \<le> sr_duration r" "sr_duration r < 2 ^ 63" using assms(2) by (auto simp: list_all_iff)
    moreover from this have "sint (word_of_int (sr_duration r) :: 64 word) = sr_duration r"
      by (simp add: sint_sbintrunc' signed_take_bit_int_eq_self)
    ultimately show ?thesis by (simp add: r scan_span_def end_time_def of_micros_def micros_def zero_time_def)
  qed
  have "list_all (\<lambda>s. zero_time < timestamp s) ?ss" using row by (simp add: list_all_iff)
  note sb = start_bound [OF this order_refl]
  have start_in: "foldl extend_start zero_time ?ss \<in> timestamp ` set ?ss"
    using t(1) row by (intro start_reached) (auto simp: is_zero_time_def)
  have start: "tr_start t = Min (timestamp ` set ?ss)"
    using sb start_in unfolding t(3) by (intro Min_eqI [symmetric]) (auto simp: list_all_iff)
  obtain s0 where s0: "s0 \<in> set ?ss" using t(1) by (metis list.set_intros(1) neq_Nil_conv)
  have "zero_time < foldl extend_end zero_time ?ss"
    using end_bound [of zero_time ?ss] row [OF s0] s0 by (auto simp: list_all_iff)
  then have end_in: "foldl extend_end zero_time ?ss \<in> end_time ` set ?ss" using end_reached [of zero_time ?ss] by auto
  then have stop: "foldl extend_end zero_time ?ss = Max (end_time ` set ?ss)"
    using end_bound [of zero_time ?ss] by (intro Max_eqI [symmetric]) (auto simp: list_all_iff)
  have "tr_start t \<le> timestamp s0" "end_time s0 \<le> foldl extend_end zero_time ?ss"
    using end_bound [of zero_time ?ss] sb s0 unfolding t(3) list_all_iff by blast+
  then have "tr_start t \<le> foldl extend_end zero_time ?ss" using row [OF s0] by linarith
  moreover have "foldl extend_end zero_time ?ss - tr_start t < 2 ^ 63"
    using assms(3) end_in unfolding t(2) by (auto simp: list_all_iff)
  ultimately have "tr_duration t = foldl extend_end zero_time ?ss - tr_start t" unfolding t(4) time_sub_def by simp
  then show ?thesis unfolding t(2) stop start by simp
qed

theorem trace_extent_witness:
  "\<exists>t. get_trace (replicate 16 7) [row_of_span stored_example] = Some t \<and>
     tr_start t = Min (timestamp ` set (tr_spans t)) \<and>
     tr_duration t = Max (end_time ` set (tr_spans t)) - Min (timestamp ` set (tr_spans t))"
proof -
  let ?rows = "[row_of_span stored_example]"
  obtain t where t: "get_trace (replicate 16 7) ?rows = Some t" "tr_spans t = [scan_span (row_of_span stored_example)]"
    "tr_start t = of_micros 1700000000000001"
    by (simp add: get_trace_def Let_def trace_rows_def max_trace_spans_def row_of_span_def stored_example_def scan_span_def
        extend_start_def is_zero_time_def micros_def)
  have "tr_start t = Min (timestamp ` set (tr_spans t)) \<and>
     tr_duration t = Max (end_time ` set (tr_spans t)) - Min (timestamp ` set (tr_spans t))"
    using t by (intro trace_extent [of "replicate 16 7" ?rows])
      (simp_all add: row_of_span_def stored_example_def scan_span_def end_time_def micros_def zero_time_def of_micros_def)
  then show ?thesis using t by blast
qed


section \<open>Searches\<close>

text \<open>What a \<open>LIMIT\<close> without an order promises: as many rows as there are, up to the limit, and no other rows.\<close>

definition limit_choice :: "(nat \<Rightarrow> bytes list \<Rightarrow> bytes list) \<Rightarrow> bool" where
  "limit_choice pick \<longleftrightarrow>
     (\<forall>n xs. length (pick n xs) = min n (length xs) \<and> set (pick n xs) \<subseteq> set xs \<and> (distinct xs \<longrightarrow> distinct (pick n xs)))"

lemma limit_choice_take: "limit_choice take"
  by (auto simp: limit_choice_def dest: in_set_takeD)

lemma limit_choice_all: "limit_choice pick \<Longrightarrow> distinct xs \<Longrightarrow> length xs \<le> n \<Longrightarrow> set (pick n xs) = set xs"
  unfolding limit_choice_def by (intro card_subset_eq) (auto simp: distinct_card)

text \<open>The traces a filter asks for: one of their spans matches, and their root span does.\<close>

definition wanted_traces :: "trace_filter \<Rightarrow> span_row list \<Rightarrow> bytes set" where
  "wanted_traces f rows =
     {tid \<in> sr_trace ` {r \<in> set rows. row_matches f r}. root_matches f (root_row (filter (\<lambda>r. sr_trace r = tid) rows))}"

definition summary_of :: "span_row list \<Rightarrow> bytes \<Rightarrow> trace_summary" where
  "summary_of rows tid = summarize tid (filter (\<lambda>r. sr_trace r = tid) rows)"

lemma take_sort_top:
  fixes k :: "'a \<Rightarrow> int"
  assumes "a \<in> set xs - set (take n (sort_key k xs))" and "b \<in> set (take n (sort_key k xs))"
  shows "k b \<le> k a"
proof -
  have "sorted (map k (take n (sort_key k xs) @ drop n (sort_key k xs)))" by simp
  moreover have "a \<in> set (drop n (sort_key k xs))"
    using assms(1) by (metis DiffE UnE append_take_drop_id set_append set_sort)
  ultimately show ?thesis using assms(2) unfolding map_append sorted_append by auto
qed

lemma search_as_summaries:
  "search_traces pick f rows =
     take (nat (trace_limit f)) (sort_key (\<lambda>t. - ts_start t)
       (map (summary_of rows)
         (filter (\<lambda>tid. root_matches f (root_row (filter (\<lambda>r. sr_trace r = tid) rows)))
           (pick (nat (trace_limit f * candidate_multiplier)) (remdups (map sr_trace (filter (row_matches f) rows)))))))"
  by (simp add: search_traces_def Let_def filter_map o_def summary_of_def [abs_def])

definition any_filter :: trace_filter where
  "any_filter =
     \<lparr>tf_range = \<lparr>rg_from = 0, rg_to = 1000000\<rparr>, tf_service = [], tf_operation = [], tf_min = 0, tf_max = 0,
      tf_only_errors = False, tf_http_status = 0, tf_search = [], tf_limit = 1\<rparr>"

definition row_at :: "nat \<Rightarrow> span_row" where
  "row_at i =
     \<lparr>sr_ts = int i, sr_trace = [of_nat i], sr_span = [1], sr_parent = None, sr_service = ''shop'', sr_operation = ''GET /'',
      sr_kind = 2, sr_duration = 5000000, sr_bucket = 105, sr_status = 0, sr_status_message = None, sr_is_error = False,
      sr_is_root = True, sr_http_method = None, sr_http_route = None, sr_http_status = None, sr_db_system = None,
      sr_db_statement = None, sr_db_name = None, sr_peer_service = None, sr_host_name = None, sr_pid = None,
      sr_exception = None, sr_attributes = None, sr_events = None, sr_runtime = None\<rparr>"

lemma any_filter_rows: "row_matches any_filter (row_at i) \<longleftrightarrow> i < 1000"
  by (simp add: row_matches_def match_conditions_def any_filter_def row_at_def micros_def)

lemma search_wanted:
  assumes "limit_choice pick"
  shows "set (search_traces pick f rows) \<subseteq> summary_of rows ` wanted_traces f rows"
proof
  let ?c = "pick (nat (trace_limit f * candidate_multiplier)) (remdups (map sr_trace (filter (row_matches f) rows)))"
  have c: "set ?c \<subseteq> sr_trace ` {r \<in> set rows. row_matches f r}" using assms unfolding limit_choice_def by fastforce
  fix t assume "t \<in> set (search_traces pick f rows)"
  then obtain tid where "tid \<in> set ?c" "root_matches f (root_row (filter (\<lambda>r. sr_trace r = tid) rows))" "t = summary_of rows tid"
    unfolding search_as_summaries by (auto dest!: in_set_takeD)
  then show "t \<in> summary_of rows ` wanted_traces f rows" using c unfolding wanted_traces_def by blast
qed

text \<open>(a search is sound and bounded) Whatever the limits pick, a search returns at most a thousand summaries,
  newest first, each of a trace the filter asks for, described by all of the trace's spans.\<close>

theorem search_sound:
  assumes "limit_choice pick"
  shows "length (search_traces pick f rows) \<le> 1000 \<and>
    sorted_wrt (\<lambda>s t. ts_start t \<le> ts_start s) (search_traces pick f rows) \<and>
    set (search_traces pick f rows) \<subseteq> summary_of rows ` wanted_traces f rows"
proof -
  have len: "length (search_traces pick f rows) \<le> 1000"
    using trace_limit_range [of f] unfolding search_as_summaries length_take by linarith
  have "sorted_wrt (\<lambda>s t. ts_start t \<le> ts_start s) (sort_key (\<lambda>t. - ts_start t) xs)" for xs
    using sorted_sort_key [of "\<lambda>t. - ts_start t" xs] by (simp add: sorted_map)
  then have "sorted_wrt (\<lambda>s t. ts_start t \<le> ts_start s) (search_traces pick f rows)"
    unfolding search_as_summaries by (rule sorted_wrt_take)
  with len show ?thesis using search_wanted [OF assms] by simp
qed

theorem search_sound_witness:
  "length (search_traces take any_filter [row_at 3, row_at 5]) \<le> 1000 \<and>
    sorted_wrt (\<lambda>s t. ts_start t \<le> ts_start s) (search_traces take any_filter [row_at 3, row_at 5]) \<and>
    set (search_traces take any_filter [row_at 3, row_at 5]) \<subseteq>
      summary_of [row_at 3, row_at 5] ` wanted_traces any_filter [row_at 3, row_at 5]"
  by (rule search_sound) (rule limit_choice_take)

lemma range_candidates:
  assumes "limit_choice pick" and "length (remdups (map sr_trace (filter (row_matches f) rows))) \<le> nat (trace_limit f * candidate_multiplier)"
  shows "set (pick (nat (trace_limit f * candidate_multiplier)) (remdups (map sr_trace (filter (row_matches f) rows)))) =
    sr_trace ` {r \<in> set rows. row_matches f r}"
  using limit_choice_all [OF assms(1) distinct_remdups assms(2)] by auto

text \<open>C25 (a search finds the newest). While the traces with a matching span are no more than ten times the limit,
  no trace asked for and left out is newer than one returned.\<close>

theorem search_newest:
  assumes "limit_choice pick"
    and "length (remdups (map sr_trace (filter (row_matches f) rows))) \<le> nat (trace_limit f * candidate_multiplier)"
    and "a \<in> summary_of rows ` wanted_traces f rows" and "a \<notin> set (search_traces pick f rows)"
  shows "list_all (\<lambda>t. ts_start a \<le> ts_start t) (search_traces pick f rows)"
proof -
  note c = range_candidates [OF assms(1,2)]
  let ?xs = "map (summary_of rows)
         (filter (\<lambda>tid. root_matches f (root_row (filter (\<lambda>r. sr_trace r = tid) rows)))
           (pick (nat (trace_limit f * candidate_multiplier)) (remdups (map sr_trace (filter (row_matches f) rows)))))"
  have "a \<in> set ?xs" using assms(3) by (auto simp: wanted_traces_def c)
  then show ?thesis
    using take_sort_top [of a ?xs "nat (trace_limit f)" "\<lambda>t. - ts_start t"] assms(4)
    unfolding search_as_summaries list_all_iff by auto
qed

theorem search_newest_witness:
  "list_all (\<lambda>t. ts_start (summary_of (map row_at [3, 5]) [3]) \<le> ts_start t) (search_traces take any_filter (map row_at [3, 5]))"
proof (rule search_newest [OF limit_choice_take])
  have found: "search_traces take any_filter (map row_at [3, 5]) = [summary_of (map row_at [3, 5]) [5]]"
    unfolding search_as_summaries
    by (simp add: any_filter_rows trace_limit_def any_filter_def candidate_multiplier_def root_matches_def root_conditions_def
        row_at_def max_trace_limit_def row_matches_def match_conditions_def micros_def summary_of_def summarize_def Let_def of_micros_def)
  show "length (remdups (map sr_trace (filter (row_matches any_filter) (map row_at [3, 5]))))
      \<le> nat (trace_limit any_filter * candidate_multiplier)"
    by (simp add: any_filter_rows row_at_def trace_limit_def any_filter_def candidate_multiplier_def max_trace_limit_def)
  have "[3] \<in> wanted_traces any_filter (map row_at [3, 5])"
  proof -
    have "row_at 3 \<in> {r \<in> set (map row_at [3, 5]). row_matches any_filter r}" by (simp add: any_filter_rows)
    moreover have "[3] = sr_trace (row_at 3)" by (simp add: row_at_def)
    ultimately have "[3] \<in> sr_trace ` {r \<in> set (map row_at [3, 5]). row_matches any_filter r}" by (intro image_eqI)
    then show ?thesis by (simp add: wanted_traces_def root_matches_def root_conditions_def any_filter_def)
  qed
  then show "summary_of (map row_at [3, 5]) [3] \<in> summary_of (map row_at [3, 5]) ` wanted_traces any_filter (map row_at [3, 5])"
    by (rule imageI)
  show "summary_of (map row_at [3, 5]) [3] \<notin> set (search_traces take any_filter (map row_at [3, 5]))"
    unfolding found by (simp add: summary_of_def summarize_def Let_def row_at_def of_micros_def)
qed

text \<open>(newest_trace_missed) Beyond that the newest trace can be missing: of eleven matching traces and a limit of
  one, the candidates may be the ten oldest.\<close>

theorem newest_trace_missed:
  "map ts_start (search_traces take any_filter (map row_at [0..<11])) = [9000]"
  by code_simp



text \<open>(rendered alike) The identifiers and numbers the queries render by hand are those the standard library would
  render, and an identifier shown in a search opens its trace.\<close>

theorem rendered_alike: "blob_hex b = hex_encode b \<and> hex_decode (blob_hex b) = Some b \<and> sql_itoa (int n) = itoa (int n)"
  using sql_itoa_nonneg [of "int n"] by (simp add: blob_hex_encode)

text \<open>(versions settle) Opening a database a second time finds the version current, unless it was refused: then
  nothing was changed.\<close>

theorem versions_settle:
  "(case check_schema_version stored of
      (after, VersionUnreadable raw) \<Rightarrow> after = stored \<and> stored = Some raw
    | (after, VersionTooNew v) \<Rightarrow> after = stored \<and> schema_version < v
    | (after, outcome) \<Rightarrow> check_schema_version after = (after, VersionCurrent))"
proof -
  have four: "atoi (itoa schema_version) = Some schema_version" by (rule atoi_itoa) (simp_all add: schema_version_def)
  show ?thesis
    by (cases stored) (auto simp: check_schema_version_def four split: option.splits)
qed

text \<open>(runtime_not_read_back) The runtime of a span is written but not read back when its trace is opened.\<close>

theorem runtime_not_read_back:
  "sr_runtime (row_of_span stored_example) = Some ''java'' \<and> runtime (scan_span (row_of_span stored_example)) = []"
  by (simp add: row_of_span_def scan_span_def stored_example_def nullable_string_def)

text \<open>(search_pattern_leaks) The text searched for is a pattern: an underscore in it matches any character.\<close>

theorem search_pattern_leaks: "ilike ''orderXitems'' (''%'' @ ''order_items'' @ ''%'')"
  by code_simp

end
