(* ===== verification/Service_Queries.thy ===== *)
theory Service_Queries
  imports Span_Store
begin

text \<open>
  The aggregate queries of \<open>internal/store/query_services.go\<close>: services, operations, time series and the service
  map.  Averages and interpolated quantiles are exact fractions; how the database casts a fraction to a
  whole number is the argument \<open>cast\<close>.
\<close>

section \<open>Statistics\<close>

definition entry_span :: "span_row \<Rightarrow> bool" where
  "entry_span r \<longleftrightarrow> sr_kind r = 2 \<or> sr_kind r = 5 \<or> sr_is_root r"

definition average :: "int list \<Rightarrow> rat" where
  "average xs = of_int (sum_list xs) / of_nat (length xs)"

text \<open>\<open>quantile_cont\<close>: linear interpolation between the two neighbours of the position.\<close>

definition interpolate :: "int list \<Rightarrow> rat \<Rightarrow> rat" where
  "interpolate xs p =
     of_int (xs ! nat \<lfloor>p\<rfloor>) + (p - of_int \<lfloor>p\<rfloor>) * (of_int (xs ! nat \<lceil>p\<rceil>) - of_int (xs ! nat \<lfloor>p\<rfloor>))"

definition quantile_cont :: "rat \<Rightarrow> int list \<Rightarrow> rat" where
  "quantile_cont q xs = interpolate (sort xs) (q * of_nat (length xs - 1))"

record service_stats =
  st_service :: string
  st_spans :: nat
  st_errors :: nat
  st_error_rate :: rat
  st_rps :: rat
  st_avg :: int
  st_p50 :: int
  st_p95 :: int
  st_p99 :: int
  st_max :: int
  st_last_seen :: gotime
  st_runtime :: string

definition range_seconds :: "time_range \<Rightarrow> rat" where
  "range_seconds r = (if 0 < range_duration r then of_int (range_duration r) / of_int second else 1)"

definition finalize :: "rat \<Rightarrow> service_stats \<Rightarrow> service_stats" where
  "finalize secs st =
     (let st1 = (if 0 < st_spans st then st\<lparr>st_error_rate := of_nat (st_errors st) / of_nat (st_spans st)\<rparr> else st)
      in if 0 < secs then st1\<lparr>st_rps := of_nat (st_spans st) / secs\<rparr> else st1)"

text \<open>\<open>max(runtime)\<close>: absent values are ignored.\<close>

definition max_runtime :: "span_row list \<Rightarrow> string" where
  "max_runtime g = (case List.map_filter sr_runtime g of [] \<Rightarrow> [] | x # xs \<Rightarrow> foldl max x xs)"

definition stats_of :: "(rat \<Rightarrow> int) \<Rightarrow> string \<Rightarrow> string \<Rightarrow> span_row list \<Rightarrow> service_stats" where
  "stats_of cast svc rt g =
     (let ds = map sr_duration g
      in \<lparr>st_service = svc, st_spans = length g, st_errors = length (filter sr_is_error g), st_error_rate = 0, st_rps = 0,
          st_avg = cast (average ds), st_p50 = cast (quantile_cont (1 / 2) ds), st_p95 = cast (quantile_cont (19 / 20) ds),
          st_p99 = cast (quantile_cont (99 / 100) ds), st_max = Max (set ds), st_last_seen = of_micros (Max (sr_ts ` set g)),
          st_runtime = rt\<rparr>)"

definition entries_in :: "time_range \<Rightarrow> span_row list \<Rightarrow> span_row list" where
  "entries_in r rows = filter (\<lambda>s. in_range r (sr_ts s) \<and> entry_span s) rows"

definition list_services :: "(rat \<Rightarrow> int) \<Rightarrow> time_range \<Rightarrow> span_row list \<Rightarrow> service_stats list" where
  "list_services cast r rows =
     map (finalize (range_seconds r))
       (sort_key (\<lambda>st. - int (st_spans st))
         (map (\<lambda>(svc, g). stats_of cast svc (max_runtime g) g) (group_by sr_service (entries_in r rows))))"

fun stored_kind_name :: "int \<Rightarrow> string" where
  "stored_kind_name k =
     (if k = 1 then ''internal'' else if k = 2 then ''server'' else if k = 3 then ''client''
      else if k = 4 then ''producer'' else if k = 5 then ''consumer'' else ''unspecified'')"

record operation_stats =
  os_operation :: string
  os_kind :: string
  os_stats :: service_stats

definition max_operation_rows :: nat where "max_operation_rows = 500"

definition list_operations :: "(rat \<Rightarrow> int) \<Rightarrow> string \<Rightarrow> time_range \<Rightarrow> span_row list \<Rightarrow> operation_stats list" where
  "list_operations cast svc r rows =
     map (\<lambda>((op, k), st). \<lparr>os_operation = op, os_kind = stored_kind_name k, os_stats = finalize (range_seconds r) st\<rparr>)
       (take max_operation_rows
         (sort_key (\<lambda>(key, st). - int (st_spans st))
           (map (\<lambda>(key, g). (key, stats_of cast svc [] g))
             (group_by (\<lambda>s. (sr_operation s, sr_kind s))
               (filter (\<lambda>s. sr_service s = svc) (entries_in r rows))))))"

section \<open>Time series\<close>

definition target_points :: int where "target_points = 120"

definition step_candidates :: "duration list" where
  "step_candidates =
     [second, 5 * second, 15 * second, 30 * second, minute, 5 * minute, 15 * minute, 30 * minute, hour, 3 * hour,
      6 * hour, 12 * hour, 24 * hour]"

definition default_step :: "time_range \<Rightarrow> duration" where
  "default_step r =
     (case find (\<lambda>c. range_duration r div target_points \<le> c) step_candidates of Some c \<Rightarrow> c | None \<Rightarrow> 24 * hour)"

definition chosen_step :: "duration \<Rightarrow> time_range \<Rightarrow> duration" where
  "chosen_step step r = (if step \<le> 0 then default_step r else step)"

definition interval_literal :: "duration \<Rightarrow> string" where
  "interval_literal step = [CHR 0x27] @ itoa (step div second) @ '' seconds'' @ [CHR 0x27]"

text \<open>The width that literal stands for, in microseconds.\<close>

definition step_width :: "duration \<Rightarrow> int" where
  "step_width step = step div second * 1000000"

record series_point =
  pt_ts :: gotime
  pt_count :: nat
  pt_errors :: nat
  pt_rate :: rat
  pt_error_rate :: rat
  pt_avg :: int
  pt_p95 :: int

definition point_of :: "(rat \<Rightarrow> int) \<Rightarrow> duration \<Rightarrow> int \<Rightarrow> span_row list \<Rightarrow> series_point" where
  "point_of cast step b g =
     (let ds = map sr_duration g
      in \<lparr>pt_ts = of_micros b, pt_count = length g, pt_errors = length (filter sr_is_error g),
          pt_rate = of_nat (length g) / (of_int step / of_int second),
          pt_error_rate = (if 0 < length g then of_nat (length (filter sr_is_error g)) / of_nat (length g) else 0),
          pt_avg = cast (average ds), pt_p95 = cast (quantile_cont (19 / 20) ds)\<rparr>)"

definition time_series ::
  "(rat \<Rightarrow> int) \<Rightarrow> string \<Rightarrow> time_range \<Rightarrow> duration \<Rightarrow> span_row list \<Rightarrow> series_point list" where
  "time_series cast svc r step0 rows =
     (let step = chosen_step step0 r;
          picked = filter (\<lambda>s. svc = [] \<or> sr_service s = svc) (entries_in r rows)
      in map (\<lambda>(b, g). point_of cast step b g)
           (sort_key fst (group_by (\<lambda>s. time_bucket (step_width step) (sr_ts s)) picked)))"

section \<open>The service map\<close>

record dependency =
  dp_caller :: string
  dp_callee :: string
  dp_calls :: nat
  dp_errors :: nat
  dp_error_rate :: rat
  dp_avg :: int

text \<open>The pairs of a child and its parent across services, both in the range.\<close>

definition cross_calls :: "(int \<Rightarrow> bool) \<Rightarrow> span_row list \<Rightarrow> (span_row \<times> span_row) list" where
  "cross_calls inside rows =
     filter (\<lambda>(child, parent). sr_parent child = Some (sr_span parent) \<and> sr_trace child = sr_trace parent \<and>
         sr_service child \<noteq> sr_service parent)
       (List.product (filter (\<lambda>r. inside (sr_ts r)) rows) (filter (\<lambda>r. inside (sr_ts r)) rows))"

definition call_key :: "span_row \<times> span_row \<Rightarrow> string \<times> string" where
  "call_key p = (sr_service (snd p), sr_service (fst p))"

definition dependency_of :: "(rat \<Rightarrow> int) \<Rightarrow> string \<times> string \<Rightarrow> (span_row \<times> span_row) list \<Rightarrow> dependency" where
  "dependency_of cast key g =
     \<lparr>dp_caller = fst key, dp_callee = snd key, dp_calls = length g, dp_errors = length (filter (\<lambda>p. sr_is_error (fst p)) g),
      dp_error_rate =
        (if 0 < length g then of_nat (length (filter (\<lambda>p. sr_is_error (fst p)) g)) / of_nat (length g) else 0),
      dp_avg = cast (average (map (\<lambda>p. sr_duration (fst p)) g))\<rparr>"

definition dependencies :: "(rat \<Rightarrow> int) \<Rightarrow> time_range \<Rightarrow> span_row list \<Rightarrow> dependency list" where
  "dependencies cast r rows =
     take 500 (sort_key (\<lambda>d. - int (dp_calls d))
       (map (\<lambda>(key, g). dependency_of cast key g) (group_by call_key (cross_calls (in_range r) rows))))"

section \<open>Contents of the database\<close>

record storage_stats =
  sg_spans :: nat
  sg_rollups :: nat
  sg_oldest :: gotime
  sg_newest :: gotime
  sg_bytes :: nat
  sg_services :: nat

text \<open>A \<open>nullTime\<close> leaves the time zero when the table is empty.\<close>

definition null_time :: "int option \<Rightarrow> gotime" where
  "null_time v = (case v of None \<Rightarrow> zero_time | Some u \<Rightarrow> of_micros u)"

definition storage_of :: "nat \<Rightarrow> unit + nat \<Rightarrow> span_row list \<Rightarrow> storage_stats" where
  "storage_of rollups bytes rows =
     \<lparr>sg_spans = length rows, sg_rollups = rollups,
      sg_oldest = null_time (if rows = [] then None else Some (Min (sr_ts ` set rows))),
      sg_newest = null_time (if rows = [] then None else Some (Max (sr_ts ` set rows))),
      sg_bytes = (case bytes of Inl e \<Rightarrow> 0 | Inr n \<Rightarrow> n), sg_services = card (sr_service ` set rows)\<rparr>"


section \<open>Lemmas: interpolation\<close>

lemma nth_sorted: "sorted xs \<Longrightarrow> i \<le> j \<Longrightarrow> j < length xs \<Longrightarrow> rat_of_int (xs ! i) \<le> rat_of_int (xs ! j)"
  by (simp add: sorted_nth_mono)

lemma interpolate_between:
  assumes "sorted xs" and "0 \<le> p" and "p \<le> of_nat (length xs - 1)" and "xs \<noteq> []"
  shows "rat_of_int (xs ! nat \<lfloor>p\<rfloor>) \<le> interpolate xs p" and "interpolate xs p \<le> rat_of_int (xs ! nat \<lceil>p\<rceil>)"
proof -
  have "\<lceil>p\<rceil> \<le> int (length xs - 1)" using assms(3) by (simp add: ceiling_le_iff)
  then have "nat \<lceil>p\<rceil> < length xs" using assms(4) by (cases xs) (simp_all add: nat_le_iff less_Suc_eq_le)
  moreover have "nat \<lfloor>p\<rfloor> \<le> nat \<lceil>p\<rceil>" by (intro nat_mono floor_le_ceiling)
  ultimately have up: "0 \<le> rat_of_int (xs ! nat \<lceil>p\<rceil>) - rat_of_int (xs ! nat \<lfloor>p\<rfloor>)"
    using nth_sorted [OF assms(1)] by simp
  have f: "0 \<le> p - of_int \<lfloor>p\<rfloor>" "p - of_int \<lfloor>p\<rfloor> \<le> 1" by linarith+
  show "rat_of_int (xs ! nat \<lfloor>p\<rfloor>) \<le> interpolate xs p" unfolding interpolate_def using up f(1) by simp
  show "interpolate xs p \<le> rat_of_int (xs ! nat \<lceil>p\<rceil>)"
    unfolding interpolate_def using mult_right_mono [OF f(2) up] by simp
qed

lemma interpolate_mono:
  assumes "sorted xs" and "0 \<le> p" and "p \<le> p'" and "p' \<le> of_nat (length xs - 1)" and "xs \<noteq> []"
  shows "interpolate xs p \<le> interpolate xs p'"
proof (cases "\<lfloor>p\<rfloor> = \<lfloor>p'\<rfloor>")
  case same: True
  have b: "nat \<lceil>p'\<rceil> < length xs"
  proof -
    have "\<lceil>p'\<rceil> \<le> int (length xs - 1)" using assms(4) by (simp add: ceiling_le_iff)
    then show ?thesis using assms(5) by (cases xs) (simp_all add: nat_le_iff less_Suc_eq_le)
  qed
  show ?thesis
  proof (cases "p = of_int \<lfloor>p\<rfloor>")
    case True
    have "p' \<le> of_nat (length xs - 1)" "0 \<le> p'" using assms by simp_all
    from interpolate_between(1) [OF assms(1) this(2,1) assms(5)] show ?thesis
      using True same by (simp add: interpolate_def)
  next
    case False
    then have ne: "of_int \<lfloor>p\<rfloor> < p" by linarith
    then have "\<lceil>p\<rceil> = \<lfloor>p\<rfloor> + 1" by linarith
    moreover have "\<lceil>p'\<rceil> = \<lfloor>p'\<rfloor> + 1" using same ne assms(3) by linarith
    ultimately have ceil: "\<lceil>p\<rceil> = \<lceil>p'\<rceil>" using same by simp
    have "nat \<lfloor>p'\<rfloor> \<le> nat \<lceil>p'\<rceil>" by (intro nat_mono floor_le_ceiling)
    then have "0 \<le> rat_of_int (xs ! nat \<lceil>p'\<rceil>) - rat_of_int (xs ! nat \<lfloor>p'\<rfloor>)" using nth_sorted [OF assms(1)] b by simp
    then show ?thesis unfolding interpolate_def ceil same using assms(3) by (simp add: mult_right_mono)
  qed
next
  case False
  then have "\<lfloor>p\<rfloor> < \<lfloor>p'\<rfloor>" using floor_mono [OF assms(3)] by simp
  then have "\<lceil>p\<rceil> \<le> \<lfloor>p'\<rfloor>" by linarith
  then have le: "nat \<lceil>p\<rceil> \<le> nat \<lfloor>p'\<rfloor>" by (rule nat_mono)
  have "nat \<lfloor>p'\<rfloor> < length xs"
  proof -
    have "\<lfloor>p'\<rfloor> \<le> int (length xs - 1)" using assms(4) by (simp add: floor_le_iff)
    then show ?thesis using assms(5) by (cases xs) (simp_all add: nat_le_iff less_Suc_eq_le)
  qed
  then have "rat_of_int (xs ! nat \<lceil>p\<rceil>) \<le> rat_of_int (xs ! nat \<lfloor>p'\<rfloor>)" using nth_sorted [OF assms(1) le] by simp
  moreover have "interpolate xs p \<le> rat_of_int (xs ! nat \<lceil>p\<rceil>)"
    by (rule interpolate_between(2) [OF assms(1,2) order_trans [OF assms(3,4)] assms(5)])
  moreover have "rat_of_int (xs ! nat \<lfloor>p'\<rfloor>) \<le> interpolate xs p'"
    by (rule interpolate_between(1) [OF assms(1) order_trans [OF assms(2,3)] assms(4,5)])
  ultimately show ?thesis by linarith
qed

lemma quantile_cont_mono:
  assumes "0 \<le> q" and "q \<le> q'" and "q' \<le> 1" and "xs \<noteq> []"
  shows "quantile_cont q xs \<le> quantile_cont q' xs"
proof -
  have "sort xs \<noteq> []" using assms(4) by (metis set_empty set_sort)
  moreover have "q' * of_nat (length xs - 1) \<le> of_nat (length xs - 1)" using assms(1-3) by (simp add: mult_left_le_one_le)
  ultimately show ?thesis unfolding quantile_cont_def using assms
    by (intro interpolate_mono) (simp_all add: mult_right_mono)
qed

lemma quantile_cont_max:
  assumes "0 \<le> q" and "q \<le> 1" and "xs \<noteq> []"
  shows "quantile_cont q xs \<le> of_int (Max (set xs))"
proof -
  let ?p = "q * of_nat (length xs - 1)"
  have ne: "sort xs \<noteq> []" using assms(3) by (metis set_empty set_sort)
  have p: "0 \<le> ?p" "?p \<le> of_nat (length xs - 1)" using assms by (simp_all add: mult_left_le_one_le)
  have "\<lceil>?p\<rceil> \<le> int (length xs - 1)" using p(2) by (simp add: ceiling_le_iff)
  then have "nat \<lceil>?p\<rceil> < length (sort xs)" using assms(3) by (cases xs) (simp_all add: nat_le_iff less_Suc_eq_le)
  then have "sort xs ! nat \<lceil>?p\<rceil> \<in> set xs" by (metis nth_mem set_sort)
  then have "sort xs ! nat \<lceil>?p\<rceil> \<le> Max (set xs)" by simp
  moreover have "interpolate (sort xs) ?p \<le> of_int (sort xs ! nat \<lceil>?p\<rceil>)"
    using interpolate_between(2) [of "sort xs" ?p] p ne by simp
  ultimately show ?thesis unfolding quantile_cont_def by (meson of_int_le_iff order_trans)
qed


section \<open>Lemmas: grouped results\<close>

lemma list_services_group:
  assumes "st \<in> set (list_services cast r rows)"
  obtains svc g where "svc \<in> sr_service ` set (entries_in r rows)"
    and "g = filter (\<lambda>s. sr_service s = svc) (entries_in r rows)"
    and "st = finalize (range_seconds r) (stats_of cast svc (max_runtime g) g)" and "g \<noteq> []"
proof -
  obtain svc g where "(svc, g) \<in> set (group_by sr_service (entries_in r rows))"
    "st = finalize (range_seconds r) (stats_of cast svc (max_runtime g) g)"
    using assms by (auto simp: list_services_def)
  then show ?thesis using that [of svc g] group_nonempty [of svc g] by (simp add: in_group_by)
qed

lemma finalize_keeps [simp]:
  "st_service (finalize s st) = st_service st" "st_spans (finalize s st) = st_spans st"
  "st_errors (finalize s st) = st_errors st" "st_p50 (finalize s st) = st_p50 st" "st_p95 (finalize s st) = st_p95 st"
  "st_p99 (finalize s st) = st_p99 st" "st_max (finalize s st) = st_max st"
  by (simp_all add: finalize_def Let_def)

lemma finalize_rate [simp]:
  "0 < st_spans st \<Longrightarrow> st_error_rate (finalize s st) = of_nat (st_errors st) / of_nat (st_spans st)"
  by (simp add: finalize_def Let_def)

lemma stats_of_simps [simp]:
  "st_service (stats_of cast svc rt g) = svc" "st_spans (stats_of cast svc rt g) = length g"
  "st_errors (stats_of cast svc rt g) = length (filter sr_is_error g)"
  by (simp_all add: stats_of_def Let_def)

lemma services_mset:
  "mset (map st_service (list_services cast r rows)) = mset (remdups (map sr_service (entries_in r rows)))"
  by (simp add: list_services_def group_by_def o_def case_prod_unfold multiset.map_comp del: mset_map)
    (simp add: o_def multiset.map_comp)

interpretation span_count: additive "\<lambda>rows :: span_row list. int (length rows)"
  by unfold_locales simp_all

interpretation error_count: additive "\<lambda>rows. int (length (filter sr_is_error rows))"
  by unfold_locales simp_all

interpretation duration_sum: additive "\<lambda>rows. sum_list (map sr_duration rows)"
  by unfold_locales simp_all

lemma sum_list_sort_key: "(\<Sum>x\<leftarrow>sort_key k xs. f x) = (\<Sum>x\<leftarrow>xs. f x :: int)"
proof -
  have "sum_mset (image_mset f (mset (sort_key k xs))) = sum_mset (image_mset f (mset xs))" by (simp only: mset_sort)
  then show ?thesis by (simp only: mset_map [symmetric] sum_mset_sum_list)
qed

lemma services_total: "(\<Sum>st\<leftarrow>list_services cast r rows. int (st_spans st)) = int (length (entries_in r rows))"
proof -
  have "(\<Sum>st\<leftarrow>list_services cast r rows. int (st_spans st)) =
      (\<Sum>st\<leftarrow>map (\<lambda>(svc, g). stats_of cast svc (max_runtime g) g) (group_by sr_service (entries_in r rows)). int (st_spans st))"
    by (simp add: list_services_def o_def sum_list_sort_key)
  also have "\<dots> = (\<Sum>(svc, g)\<leftarrow>group_by sr_service (entries_in r rows). int (length g))"
    by (simp add: o_def case_prod_unfold)
  finally show ?thesis by (simp only: span_count.regrouped)
qed

section \<open>Lemmas: series\<close>

lemma step_candidate: "c \<in> set step_candidates \<Longrightarrow> \<exists>n. 0 < n \<and> c = n * second"
  unfolding step_candidates_def by (auto intro: exI [of _ 1] exI [of _ 5] exI [of _ 15] exI [of _ 30] exI [of _ 60] exI [of _ 300]
    exI [of _ 900] exI [of _ 1800] exI [of _ 3600] exI [of _ 10800] exI [of _ 21600] exI [of _ 43200] exI [of _ 86400])

lemma default_step_spec:
  assumes "range_duration r \<le> 120 * (24 * hour)"
  shows "\<exists>n. 0 < n \<and> default_step r = n * second" and "range_duration r div 120 \<le> default_step r"
proof -
  have "range_duration r div 120 \<le> 24 * hour" using zdiv_mono1 [OF assms, of 120] by simp
  then have "find (\<lambda>c. range_duration r div target_points \<le> c) step_candidates \<noteq> None"
    by (auto simp: find_None_iff target_points_def step_candidates_def)
  then obtain c where c: "find (\<lambda>c. range_duration r div target_points \<le> c) step_candidates = Some c" by blast
  then have "c \<in> set step_candidates" "range_duration r div 120 \<le> c" by (auto simp: find_Some_iff target_points_def)
  then show "\<exists>n. 0 < n \<and> default_step r = n * second" "range_duration r div 120 \<le> default_step r"
    using step_candidate c by (auto simp: default_step_def)
qed

lemma div_less_factor: "0 < w \<Longrightarrow> x < n * w \<Longrightarrow> x div w < (n :: int)"
proof -
  assume "0 < w" and "x < n * w"
  then have "x div w * w < n * w" using div_mult_mod_eq [of x w] pos_mod_sign [of w x] by linarith
  then show ?thesis using \<open>0 < w\<close> by simp
qed

lemma bucket_count:
  assumes "0 < w" and "list_all (\<lambda>u. a \<le> u \<and> u < b) us"
  shows "length (remdups (map (time_bucket w) us)) \<le> nat ((b - 1 - a) div w + 2)"
proof (cases us)
  case (Cons v vs)
  let ?k = "\<lambda>u. (u - bucket_origin) div w"
  have "a \<le> b - 1" using assms(2) Cons by auto
  have "time_bucket w ` set us \<subseteq> (\<lambda>k. bucket_origin + w * k) ` {?k a .. ?k (b - 1)}"
  proof
    fix x assume "x \<in> time_bucket w ` set us"
    then obtain u where u: "u \<in> set us" "x = time_bucket w u" by blast
    then have "?k a \<le> ?k u" "?k u \<le> ?k (b - 1)" using assms by (auto simp: list_all_iff intro!: zdiv_mono1)
    then show "x \<in> (\<lambda>k. bucket_origin + w * k) ` {?k a .. ?k (b - 1)}" using u(2) unfolding time_bucket_alt by (intro image_eqI) simp_all
  qed
  then have "card (time_bucket w ` set us) \<le> card {?k a .. ?k (b - 1)}"
    by (meson card_image_le card_mono finite_atLeastAtMost_int finite_imageI order_trans)
  also have "\<dots> = nat (?k (b - 1) - ?k a + 1)" by simp
  also have "\<dots> \<le> nat ((b - 1 - a) div w + 2)"
  proof -
    have fl: "x div w * w \<le> x" "x < x div w * w + w" for x
      using assms(1) div_mult_mod_eq [of x w] pos_mod_sign [of w x] pos_mod_bound [of w x] by linarith+
    have "?k (b - 1) * w \<le> b - 1 - bucket_origin" "a - bucket_origin < ?k a * w + w" "b - 1 - a < (b - 1 - a) div w * w + w"
      by (rule fl)+
    then have "(?k (b - 1) - ?k a - (b - 1 - a) div w) * w < 2 * w" by (simp add: left_diff_distrib)
    then have "?k (b - 1) - ?k a - (b - 1 - a) div w < 2" using assms(1) by simp
    then show ?thesis by (intro nat_mono) linarith
  qed
  finally show ?thesis by (simp add: length_remdups_card_conv)
qed simp

lemma series_groups:
  "map fst (sort_key fst (group_by key rows)) = sort (remdups (map key rows))" for key :: "'r \<Rightarrow> int"
proof -
  have "map fst (sort_key fst (group_by key rows)) = sort (map fst (group_by key rows))"
    by (rule sym, rule properties_for_sort) simp_all
  then show ?thesis by (simp only: group_keys)
qed

section \<open>What the queries answer\<close>

text \<open>C24 (every request is counted once). A list of services has each service with requests in the range once, busiest
  first; the counts are those of its requests and add up to all of them, and the error rate is their quotient.\<close>

theorem services_exact:
  "distinct (map st_service (list_services cast r rows)) \<and>
   st_service ` set (list_services cast r rows) = sr_service ` set (entries_in r rows) \<and>
   (\<Sum>st\<leftarrow>list_services cast r rows. int (st_spans st)) = int (length (entries_in r rows)) \<and>
   sorted_wrt (\<lambda>s t. st_spans t \<le> st_spans s) (list_services cast r rows) \<and>
   list_all (\<lambda>st. st_spans st = length (filter (\<lambda>s. sr_service s = st_service st) (entries_in r rows)) \<and>
       st_errors st = length (filter (\<lambda>s. sr_service s = st_service st \<and> sr_is_error s) (entries_in r rows)) \<and>
       st_error_rate st * of_nat (st_spans st) = of_nat (st_errors st) \<and> 0 \<le> st_error_rate st \<and> st_error_rate st \<le> 1)
     (list_services cast r rows)"
proof -
  have "distinct (map st_service (list_services cast r rows))"
    using services_mset [of cast r rows] by (metis distinct_remdups mset_eq_imp_distinct_iff)
  moreover have "set (map st_service (list_services cast r rows)) = set (map sr_service (entries_in r rows))"
    using services_mset [of cast r rows] by (metis mset_eq_setD set_remdups)
  then have "st_service ` set (list_services cast r rows) = sr_service ` set (entries_in r rows)" by simp
  moreover have "sorted_wrt (\<lambda>s t. st_spans t \<le> st_spans s) (list_services cast r rows)"
  proof -
    have "sorted_wrt (\<lambda>s t. st_spans t \<le> st_spans s) (sort_key (\<lambda>st. - int (st_spans st)) xs)" for xs
      using sorted_sort_key [of "\<lambda>st. - int (st_spans st)" xs] by (simp add: sorted_map)
    then show ?thesis by (simp add: list_services_def sorted_wrt_map)
  qed
  moreover have "list_all (\<lambda>st. st_spans st = length (filter (\<lambda>s. sr_service s = st_service st) (entries_in r rows)) \<and>
       st_errors st = length (filter (\<lambda>s. sr_service s = st_service st \<and> sr_is_error s) (entries_in r rows)) \<and>
       st_error_rate st * of_nat (st_spans st) = of_nat (st_errors st) \<and> 0 \<le> st_error_rate st \<and> st_error_rate st \<le> 1)
     (list_services cast r rows)"
    unfolding list_all_iff
  proof
    fix st assume "st \<in> set (list_services cast r rows)"
    then obtain svc g where g: "g = filter (\<lambda>s. sr_service s = svc) (entries_in r rows)"
      "st = finalize (range_seconds r) (stats_of cast svc (max_runtime g) g)" "g \<noteq> []"
      by (rule list_services_group)
    have le: "length (filter sr_is_error g) \<le> length g" by (rule length_filter_le)
    have pos: "0 < length g" using g(3) by simp
    have "st_error_rate st = of_nat (length (filter sr_is_error g)) / of_nat (length g)" using g(2) pos by simp
    then show "st_spans st = length (filter (\<lambda>s. sr_service s = st_service st) (entries_in r rows)) \<and>
       st_errors st = length (filter (\<lambda>s. sr_service s = st_service st \<and> sr_is_error s) (entries_in r rows)) \<and>
       st_error_rate st * of_nat (st_spans st) = of_nat (st_errors st) \<and> 0 \<le> st_error_rate st \<and> st_error_rate st \<le> 1"
      using g(2) le pos by (simp add: g(1) divide_le_eq conj_commute)
  qed
  ultimately show ?thesis using services_total by blast
qed

text \<open>(latencies are ordered) However fractions are cast, as long as the cast keeps their order and whole numbers, the
  median is at most the 95th percentile, that at most the 99th, and that at most the maximum.\<close>

theorem latencies_ordered:
  assumes "mono cast" and "\<And>i. cast (of_int i) = i"
  shows "list_all (\<lambda>st. st_p50 st \<le> st_p95 st \<and> st_p95 st \<le> st_p99 st \<and> st_p99 st \<le> st_max st) (list_services cast r rows)"
  unfolding list_all_iff
proof
  fix st assume "st \<in> set (list_services cast r rows)"
  then obtain svc g where g: "st = finalize (range_seconds r) (stats_of cast svc (max_runtime g) g)" "g \<noteq> []"
    by (rule list_services_group)
  then have ne: "map sr_duration g \<noteq> []" by simp
  have "cast (quantile_cont (99 / 100) (map sr_duration g)) \<le> cast (of_int (Max (set (map sr_duration g))))"
    using quantile_cont_max [OF _ _ ne] by (intro monoD [OF assms(1)]) simp
  then show "st_p50 st \<le> st_p95 st \<and> st_p95 st \<le> st_p99 st \<and> st_p99 st \<le> st_max st"
    using g(1) quantile_cont_mono [OF _ _ _ ne] by (simp add: stats_of_def Let_def assms(2) monoD [OF assms(1)])
qed

theorem latencies_ordered_witness:
  "list_all (\<lambda>st. st_p50 st \<le> st_p95 st \<and> st_p95 st \<le> st_p99 st \<and> st_p99 st \<le> st_max st)
     (list_services floor \<lparr>rg_from = 0, rg_to = 1000000\<rparr> [row_at 3, row_at 5])"
  by (rule latencies_ordered) (simp_all add: mono_def floor_mono)


lemma series_times:
  "map pt_ts (time_series cast svc r step rows) =
     map of_micros (sort (remdups (map (\<lambda>s. time_bucket (step_width (chosen_step step r)) (sr_ts s))
       (filter (\<lambda>s. svc = [] \<or> sr_service s = svc) (entries_in r rows)))))"
  by (simp add: time_series_def Let_def o_def case_prod_unfold point_of_def flip: series_groups)

text \<open>(a chart counts every request once) The points of a time series have strictly increasing times, and their
  counts add up to the requests of the service, or of all services, in the range.\<close>

theorem series_exact:
  "sorted_wrt (<) (map pt_ts (time_series cast svc r step rows)) \<and>
   (\<Sum>p\<leftarrow>time_series cast svc r step rows. int (pt_count p)) =
     int (length (filter (\<lambda>s. svc = [] \<or> sr_service s = svc) (entries_in r rows)))"
proof -
  let ?w = "step_width (chosen_step step r)"
  let ?picked = "filter (\<lambda>s. svc = [] \<or> sr_service s = svc) (entries_in r rows)"
  have "sorted_wrt (<) (sort (remdups (map (\<lambda>s. time_bucket ?w (sr_ts s)) ?picked)))"
    by (simp add: strict_sorted_iff)
  then have "sorted_wrt (<) (map pt_ts (time_series cast svc r step rows))"
    unfolding series_times sorted_wrt_map by (rule sorted_wrt_mono_rel [rotated]) (simp add: of_micros_def)
  moreover have "(\<Sum>p\<leftarrow>time_series cast svc r step rows. int (pt_count p)) =
      (\<Sum>(b, g)\<leftarrow>group_by (\<lambda>s. time_bucket ?w (sr_ts s)) ?picked. int (length g))"
    by (simp add: time_series_def Let_def o_def case_prod_unfold point_of_def sum_list_sort_key)
  ultimately show ?thesis by (simp only: span_count.regrouped)
qed

lemma series_length:
  assumes "range_duration r \<le> 120 * (24 * hour)"
  shows "length (time_series cast svc r 0 rows) \<le> 122"
proof -
  let ?picked = "filter (\<lambda>s. svc = [] \<or> sr_service s = svc) (entries_in r rows)"
  obtain n where n: "0 < n" "default_step r = n * second" using default_step_spec(1) [OF assms] by blast
  then have w: "step_width (chosen_step 0 r) = n * 1000000" by (simp add: step_width_def chosen_step_def)
  have "length (time_series cast svc r 0 rows) = length (map pt_ts (time_series cast svc r 0 rows))" by simp
  also have "\<dots> = length (remdups (map (time_bucket (n * 1000000)) (map sr_ts ?picked)))"
    unfolding series_times w by (simp add: o_def)
  also have "\<dots> \<le> nat ((micros (rg_to r) - 1 - micros (rg_from r)) div (n * 1000000) + 2)"
    by (rule bucket_count) (use n in \<open>auto simp: list_all_iff entries_in_def in_range_def\<close>)
  also have "\<dots> \<le> 122"
  proof -
    have "rg_to r - rg_from r \<le> range_duration r"
      using assms by (auto simp: range_duration_def time_sub_def min_def max_def split: if_splits)
    moreover have "range_duration r < 120 * (n * second) + 120"
      using default_step_spec(2) [OF assms] n(2) div_mult_mod_eq [of "range_duration r" 120]
        pos_mod_bound [of 120 "range_duration r"] by linarith
    ultimately have "rg_to r - rg_from r < 120 * (n * second) + 120" by linarith
    then have "micros (rg_to r) - 1 - micros (rg_from r) < 121 * (n * 1000000)"
      unfolding micros_def using n(1) by linarith
    then have "(micros (rg_to r) - 1 - micros (rg_from r)) div (n * 1000000) < 121"
      using n(1) by (intro div_less_factor) simp_all
    then show ?thesis by linarith
  qed
  finally show ?thesis .
qed

text \<open>(a chart has few points) Without a step of its own, a chart of up to 120 days has at most 122 points.\<close>

theorem series_bounded:
  assumes "range_duration r \<le> 120 * (24 * hour)"
  shows "length (time_series cast svc r 0 rows) \<le> 122"
  by (rule series_length [OF assms])

theorem series_bounded_witness:
  "length (time_series floor [] \<lparr>rg_from = 0, rg_to = 30 * (24 * hour)\<rparr> 0 [row_at 3, row_at 5]) \<le> 122"
  by (rule series_bounded) (simp add: range_duration_def time_sub_def)

text \<open>(the map joins different services) Every edge of the service map has calls, joins two different services and
  occurs once, with an error rate between zero and one.\<close>

theorem edges_sound:
  "distinct (map (\<lambda>d. (dp_caller d, dp_callee d)) (dependencies cast r rows)) \<and>
   list_all (\<lambda>d. dp_caller d \<noteq> dp_callee d \<and> 0 < dp_calls d \<and> dp_errors d \<le> dp_calls d \<and> 0 \<le> dp_error_rate d \<and>
       dp_error_rate d \<le> 1 \<and>
       dp_calls d = length (filter (\<lambda>p. call_key p = (dp_caller d, dp_callee d)) (cross_calls (in_range r) rows)))
     (dependencies cast r rows)"
proof -
  let ?gs = "group_by call_key (cross_calls (in_range r) rows)"
  let ?ds = "map (\<lambda>(key, g). dependency_of cast key g) ?gs"
  let ?srt = "sort_key (\<lambda>d. - int (dp_calls d)) ?ds"
  have "map (\<lambda>d. (dp_caller d, dp_callee d)) ?ds = map fst ?gs" by (simp add: dependency_of_def case_prod_unfold)
  then have "distinct (map (\<lambda>d. (dp_caller d, dp_callee d)) ?ds)" by (simp only: group_distinct)
  moreover have "mset (map (\<lambda>d. (dp_caller d, dp_callee d)) ?srt) = mset (map (\<lambda>d. (dp_caller d, dp_callee d)) ?ds)"
    by (simp only: mset_map mset_sort)
  ultimately have "distinct (map (\<lambda>d. (dp_caller d, dp_callee d)) ?srt)" by (simp only: mset_eq_imp_distinct_iff [of "map _ ?srt"])
  then have d: "distinct (map (\<lambda>d. (dp_caller d, dp_callee d)) (dependencies cast r rows))"
    unfolding dependencies_def take_map [symmetric] by (rule distinct_take)
  have "dp_caller d \<noteq> dp_callee d \<and> 0 < dp_calls d \<and> dp_errors d \<le> dp_calls d \<and> 0 \<le> dp_error_rate d \<and>
       dp_error_rate d \<le> 1 \<and>
       dp_calls d = length (filter (\<lambda>p. call_key p = (dp_caller d, dp_callee d)) (cross_calls (in_range r) rows))"
    if mem: "d \<in> set (dependencies cast r rows)" for d
  proof -
    have "d \<in> set ?ds" using mem unfolding dependencies_def by (auto dest!: in_set_takeD)
    then obtain key g where g: "(key, g) \<in> set ?gs" "d = dependency_of cast key g" by auto
    have ne: "0 < length g" using group_nonempty [OF g(1)] by simp
    have le: "length (filter (\<lambda>p. sr_is_error (fst p)) g) \<le> length g" by (rule length_filter_le)
    have k: "key \<in> call_key ` set (cross_calls (in_range r) rows)"
      "g = filter (\<lambda>p. call_key p = key) (cross_calls (in_range r) rows)" using g(1) by (simp_all add: in_group_by)
    have "fst key \<noteq> snd key" using k(1) by (auto simp: cross_calls_def call_key_def)
    moreover have "dp_caller d = fst key" "dp_callee d = snd key" "dp_calls d = length g"
      "dp_errors d = length (filter (\<lambda>p. sr_is_error (fst p)) g)"
      "dp_error_rate d = of_nat (dp_errors d) / of_nat (dp_calls d)"
      using ne by (simp_all add: g(2) dependency_of_def)
    moreover from this ne le have "0 \<le> dp_error_rate d" "dp_error_rate d \<le> 1" by (simp_all add: divide_le_eq)
    moreover have "length g = length (filter (\<lambda>p. call_key p = (fst key, snd key)) (cross_calls (in_range r) rows))"
      using arg_cong [OF k(2), of length] by simp
    ultimately show ?thesis using ne le by metis
  qed
  with d show ?thesis unfolding list_all_iff by blast
qed

text \<open>(sub_second_step) A step of less than a second is rendered as an interval of no length; the step comes from
  the request.\<close>

theorem sub_second_step: "interval_literal 500000000 = [CHR 0x27] @ ''0 seconds'' @ [CHR 0x27]"
  by code_simp

end
