(* ===== verification/Metric_Store.thy ===== *)
theory Metric_Store
  imports Service_Queries Config
begin

text \<open>
  The table of metrics: writing (\<open>internal/store/writer_metrics.go\<close>) and the queries that chart them
  (\<open>query_metrics.go\<close>).  The JSON text of a set of attributes is the argument \<open>enc\<close>, reading it back the
  argument \<open>dec\<close>; the empty set is stored as NULL.
\<close>

section \<open>Writing\<close>

record metric_row =
  mr_ts :: int
  mr_name :: string
  mr_kind :: int
  mr_service :: string
  mr_host :: "string option"
  mr_pid :: "int option"
  mr_value :: f64
  mr_count :: "int option"
  mr_sum :: f64
  mr_buckets :: "bucket_json list option"
  mr_unit :: "string option"
  mr_attributes :: "string option"

definition metric_kind_value :: "metric_kind \<Rightarrow> int" where
  "metric_kind_value k = (case k of KindGauge \<Rightarrow> 0 | KindSum \<Rightarrow> 1 | KindHistogram \<Rightarrow> 2)"

definition nullable_uint64 :: "64 word \<Rightarrow> int option" where
  "nullable_uint64 n = (if n = 0 then None else Some (sint n))"

text \<open>The buckets as a whole: one that cannot be encoded spoils the list.\<close>

fun marshal_buckets :: "bucket list \<Rightarrow> bucket_json list option" where
  "marshal_buckets [] = Some []"
| "marshal_buckets (b # bs) =
     (case (marshal_bucket b, marshal_buckets bs) of (Some j, Some js) \<Rightarrow> Some (j # js) | _ \<Rightarrow> None)"

definition metric_row_of :: "((string \<rightharpoonup> string) \<Rightarrow> string) \<Rightarrow> metric \<Rightarrow> metric_row option" where
  "metric_row_of enc m =
     (case (if m_buckets m = [] then Some None else map_option Some (marshal_buckets (m_buckets m))) of
        None \<Rightarrow> None
      | Some bs \<Rightarrow>
          Some \<lparr>mr_ts = micros (m_timestamp m), mr_name = m_name m, mr_kind = metric_kind_value (m_kind m),
            mr_service = m_service m, mr_host = nullable_string (m_host_name m), mr_pid = nullable_int32 (m_pid m),
            mr_value = m_value m, mr_count = nullable_uint64 (m_count m), mr_sum = m_sum m, mr_buckets = bs,
            mr_unit = nullable_string (m_unit m),
            mr_attributes = (if m_attributes m = Map.empty then None else Some (enc (m_attributes m)))\<rparr>)"

text \<open>A metric that cannot be encoded is skipped.\<close>

definition write_metrics ::
  "((string \<rightharpoonup> string) \<Rightarrow> string) \<Rightarrow> write_outcome \<Rightarrow> metric list \<Rightarrow> metric_row list \<Rightarrow> metric_row list \<times> bool" where
  "write_metrics enc out ms rows =
     (if ms = [] then (rows, True)
      else case out of
             Flushed \<Rightarrow> (rows @ List.map_filter (metric_row_of enc) ms, True)
           | Broken kept \<Rightarrow> (rows @ take kept (List.map_filter (metric_row_of enc) ms), False))"

section \<open>Arithmetic on float64\<close>

fun f64_add :: "f64 \<Rightarrow> f64 \<Rightarrow> f64" where
  "f64_add (Fin a) (Fin b) = Fin (a + b)"
| "f64_add NaN _ = NaN"
| "f64_add _ NaN = NaN"
| "f64_add PosInf NegInf = NaN"
| "f64_add NegInf PosInf = NaN"
| "f64_add PosInf _ = PosInf"
| "f64_add NegInf _ = NegInf"
| "f64_add (Fin a) PosInf = PosInf"
| "f64_add (Fin a) NegInf = NegInf"

fun f64_neg :: "f64 \<Rightarrow> f64" where
  "f64_neg (Fin a) = Fin (- a)"
| "f64_neg PosInf = NegInf"
| "f64_neg NegInf = PosInf"
| "f64_neg NaN = NaN"

definition f64_sub :: "f64 \<Rightarrow> f64 \<Rightarrow> f64" where
  "f64_sub a b = f64_add a (f64_neg b)"

text \<open>Division by a positive whole number.\<close>

fun f64_over :: "f64 \<Rightarrow> rat \<Rightarrow> f64" where
  "f64_over (Fin a) n = Fin (a / n)"
| "f64_over x n = x"

definition f64_sum :: "f64 list \<Rightarrow> f64" where
  "f64_sum xs = foldl f64_add (Fin 0) xs"

section \<open>Querying\<close>

definition stored_metric_kind :: "int \<Rightarrow> string" where
  "stored_metric_kind k = (if k = 1 then ''sum'' else if k = 2 then ''histogram'' else ''gauge'')"

record metric_series =
  se_name :: string
  se_kind :: string
  se_unit :: string
  se_labels :: "string \<rightharpoonup> string"
  se_points :: "(gotime \<times> f64) list"

text \<open>A row of the statement's result: one set of attributes in one bucket.\<close>

record metric_group =
  mg_attributes :: "string option"
  mg_kind :: int
  mg_unit :: "string option"
  mg_bucket :: int
  mg_avg :: f64
  mg_last :: f64
  mg_hist_sum :: f64
  mg_hist_count :: int

definition metric_group_of :: "string option \<times> int \<Rightarrow> metric_row list \<Rightarrow> metric_group" where
  "metric_group_of key g =
     \<lparr>mg_attributes = fst key, mg_kind = mr_kind (hd g), mg_unit = mr_unit (hd g), mg_bucket = snd key,
      mg_avg = f64_over (f64_sum (map mr_value g)) (of_nat (length g)),
      mg_last = mr_value (last (sort_key mr_ts g)), mg_hist_sum = f64_sum (map mr_sum g),
      mg_hist_count = (\<Sum>c\<leftarrow>List.map_filter mr_count g. c)\<rparr>"

definition metric_groups :: "string \<Rightarrow> string \<Rightarrow> time_range \<Rightarrow> duration \<Rightarrow> metric_row list \<Rightarrow> metric_group list" where
  "metric_groups svc name r step rows =
     map (\<lambda>(key, g). metric_group_of key g)
       (sort_key (\<lambda>(key, g). (fst key = None, null_string (fst key), snd key))
         (group_by (\<lambda>m. (mr_attributes m, time_bucket (step_width step) (mr_ts m)))
           (filter (\<lambda>m. in_range r (mr_ts m) \<and> mr_service m = svc \<and> mr_name m = name) rows)))"

definition decode_attributes :: "(string \<Rightarrow> (string \<rightharpoonup> string) option) \<Rightarrow> string option \<Rightarrow> (string \<rightharpoonup> string)" where
  "decode_attributes dec raw =
     (case raw of
        None \<Rightarrow> Map.empty
      | Some s \<Rightarrow> if s = [] then Map.empty else (case dec s of None \<Rightarrow> Map.empty | Some m \<Rightarrow> m))"

text \<open>The loop's state: the series so far, the last of them current; the key they go by; and the last total.\<close>

record series_state =
  ss_out :: "metric_series list"
  ss_key :: string
  ss_total :: "f64 option"

definition add_point :: "gotime \<times> f64 \<Rightarrow> metric_series list \<Rightarrow> metric_series list" where
  "add_point p out = butlast out @ [(last out)\<lparr>se_points := se_points (last out) @ [p]\<rparr>]"

definition group_value :: "metric_group \<Rightarrow> f64" where
  "group_value g =
     (if stored_metric_kind (mg_kind g) = ''histogram''
      then if 0 < mg_hist_count g then f64_over (mg_hist_sum g) (of_int (mg_hist_count g)) else Fin 0
      else mg_avg g)"

definition series_step :: "(string \<Rightarrow> (string \<rightharpoonup> string) option) \<Rightarrow> string \<Rightarrow> series_state \<Rightarrow> metric_group \<Rightarrow> series_state" where
  "series_step dec name s g =
     (let s1 = (if ss_out s = [] \<or> null_string (mg_attributes g) \<noteq> ss_key s
                then \<lparr>ss_out = ss_out s @ [\<lparr>se_name = name, se_kind = stored_metric_kind (mg_kind g),
                        se_unit = null_string (mg_unit g), se_labels = decode_attributes dec (mg_attributes g), se_points = []\<rparr>],
                      ss_key = null_string (mg_attributes g), ss_total = None\<rparr>
                else s)
      in if stored_metric_kind (mg_kind g) = ''sum''
         then (case ss_total s1 of
                 None \<Rightarrow> s1\<lparr>ss_total := Some (mg_last g)\<rparr>
               | Some before \<Rightarrow>
                   let delta = f64_sub (mg_last g) before; s2 = s1\<lparr>ss_total := Some (mg_last g)\<rparr>
                   in if f64_less delta (Fin 0) then s2
                      else s2\<lparr>ss_out := add_point (of_micros (mg_bucket g), delta) (ss_out s2)\<rparr>)
         else s1\<lparr>ss_out := add_point (of_micros (mg_bucket g), group_value g) (ss_out s1)\<rparr>)"

definition series_loop :: "(string \<Rightarrow> (string \<rightharpoonup> string) option) \<Rightarrow> string \<Rightarrow> metric_group list \<Rightarrow> metric_series list" where
  "series_loop dec name gs = ss_out (foldl (series_step dec name) \<lparr>ss_out = [], ss_key = [], ss_total = None\<rparr> gs)"

definition query_metric ::
  "(string \<Rightarrow> (string \<rightharpoonup> string) option) \<Rightarrow> string \<Rightarrow> string \<Rightarrow> time_range \<Rightarrow> duration \<Rightarrow> metric_row list \<Rightarrow> metric_series list" where
  "query_metric dec svc name r step rows = series_loop dec name (metric_groups svc name r (chosen_step step r) rows)"

record metric_name =
  mn_name :: string
  mn_kind :: string
  mn_unit :: string
  mn_series :: nat

definition list_metric_names :: "string \<Rightarrow> time_range \<Rightarrow> metric_row list \<Rightarrow> metric_name list" where
  "list_metric_names svc r rows =
     map (\<lambda>(name, g). \<lparr>mn_name = name, mn_kind = stored_metric_kind (mr_kind (hd g)), mn_unit = null_string (mr_unit (hd g)),
            mn_series = card (null_string ` mr_attributes ` set g)\<rparr>)
       (sort_key fst (group_by mr_name (filter (\<lambda>m. in_range r (mr_ts m) \<and> mr_service m = svc) rows)))"


section \<open>The series a result stands for\<close>

definition group_key :: "metric_group \<Rightarrow> string" where
  "group_key g = null_string (mg_attributes g)"

definition is_counter :: "metric_group \<Rightarrow> bool" where
  "is_counter g \<longleftrightarrow> stored_metric_kind (mg_kind g) = ''sum''"

text \<open>The points of one series: a counter's increases from one bucket to the next, any other value as it is.\<close>

fun points_from :: "f64 option \<Rightarrow> metric_group list \<Rightarrow> (gotime \<times> f64) list" where
  "points_from before [] = []"
| "points_from before (g # gs) =
     (if is_counter g
      then (case before of
              None \<Rightarrow> []
            | Some b \<Rightarrow> if f64_less (f64_sub (mg_last g) b) (Fin 0) then []
                        else [(of_micros (mg_bucket g), f64_sub (mg_last g) b)]) @ points_from (Some (mg_last g)) gs
      else (of_micros (mg_bucket g), group_value g) # points_from before gs)"

fun total_after :: "f64 option \<Rightarrow> metric_group list \<Rightarrow> f64 option" where
  "total_after before [] = before"
| "total_after before (g # gs) = total_after (if is_counter g then Some (mg_last g) else before) gs"

definition series_of :: "(string \<Rightarrow> (string \<rightharpoonup> string) option) \<Rightarrow> string \<Rightarrow> metric_group list \<Rightarrow> metric_series" where
  "series_of dec name gs =
     \<lparr>se_name = name, se_kind = stored_metric_kind (mg_kind (hd gs)), se_unit = null_string (mg_unit (hd gs)),
      se_labels = decode_attributes dec (mg_attributes (hd gs)), se_points = points_from None gs\<rparr>"

section \<open>Lemmas: the loop\<close>

definition more_points :: "(gotime \<times> f64) list \<Rightarrow> metric_series list \<Rightarrow> metric_series list" where
  "more_points ps out = butlast out @ [(last out)\<lparr>se_points := se_points (last out) @ ps\<rparr>]"

lemma more_points_nil [simp]: "out \<noteq> [] \<Longrightarrow> more_points [] out = out"
  by (simp add: more_points_def)

lemma more_points_nonempty [simp]: "more_points ps out \<noteq> []"
  by (simp add: more_points_def)

lemma add_point_more: "add_point p out = more_points [p] out"
  by (simp add: add_point_def more_points_def)

lemma more_points_more [simp]: "more_points qs (more_points ps out) = more_points (ps @ qs) out"
  by (simp add: more_points_def)

lemma same_key_step:
  assumes "ss_out s \<noteq> []" and "group_key g = ss_key s"
  shows "series_step dec name s g =
    \<lparr>ss_out = more_points (points_from (ss_total s) [g]) (ss_out s), ss_key = ss_key s, ss_total = total_after (ss_total s) [g]\<rparr>"
  using assms
  by (auto simp: series_step_def group_key_def is_counter_def Let_def add_point_more split: option.splits)

lemma points_append: "points_from b (gs @ hs) = points_from b gs @ points_from (total_after b gs) hs"
  by (induction gs arbitrary: b) simp_all

lemma same_key_run:
  assumes "ss_out s \<noteq> []" and "list_all (\<lambda>g. group_key g = ss_key s) gs"
  shows "foldl (series_step dec name) s gs =
    \<lparr>ss_out = more_points (points_from (ss_total s) gs) (ss_out s), ss_key = ss_key s, ss_total = total_after (ss_total s) gs\<rparr>"
  using assms
proof (induction gs arbitrary: s)
  case (Cons g gs)
  note g = same_key_step [of s g dec name]
  show ?case
    using Cons.prems Cons.IH [of "series_step dec name s g"] points_append [of "ss_total s" "[g]" gs] by (simp add: g)
qed simp

lemma new_key_step:
  assumes "ss_out s = [] \<or> group_key g \<noteq> ss_key s"
  shows "series_step dec name s g =
    \<lparr>ss_out = ss_out s @ [series_of dec name [g]], ss_key = group_key g, ss_total = total_after None [g]\<rparr>"
  using assms
  by (auto simp: series_step_def group_key_def is_counter_def Let_def add_point_def series_of_def)

function runs :: "metric_group list \<Rightarrow> metric_group list list" where
  "runs [] = []"
| "runs (g # gs) =
     (g # takeWhile (\<lambda>h. group_key h = group_key g) gs) # runs (dropWhile (\<lambda>h. group_key h = group_key g) gs)"
  by pat_completeness auto
termination by (relation "measure length") (auto simp: le_imp_less_Suc length_dropWhile_le)

lemma series_of_run:
  assumes "out' = out @ [series_of dec name [g]]"
  shows "more_points (points_from (total_after None [g]) gs) out' = out @ [series_of dec name (g # gs)]"
  unfolding assms more_points_def series_of_def using points_append [of None "[g]" gs] by simp

lemma loop_runs:
  assumes "ss_out s = [] \<or> gs = [] \<or> group_key (hd gs) \<noteq> ss_key s"
  shows "ss_out (foldl (series_step dec name) s gs) = ss_out s @ map (series_of dec name) (runs gs)"
  using assms
proof (induction gs arbitrary: s rule: runs.induct)
  case (2 g gs)
  let ?same = "\<lambda>h. group_key h = group_key g"
  have first: "series_step dec name s g =
      \<lparr>ss_out = ss_out s @ [series_of dec name [g]], ss_key = group_key g, ss_total = total_after None [g]\<rparr>"
    using 2(2) by (intro new_key_step) auto
  have run: "foldl (series_step dec name) (series_step dec name s g) (takeWhile ?same gs) =
      \<lparr>ss_out = ss_out s @ [series_of dec name (g # takeWhile ?same gs)], ss_key = group_key g,
       ss_total = total_after (total_after None [g]) (takeWhile ?same gs)\<rparr>"
  proof -
    have "list_all ?same (takeWhile ?same gs)" by (auto simp: list_all_iff dest: set_takeWhileD)
    then show ?thesis unfolding first
      by (subst same_key_run) (simp_all add: series_of_run [OF refl] del: total_after.simps)
  qed
  have "foldl (series_step dec name) s (g # gs) =
      foldl (series_step dec name) (series_step dec name s g) (takeWhile ?same gs @ dropWhile ?same gs)" by simp
  also have "\<dots> = foldl (series_step dec name) (foldl (series_step dec name) (series_step dec name s g) (takeWhile ?same gs))
      (dropWhile ?same gs)" by (rule foldl_append)
  finally have e: "foldl (series_step dec name) s (g # gs) = foldl (series_step dec name)
      \<lparr>ss_out = ss_out s @ [series_of dec name (g # takeWhile ?same gs)], ss_key = group_key g,
       ss_total = total_after (total_after None [g]) (takeWhile ?same gs)\<rparr> (dropWhile ?same gs)" unfolding run .
  have "ss_out (foldl (series_step dec name)
      \<lparr>ss_out = ss_out s @ [series_of dec name (g # takeWhile ?same gs)], ss_key = group_key g,
       ss_total = total_after (total_after None [g]) (takeWhile ?same gs)\<rparr> (dropWhile ?same gs)) =
      (ss_out s @ [series_of dec name (g # takeWhile ?same gs)]) @ map (series_of dec name) (runs (dropWhile ?same gs))"
    using hd_dropWhile [of ?same gs] by (subst 2(1)) auto
  then have "ss_out (foldl (series_step dec name) s (g # gs)) =
      (ss_out s @ [series_of dec name (g # takeWhile ?same gs)]) @ map (series_of dec name) (runs (dropWhile ?same gs))"
    unfolding e .
  then show ?case by simp
qed simp

text \<open>Runs of equal keys are whole groups where the keys are clustered.\<close>

fun clustered :: "'k list \<Rightarrow> bool" where
  "clustered [] = True"
| "clustered (k # ks) \<longleftrightarrow> k \<notin> set (dropWhile (\<lambda>j. j = k) ks) \<and> clustered ks"

lemma clustered_dropWhile: "clustered ks \<Longrightarrow> clustered (dropWhile p ks)"
  by (induction ks) auto

lemma clustered_runs:
  "clustered (map group_key gs) \<Longrightarrow>
     runs gs = map (\<lambda>k. filter (\<lambda>g. group_key g = k) gs) (remdups_adj (map group_key gs)) \<and>
     distinct (remdups_adj (map group_key gs))"
proof (induction gs rule: runs.induct)
  case (2 g gs)
  let ?same = "\<lambda>h. group_key h = group_key g" and ?rest = "dropWhile (\<lambda>h. group_key h = group_key g) gs"
  have drop: "dropWhile (\<lambda>j. j = group_key g) (map group_key gs) = map group_key ?rest"
    by (simp add: dropWhile_map o_def)
  have c: "group_key g \<notin> group_key ` set ?rest" "clustered (map group_key ?rest)"
    using 2(2) clustered_dropWhile [of "map group_key gs" "\<lambda>j. j = group_key g"] by (simp_all add: drop)
  have adj: "remdups_adj (map group_key (g # gs)) = group_key g # remdups_adj (map group_key ?rest)"
    by (simp add: remdups_adj_Cons' drop)
  have own: "filter ?same (g # gs) = g # takeWhile ?same gs"
  proof -
    have "filter ?same (takeWhile ?same gs) = takeWhile ?same gs" by (intro filter_True) (auto dest: set_takeWhileD)
    moreover have "filter ?same ?rest = []" by (rule filter_False) (metis c(1) image_eqI)
    ultimately have "filter ?same (takeWhile ?same gs @ ?rest) = takeWhile ?same gs" by (simp only: filter_append append_Nil2)
    then show ?thesis by simp
  qed
  have others: "filter (\<lambda>h. group_key h = k) (g # gs) = filter (\<lambda>h. group_key h = k) ?rest"
    if "k \<in> group_key ` set ?rest" for k
  proof -
    have ne: "k \<noteq> group_key g" using that c(1) by blast
    have "filter (\<lambda>h. group_key h = k) gs = filter (\<lambda>h. group_key h = k) (takeWhile ?same gs @ ?rest)" by simp
    then show ?thesis unfolding filter_append using ne by (auto simp: filter_empty_conv dest: set_takeWhileD)
  qed
  note ih = 2(1) [OF c(2)]
  have "map (\<lambda>k. filter (\<lambda>h. group_key h = k) (g # gs)) (remdups_adj (map group_key ?rest)) = runs ?rest"
    using ih others by (simp del: filter.simps cong: map_cong)
  then show ?case using own ih c(1) unfolding adj by (simp del: filter.simps)
qed simp


lemma sorted_clustered:
  "sorted (map p gs) \<Longrightarrow> (\<And>g h. g \<in> set gs \<Longrightarrow> h \<in> set gs \<Longrightarrow> group_key g = group_key h \<longleftrightarrow> p g = p h) \<Longrightarrow>
     clustered (map group_key gs)" for p :: "metric_group \<Rightarrow> 'p :: linorder"
proof (induction gs)
  case (Cons g gs)
  have "group_key g \<noteq> group_key h" if mem: "h \<in> set (dropWhile (\<lambda>h. group_key h = group_key g) gs)" for h
  proof
    assume eq: "group_key g = group_key h"
    obtain f fs where f: "dropWhile (\<lambda>h. group_key h = group_key g) gs = f # fs" using mem by (cases "dropWhile (\<lambda>h. group_key h = group_key g) gs") auto
    then have "group_key f \<noteq> group_key g" by (metis (mono_tags, lifting) dropWhile_eq_Cons_conv)
    have sub: "f \<in> set gs" "h \<in> set gs" using f mem by (metis list.set_intros(1) set_dropWhileD)+
    have "sorted (map p (f # fs))" using Cons.prems(1) f by (metis list.simps(9) sorted_simps(2) sorted_wrt_dropWhile sorted_map)
    then have "p f \<le> p h" using mem unfolding f by auto
    moreover have "p g \<le> p f" "p g = p h" using Cons.prems sub eq by auto
    ultimately have "p f = p g" by simp
    then show False using Cons.prems(2) [of g f] sub \<open>group_key f \<noteq> group_key g\<close> by simp
  qed
  then have "group_key g \<notin> set (dropWhile (\<lambda>j. j = group_key g) (map group_key gs))"
    by (auto simp: dropWhile_map o_def)
  then show ?case using Cons by simp
qed simp


lemma metric_groups_clustered:
  assumes "list_all (\<lambda>m. mr_attributes m \<noteq> Some []) rows"
  shows "clustered (map group_key (metric_groups svc name r step rows))"
proof (rule sorted_clustered)
  let ?p = "\<lambda>g. (mg_attributes g = None, null_string (mg_attributes g))"
  let ?gs = "group_by (\<lambda>m. (mr_attributes m, time_bucket (step_width step) (mr_ts m)))
      (filter (\<lambda>m. in_range r (mr_ts m) \<and> mr_service m = svc \<and> mr_name m = name) rows)"
  let ?k = "\<lambda>(key, g). (fst key = None, null_string (fst key), snd key)"
  have "sorted_wrt (\<lambda>a b. ?k a \<le> ?k b) (sort_key ?k ?gs)" using sorted_sort_key [of ?k ?gs] by (simp only: sorted_map)
  then have "sorted_wrt (\<lambda>a b. ?p (metric_group_of (fst a) (snd a)) \<le> ?p (metric_group_of (fst b) (snd b))) (sort_key ?k ?gs)"
    by (rule sorted_wrt_mono_rel [rotated]) (auto simp: metric_group_of_def)
  then show "sorted (map ?p (metric_groups svc name r step rows))"
    by (simp add: metric_groups_def sorted_map sorted_wrt_map case_prod_unfold)
  have attr: "mg_attributes g \<noteq> Some []" if mem: "g \<in> set (metric_groups svc name r step rows)" for g
  proof -
    obtain a b rs where "((a, b), rs) \<in> set ?gs" "g = metric_group_of (a, b) rs"
      using mem by (auto simp: metric_groups_def)
    then show ?thesis using assms by (auto simp: in_group_by metric_group_of_def list_all_iff)
  qed
  fix g h assume "g \<in> set (metric_groups svc name r step rows)" and "h \<in> set (metric_groups svc name r step rows)"
  then show "group_key g = group_key h \<longleftrightarrow> ?p g = ?p h"
    using attr [of g] attr [of h] by (auto simp: group_key_def null_string_def split: option.splits)
qed

section \<open>Metrics in and out of the store\<close>

definition encodable :: "metric \<Rightarrow> bool" where
  "encodable m \<longleftrightarrow> list_all (\<lambda>b. upper_bound b \<noteq> NaN \<and> upper_bound b \<noteq> NegInf) (m_buckets m)"

lemma marshal_buckets_some: "marshal_buckets bs \<noteq> None \<longleftrightarrow> list_all (\<lambda>b. upper_bound b \<noteq> NaN \<and> upper_bound b \<noteq> NegInf) bs"
  by (induction bs) (auto simp: marshal_bucket_def split: f64.splits option.splits if_splits)

lemma metric_row_some: "metric_row_of enc m \<noteq> None \<longleftrightarrow> encodable m"
  unfolding encodable_def marshal_buckets_some [symmetric] metric_row_of_def
  by (cases "m_buckets m = []") (auto split: option.splits)

lemma metric_rows: "List.map_filter (metric_row_of enc) ms = map (\<lambda>m. the (metric_row_of enc m)) (filter encodable ms)"
  using metric_row_some [of enc] by (simp add: List.map_filter_def o_def)

text \<open>(a bad metric costs only itself) A flushed batch is stored whole, in order, but for the metrics that have a
  bucket bound no JSON can express; each row has the name, the service and the value of its metric.\<close>

theorem metrics_stored:
  "fst (write_metrics enc Flushed ms rows) = rows @ map (\<lambda>m. the (metric_row_of enc m)) (filter encodable ms) \<and>
   map (\<lambda>x. (mr_name x, mr_service x, mr_value x, mr_ts x)) (List.map_filter (metric_row_of enc) ms) =
     map (\<lambda>m. (m_name m, m_service m, m_value m, micros (m_timestamp m))) (filter encodable ms)"
proof -
  have "(mr_name (the (metric_row_of enc m)), mr_service (the (metric_row_of enc m)), mr_value (the (metric_row_of enc m)),
      mr_ts (the (metric_row_of enc m))) = (m_name m, m_service m, m_value m, micros (m_timestamp m))"
    if "encodable m" for m
    using that metric_row_some [of enc m] by (auto simp: metric_row_of_def split: option.splits if_splits)
  then show ?thesis unfolding metric_rows by (simp add: write_metrics_def metric_rows)
qed

text \<open>C23 (one series per set of attributes). The loop over the sorted result gives each set of attributes one series,
  made of exactly its own buckets.\<close>

theorem query_series:
  assumes "list_all (\<lambda>m. mr_attributes m \<noteq> Some []) rows"
  shows "let gs = metric_groups svc name r (chosen_step step r) rows; keys = remdups_adj (map group_key gs)
         in query_metric dec svc name r step rows = map (\<lambda>k. series_of dec name (filter (\<lambda>g. group_key g = k) gs)) keys \<and>
            distinct keys"
proof -
  let ?gs = "metric_groups svc name r (chosen_step step r) rows"
  have "query_metric dec svc name r step rows = map (series_of dec name) (runs ?gs)"
    unfolding query_metric_def series_loop_def by (subst loop_runs) simp_all
  then show ?thesis using clustered_runs [OF metric_groups_clustered [OF assms]] by (simp add: Let_def o_def)
qed

definition counter_row :: "int \<Rightarrow> int \<Rightarrow> rat \<Rightarrow> metric_row" where
  "counter_row p secs v =
     \<lparr>mr_ts = secs * 1000000, mr_name = ''requests'', mr_kind = 1, mr_service = ''shop'', mr_host = None, mr_pid = Some p,
      mr_value = Fin v, mr_count = None, mr_sum = Fin 0, mr_buckets = None, mr_unit = None, mr_attributes = None\<rparr>"

definition two_minutes :: time_range where
  "two_minutes = \<lparr>rg_from = 0, rg_to = 2 * minute\<rparr>"

theorem query_series_witness:
  "let gs = metric_groups ''shop'' ''requests'' two_minutes (chosen_step minute two_minutes) [counter_row 1 10 100, counter_row 1 70 110];
       keys = remdups_adj (map group_key gs)
   in query_metric (\<lambda>_. None) ''shop'' ''requests'' two_minutes minute [counter_row 1 10 100, counter_row 1 70 110] =
        map (\<lambda>k. series_of (\<lambda>_. None) ''requests'' (filter (\<lambda>g. group_key g = k) gs)) keys \<and>
      distinct keys"
  by (rule query_series) (simp add: counter_row_def)

lemma counter_points_sorted:
  assumes "list_all is_counter gs" and "map mg_last gs = map Fin vs" and "sorted (b # vs)"
  shows "map snd (points_from (Some (Fin b)) gs) = map Fin (map2 (-) vs (b # vs))"
  using assms
proof (induction gs arbitrary: b vs)
  case (Cons g gs)
  then obtain v vs' where v: "vs = v # vs'" "mg_last g = Fin v" "map mg_last gs = map Fin vs'" by (cases vs) auto
  have "map snd (points_from (Some (Fin v)) gs) = map Fin (map2 (-) vs' (v # vs'))"
    using Cons.prems v by (intro Cons.IH) auto
  moreover have "\<not> v - b < 0" using Cons.prems v by simp
  ultimately show ?case using Cons.prems v by (simp add: f64_sub_def)
qed simp

lemma increments_sum: "vs \<noteq> [] \<Longrightarrow> sum_list (map2 (-) (tl vs) vs) = last vs - hd vs" for vs :: "rat list"
proof (induction vs)
  case (Cons v vs)
  then show ?case by (cases vs) simp_all
qed simp


definition counter_group :: "int \<Rightarrow> rat \<Rightarrow> metric_group" where
  "counter_group b v =
     \<lparr>mg_attributes = None, mg_kind = 1, mg_unit = None, mg_bucket = b, mg_avg = Fin v, mg_last = Fin v, mg_hist_sum = Fin 0,
      mg_hist_count = 0\<rparr>"


text \<open>(processes_mixed) The processes of a service are not told apart: of two counters, one growing from 100 to 110 and
  one from 5 to 6, the chart makes an increase of 105.\<close>

theorem processes_mixed:
  "map se_points (query_metric (\<lambda>_. None) ''shop'' ''requests'' two_minutes minute
     [counter_row 1 10 100, counter_row 2 20 5, counter_row 2 70 6, counter_row 1 80 110]) = [[(minute, Fin 105)]]"
  by code_simp

end
