(* ===== verification/Maintenance.thy ===== *)
theory Maintenance
  imports Metric_Store Diagnostics
begin

text \<open>
  \<open>internal/store/maintenance.go\<close>: rolling raw spans up into minutes and enforcing retention.  A pass is one step
  with one reading of the clock; whether its transaction commits is an argument.  The sums of a rollup are
  added without bound and must fit the 64 bits of their column, or the statement fails and the transaction is
  rolled back.  The watermark is kept as the time its text stands for.
\<close>

section \<open>The database\<close>

record rollup_row =
  ru_minute :: int
  ru_service :: string
  ru_operation :: string
  ru_kind :: int
  ru_bucket :: nat
  ru_spans :: nat
  ru_errors :: nat
  ru_sum :: int

record deps_row =
  de_minute :: int
  de_caller :: string
  de_callee :: string
  de_spans :: nat
  de_errors :: nat
  de_sum :: int

record database =
  db_spans :: "span_row list"
  db_metrics :: "metric_row list"
  db_rollup :: "rollup_row list"
  db_deps :: "deps_row list"
  db_diags :: "diag_row list"
  db_watermark :: "gotime option"

definition empty_database :: database where
  "empty_database = \<lparr>db_spans = [], db_metrics = [], db_rollup = [], db_deps = [], db_diags = [], db_watermark = None\<rparr>"

section \<open>Rolling up\<close>

definition minute_width :: int where "minute_width = 60000000"

definition rollup_key :: "span_row \<Rightarrow> int \<times> string \<times> string \<times> int \<times> nat" where
  "rollup_key r = (time_bucket minute_width (sr_ts r), sr_service r, sr_operation r, sr_kind r, sr_bucket r)"

definition rollup_row_of :: "int \<times> string \<times> string \<times> int \<times> nat \<Rightarrow> span_row list \<Rightarrow> rollup_row" where
  "rollup_row_of key g =
     (case key of (m, svc, op, k, b) \<Rightarrow>
        \<lparr>ru_minute = m, ru_service = svc, ru_operation = op, ru_kind = k, ru_bucket = b, ru_spans = length g,
         ru_errors = length (filter sr_is_error g), ru_sum = sum_list (map sr_duration g)\<rparr>)"

definition rollup_of :: "span_row list \<Rightarrow> rollup_row list" where
  "rollup_of rows = map (\<lambda>(key, g). rollup_row_of key g) (group_by rollup_key (filter entry_span rows))"

definition deps_key :: "span_row \<times> span_row \<Rightarrow> int \<times> string \<times> string" where
  "deps_key p = (time_bucket minute_width (sr_ts (fst p)), sr_service (snd p), sr_service (fst p))"

definition deps_row_of :: "int \<times> string \<times> string \<Rightarrow> (span_row \<times> span_row) list \<Rightarrow> deps_row" where
  "deps_row_of key g =
     (case key of (m, caller, callee) \<Rightarrow>
        \<lparr>de_minute = m, de_caller = caller, de_callee = callee, de_spans = length g,
         de_errors = length (filter (\<lambda>p. sr_is_error (fst p)) g), de_sum = sum_list (map (\<lambda>p. sr_duration (fst p)) g)\<rparr>)"

definition deps_of :: "(int \<Rightarrow> bool) \<Rightarrow> span_row list \<Rightarrow> deps_row list" where
  "deps_of inside rows = map (\<lambda>(key, g). deps_row_of key g) (group_by deps_key (cross_calls inside rows))"

definition in_window :: "gotime \<Rightarrow> gotime \<Rightarrow> int \<Rightarrow> bool" where
  "in_window from to u \<longleftrightarrow> micros from \<le> u \<and> u < micros to"

definition window_fits :: "gotime \<Rightarrow> gotime \<Rightarrow> database \<Rightarrow> bool" where
  "window_fits from to db \<longleftrightarrow>
     list_all (\<lambda>x. in_int64 (ru_sum x)) (rollup_of (filter (\<lambda>r. in_window from to (sr_ts r)) (db_spans db))) \<and>
     list_all (\<lambda>x. in_int64 (de_sum x)) (deps_of (in_window from to) (db_spans db))"

text \<open>The statements of the transaction: clear the window, fill it, and move the watermark.\<close>

definition roll_window :: "gotime \<Rightarrow> gotime \<Rightarrow> database \<Rightarrow> database" where
  "roll_window from to db =
     db\<lparr>db_rollup := filter (\<lambda>x. \<not> in_window from to (ru_minute x)) (db_rollup db) @
          rollup_of (filter (\<lambda>r. in_window from to (sr_ts r)) (db_spans db)),
        db_deps := filter (\<lambda>x. \<not> in_window from to (de_minute x)) (db_deps db) @
          deps_of (in_window from to) (db_spans db),
        db_watermark := Some to\<rparr>"

definition truncate_minute :: "gotime \<Rightarrow> gotime" where
  "truncate_minute t = t - t mod minute"

definition watermark :: "gotime \<Rightarrow> database \<Rightarrow> gotime" where
  "watermark now db =
     (case db_watermark db of
        Some w \<Rightarrow> w
      | None \<Rightarrow> if db_spans db = [] then truncate_minute now
                else truncate_minute (of_micros (Min (sr_ts ` set (db_spans db)))))"

definition rollup_catch_up :: duration where "rollup_catch_up = 6 * hour"

definition rollup_end :: "gotime \<Rightarrow> gotime \<Rightarrow> gotime" where
  "rollup_end from now =
     (if rollup_catch_up < time_sub (truncate_minute now) from then from + rollup_catch_up else truncate_minute now)"

definition rollup :: "bool \<Rightarrow> gotime \<Rightarrow> database \<Rightarrow> database \<times> (unit + int)" where
  "rollup commits now db =
     (let from = watermark now db; to = rollup_end from now
      in if \<not> from < truncate_minute now then (db, Inr 0)
         else if \<not> commits \<or> \<not> window_fits from to db then (db, Inl ())
         else (roll_window from to db, Inr (time_sub to from div minute)))"

section \<open>Retention\<close>

definition delete_before :: "('r \<Rightarrow> int) \<Rightarrow> gotime \<Rightarrow> 'r list \<Rightarrow> 'r list \<times> int" where
  "delete_before ts cutoff rows =
     (filter (\<lambda>r. \<not> ts r < micros cutoff) rows, int (length (filter (\<lambda>r. ts r < micros cutoff) rows)))"

definition span_cutoff :: "storage_config \<Rightarrow> gotime \<Rightarrow> database \<Rightarrow> gotime" where
  "span_cutoff cfg now db =
     (if watermark now db < now - span_retention cfg then watermark now db else now - span_retention cfg)"

definition retention :: "storage_config \<Rightarrow> gotime \<Rightarrow> database \<Rightarrow> database \<times> int" where
  "retention cfg now db =
     (let (spans, n1) = (if 0 < span_retention cfg then delete_before sr_ts (span_cutoff cfg now db) (db_spans db)
                         else (db_spans db, 0));
          (metrics, n2) = (if 0 < metric_retention cfg then delete_before mr_ts (now - metric_retention cfg) (db_metrics db)
                           else (db_metrics db, 0));
          (rollups, n3) = (if 0 < rollup_retention cfg then delete_before ru_minute (now - rollup_retention cfg) (db_rollup db)
                           else (db_rollup db, 0));
          (deps, n4) = (if 0 < rollup_retention cfg then delete_before de_minute (now - rollup_retention cfg) (db_deps db)
                        else (db_deps db, 0));
          (diags, n5) = prune_diagnostics now (diagnostic_retention cfg) (max_diagnostics_per_jvm cfg) (db_diags db)
      in (db\<lparr>db_spans := spans, db_metrics := metrics, db_rollup := rollups, db_deps := deps, db_diags := diags\<rparr>,
          n1 + n2 + n3 + n4 + n5))"

text \<open>A pass: a failed rollup is logged, and the retention follows.\<close>

definition run_once :: "bool \<Rightarrow> storage_config \<Rightarrow> gotime \<Rightarrow> database \<Rightarrow> database" where
  "run_once commits cfg now db = fst (retention cfg now (fst (rollup commits now db)))"

definition maintenance_interval_of :: "duration \<Rightarrow> duration" where
  "maintenance_interval_of configured = (if configured \<le> 0 then 5 * minute else configured)"


section \<open>Lemmas: minutes\<close>

lemma minute_width_origin: "0 < minute_width" "minute_width dvd bucket_origin"
  by (simp_all add: minute_width_def bucket_origin_def)

lemma micros_dvd: "minute dvd t \<Longrightarrow> minute_width dvd micros t"
proof -
  assume "minute dvd t"
  then obtain k where "t = minute * k" by blast
  then have "micros t = minute_width * k" by (simp add: micros_def minute_width_def)
  then show ?thesis by simp
qed

lemma window_minute:
  assumes "minute dvd from" and "minute dvd to"
  shows "in_window from to (time_bucket minute_width u) = in_window from to u"
  unfolding in_window_def using time_bucket_window [OF minute_width_origin micros_dvd micros_dvd, OF assms] by blast

lemma before_minute:
  assumes "minute dvd to"
  shows "time_bucket minute_width u < micros to \<longleftrightarrow> u < micros to"
  using time_bucket_window [OF minute_width_origin micros_dvd micros_dvd, OF assms assms, of u]
    time_bucket_mono [OF minute_width_origin(1), of "micros to" u]
    time_bucket_start [OF minute_width_origin(2) micros_dvd [OF assms]] time_bucket_le [OF minute_width_origin(1), of u]
  by linarith

lemma truncate_minute_dvd: "minute dvd truncate_minute t"
  unfolding truncate_minute_def by (simp add: minus_mod_eq_mult_div)

lemma truncate_minute_le: "truncate_minute t \<le> t" "t < truncate_minute t + minute"
  using pos_mod_sign [of minute t] pos_mod_bound [of minute t] by (simp_all add: truncate_minute_def)

section \<open>Lemmas: the rows of a rollup\<close>

definition ru_key :: "rollup_row \<Rightarrow> int \<times> string \<times> string \<times> int \<times> nat" where
  "ru_key x = (ru_minute x, ru_service x, ru_operation x, ru_kind x, ru_bucket x)"

lemma ru_key_row [simp]: "ru_key (rollup_row_of key g) = key"
  by (cases key) (simp add: ru_key_def rollup_row_of_def)

lemma ru_minute_row [simp]: "ru_minute (rollup_row_of key g) = fst key"
  by (cases key) (simp add: rollup_row_of_def)

lemma rollup_keys: "map ru_key (rollup_of rows) = remdups (map rollup_key (filter entry_span rows))"
  by (simp add: rollup_of_def o_def case_prod_unfold group_keys [symmetric])

definition keyed_row :: "span_row list \<Rightarrow> int \<times> string \<times> string \<times> int \<times> nat \<Rightarrow> rollup_row" where
  "keyed_row rows key = rollup_row_of key (filter (\<lambda>r. rollup_key r = key) (filter entry_span rows))"

lemma keyed_row_simps [simp]: "ru_key (keyed_row rows key) = key" "ru_minute (keyed_row rows key) = fst key"
  by (simp_all add: keyed_row_def)

lemma rollup_set: "set (rollup_of rows) = keyed_row rows ` rollup_key ` set (filter entry_span rows)"
  by (simp add: rollup_of_def group_by_def keyed_row_def [abs_def] image_image)

lemma rollup_part:
  assumes "\<And>r. r \<in> set rows \<Longrightarrow> entry_span r \<Longrightarrow> P (fst (rollup_key r)) = Q (sr_ts r)"
  shows "set (filter (\<lambda>x. P (ru_minute x)) (rollup_of rows)) = set (rollup_of (filter (\<lambda>r. Q (sr_ts r)) rows))"
proof -
  let ?e = "filter entry_span rows" and ?sub = "filter (\<lambda>r. Q (sr_ts r)) rows"
  have sub: "keyed_row ?sub key = keyed_row rows key" if "P (fst key)" for key
  proof -
    have "filter (\<lambda>r. rollup_key r = key) (filter entry_span ?sub) = filter (\<lambda>r. rollup_key r = key) ?e"
      using assms that by (auto simp: filter_filter intro!: filter_cong)
    then show ?thesis by (simp only: keyed_row_def)
  qed
  have keys: "rollup_key ` set (filter entry_span ?sub) = {key \<in> rollup_key ` set ?e. P (fst key)}"
    using assms by auto
  have "set (filter (\<lambda>x. P (ru_minute x)) (rollup_of rows)) = keyed_row rows ` {key \<in> rollup_key ` set ?e. P (fst key)}"
    unfolding set_filter rollup_set by auto
  also have "\<dots> = keyed_row ?sub ` {key \<in> rollup_key ` set ?e. P (fst key)}"
    by (intro image_cong refl) (simp add: sub)
  also have "\<dots> = set (rollup_of ?sub)" unfolding rollup_set keys ..
  finally show ?thesis .
qed

lemma rollup_split:
  assumes "minute dvd from" and "minute dvd to" and "from \<le> to"
  shows "set (rollup_of (filter (\<lambda>r. sr_ts r < micros to) rows)) =
    set (rollup_of (filter (\<lambda>r. sr_ts r < micros from) rows)) \<union> set (rollup_of (filter (\<lambda>r. in_window from to (sr_ts r)) rows))"
proof -
  let ?all = "filter (\<lambda>r. sr_ts r < micros to) rows"
  have m: "micros from \<le> micros to" by (rule micros_mono [OF assms(3)])
  have "set (filter (\<lambda>x. ru_minute x < micros from) (rollup_of ?all)) =
      set (rollup_of (filter (\<lambda>r. sr_ts r < micros from) ?all))"
    by (rule rollup_part) (simp add: rollup_key_def before_minute [OF assms(1)])
  moreover have "filter (\<lambda>r. sr_ts r < micros from) ?all = filter (\<lambda>r. sr_ts r < micros from) rows"
    using m by (auto intro: filter_cong)
  moreover have "set (filter (\<lambda>x. in_window from to (ru_minute x)) (rollup_of ?all)) =
      set (rollup_of (filter (\<lambda>r. in_window from to (sr_ts r)) ?all))"
    by (rule rollup_part) (simp add: rollup_key_def window_minute [OF assms(1,2)])
  moreover have "filter (\<lambda>r. in_window from to (sr_ts r)) ?all = filter (\<lambda>r. in_window from to (sr_ts r)) rows"
    by (auto simp: in_window_def intro: filter_cong)
  moreover have "ru_minute x < micros from \<or> in_window from to (ru_minute x)" if "x \<in> set (rollup_of ?all)" for x
    using that by (auto simp: rollup_set rollup_key_def in_window_def before_minute [OF assms(2)])
  ultimately show ?thesis by auto
qed

lemma rollup_window_minutes:
  assumes "minute dvd from" and "minute dvd to" and "x \<in> set (rollup_of (filter (\<lambda>r. in_window from to (sr_ts r)) rows))"
  shows "in_window from to (ru_minute x)"
  using assms(3) by (auto simp: rollup_set rollup_key_def window_minute [OF assms(1,2)])


section \<open>Histories\<close>

lemma filter_eq_later:
  "filter (\<lambda>r. p r \<and> q r) xs = filter (\<lambda>r. p r \<and> q r) ys \<Longrightarrow> (\<And>r. p r \<and> q r \<longleftrightarrow> s r) \<Longrightarrow> filter s xs = filter s ys"
  by simp

text \<open>What may happen to the database, with everything ever written beside it and the bound below which rollups have
  expired: spans arrive no earlier than the watermark, passes run at any time and may fail.\<close>

definition in_time :: "database \<Rightarrow> span_row list \<Rightarrow> bool" where
  "in_time db new \<longleftrightarrow> (case db_watermark db of None \<Rightarrow> True | Some w \<Rightarrow> list_all (\<lambda>r. micros w \<le> sr_ts r) new)"

definition expired_below :: "storage_config \<Rightarrow> gotime \<Rightarrow> int \<Rightarrow> int" where
  "expired_below cfg now f = (if 0 < rollup_retention cfg then max f (micros (now - rollup_retention cfg)) else f)"

inductive history :: "database \<Rightarrow> span_row list \<Rightarrow> int \<Rightarrow> bool" where
  opened: "history empty_database [] f"
| wrote: "history db past f \<Longrightarrow> in_time db new \<Longrightarrow> history (db\<lparr>db_spans := db_spans db @ new\<rparr>) (past @ new) f"
| rolled: "history db past f \<Longrightarrow> history (fst (rollup commits now db)) past f"
| retained: "history db past f \<Longrightarrow> history (fst (retention cfg now db)) past (expired_below cfg now f)"

definition history_ok :: "database \<Rightarrow> span_row list \<Rightarrow> int \<Rightarrow> bool" where
  "history_ok db past f \<longleftrightarrow>
     (case db_watermark db of
        None \<Rightarrow> db_spans db = past \<and> db_rollup db = []
      | Some w \<Rightarrow> minute dvd w \<and>
          filter (\<lambda>r. micros w \<le> sr_ts r) (db_spans db) = filter (\<lambda>r. micros w \<le> sr_ts r) past \<and>
          set (filter (\<lambda>x. f \<le> ru_minute x) (db_rollup db)) =
            set (filter (\<lambda>x. f \<le> ru_minute x) (rollup_of (filter (\<lambda>r. sr_ts r < micros w) past))) \<and>
          distinct (map ru_key (db_rollup db)))"

lemma watermark_dvd: "history_ok db past f \<Longrightarrow> minute dvd watermark now db"
  by (auto simp: history_ok_def watermark_def truncate_minute_dvd split: option.splits)

lemma rollup_end_dvd: "minute dvd from \<Longrightarrow> minute dvd rollup_end from now"
  by (auto simp: rollup_end_def truncate_minute_dvd rollup_catch_up_def intro: dvd_add)

lemma rollup_end_after: "from < truncate_minute now \<Longrightarrow> from \<le> rollup_end from now"
  by (simp add: rollup_end_def rollup_catch_up_def)

lemma oldest_first:
  assumes "db_watermark db = None" and "r \<in> set (db_spans db)"
  shows "micros (watermark now db) \<le> sr_ts r"
proof -
  let ?m = "Min (sr_ts ` set (db_spans db))"
  have "watermark now db \<le> of_micros ?m" using assms truncate_minute_le(1) by (auto simp: watermark_def)
  then have "micros (watermark now db) \<le> ?m" using micros_mono by fastforce
  also have "?m \<le> sr_ts r" using assms(2) by simp
  finally show ?thesis .
qed

lemma wrote_ok: "history_ok db past f \<Longrightarrow> in_time db new \<Longrightarrow> history_ok (db\<lparr>db_spans := db_spans db @ new\<rparr>) (past @ new) f"
proof (cases "db_watermark db")
  case (Some w)
  assume "history_ok db past f" and "in_time db new"
  moreover from this Some have "filter (\<lambda>r. sr_ts r < micros w) new = []" by (auto simp: in_time_def list_all_iff filter_empty_conv)
  ultimately show ?thesis using Some by (auto simp: history_ok_def)
qed (simp add: history_ok_def)

lemma retained_ok: "history_ok db past f \<Longrightarrow> history_ok (fst (retention cfg now db)) past (expired_below cfg now f)"
proof (cases "db_watermark db")
  case None
  assume ok: "history_ok db past f"
  have "micros (span_cutoff cfg now db) \<le> micros (watermark now db)" by (auto simp: span_cutoff_def intro: micros_mono)
  then have "filter (\<lambda>r. \<not> sr_ts r < micros (span_cutoff cfg now db)) (db_spans db) = db_spans db"
    using oldest_first [OF None, of _ now] by (intro filter_True ballI) (meson not_less order_trans)
  then show ?thesis using ok None by (simp add: history_ok_def retention_def delete_before_def Let_def case_prod_unfold)
next
  case (Some w)
  assume ok: "history_ok db past f"
  have c: "micros (span_cutoff cfg now db) \<le> micros w" using Some by (auto simp: span_cutoff_def watermark_def intro: micros_mono)
  have spans: "filter (\<lambda>r. micros w \<le> sr_ts r) (filter (\<lambda>r. \<not> sr_ts r < micros (span_cutoff cfg now db)) (db_spans db)) =
      filter (\<lambda>r. micros w \<le> sr_ts r) (db_spans db)" using c by (auto intro: filter_cong)
  let ?c = "micros (now - rollup_retention cfg)"
  have dist: "distinct (map ru_key (filter (\<lambda>r. \<not> ru_minute r < ?c) (db_rollup db)))"
    using ok Some by (auto simp: history_ok_def intro: distinct_map_filter)
  have old: "{x \<in> set (db_rollup db). f \<le> ru_minute x} =
      {x \<in> set (rollup_of (filter (\<lambda>r. sr_ts r < micros w) past)). f \<le> ru_minute x}"
    using ok Some by (simp add: history_ok_def)
  then have "{x \<in> set (db_rollup db). \<not> ru_minute x < ?c \<and> max f ?c \<le> ru_minute x} =
      {x \<in> set (rollup_of (filter (\<lambda>r. sr_ts r < micros w) past)). max f ?c \<le> ru_minute x}" by force
  then show ?thesis using ok Some spans dist old
    by (auto simp: history_ok_def retention_def delete_before_def Let_def case_prod_unfold expired_below_def)
qed

lemma rolled_ok: "history_ok db past f \<Longrightarrow> history_ok (fst (rollup commits now db)) past f"
proof -
  assume ok: "history_ok db past f"
  let ?from = "watermark now db" and ?to = "rollup_end (watermark now db) now"
  have d: "minute dvd ?from" "minute dvd ?to" using watermark_dvd [OF ok] rollup_end_dvd by blast+
  have "history_ok (roll_window ?from ?to db) past f" if le: "?from \<le> ?to"
  proof -
    let ?win = "filter (\<lambda>r. in_window ?from ?to (sr_ts r)) (db_spans db)"
    have new_min: "in_window ?from ?to (ru_minute x)" if "x \<in> set (rollup_of ?win)" for x
      using rollup_window_minutes [OF d] that by blast
    have new_keys: "distinct (map ru_key (rollup_of ?win))" by (simp add: rollup_keys)
    have later: "filter (\<lambda>r. micros ?from \<le> sr_ts r) (db_spans db) = filter (\<lambda>r. micros ?from \<le> sr_ts r) past"
    proof (cases "db_watermark db")
      case None then show ?thesis using ok by (simp add: history_ok_def)
    next
      case (Some w) then show ?thesis using ok by (simp add: history_ok_def watermark_def)
    qed
    have ft: "micros ?from \<le> micros ?to" by (rule micros_mono [OF le])
    have "filter p (filter (\<lambda>r. micros ?from \<le> sr_ts r) (db_spans db)) = filter p (filter (\<lambda>r. micros ?from \<le> sr_ts r) past)" for p
      by (simp only: later)
    then have gen: "filter (\<lambda>r. p r \<and> micros ?from \<le> sr_ts r) (db_spans db) = filter (\<lambda>r. p r \<and> micros ?from \<le> sr_ts r) past" for p
      by (simp add: conj_commute)
    have win: "?win = filter (\<lambda>r. in_window ?from ?to (sr_ts r)) past"
      by (rule filter_eq_later [OF gen [of "\<lambda>r. sr_ts r < micros ?to"]]) (auto simp: in_window_def)
    have rest: "filter (\<lambda>r. micros ?to \<le> sr_ts r) (db_spans db) = filter (\<lambda>r. micros ?to \<le> sr_ts r) past"
      using ft by (intro filter_eq_later [OF gen [of "\<lambda>r. micros ?to \<le> sr_ts r"]]) auto
    have before: "set (filter (\<lambda>x. f \<le> ru_minute x) (db_rollup db)) =
        set (filter (\<lambda>x. f \<le> ru_minute x) (rollup_of (filter (\<lambda>r. sr_ts r < micros ?from) past)))"
    proof (cases "db_watermark db")
      case None
      have "filter (\<lambda>r. sr_ts r < micros ?from) (db_spans db) = []"
        using oldest_first [OF None, of _ now] by (intro filter_False ballI) (simp add: not_less)
      moreover have "db_spans db = past" using ok None by (simp add: history_ok_def)
      ultimately have "filter (\<lambda>r. sr_ts r < micros ?from) past = []" by simp
      then show ?thesis using ok None by (simp add: history_ok_def rollup_of_def group_by_def)
    next
      case (Some w) then show ?thesis using ok by (simp add: history_ok_def watermark_def)
    qed
    have keep: "\<not> in_window ?from ?to (ru_minute x)" if "x \<in> set (rollup_of (filter (\<lambda>r. sr_ts r < micros ?from) past))" for x
      using that by (auto simp: rollup_set rollup_key_def in_window_def before_minute [OF d(1)] not_le)
    have "set (filter (\<lambda>x. f \<le> ru_minute x) (db_rollup (roll_window ?from ?to db))) =
        set (filter (\<lambda>x. f \<le> ru_minute x) (rollup_of (filter (\<lambda>r. sr_ts r < micros ?to) past)))"
      unfolding set_filter rollup_split [OF d le] using before keep by (auto simp: roll_window_def win)
    moreover have "distinct (map ru_key (db_rollup db))" using ok by (auto simp: history_ok_def split: option.splits)
    then have "distinct (map ru_key (db_rollup (roll_window ?from ?to db)))"
      using new_keys new_min by (auto simp: roll_window_def distinct_map_filter ru_key_def)
    ultimately show ?thesis using d(2) rest by (simp add: history_ok_def roll_window_def)
  qed
  then show ?thesis using ok rollup_end_after by (auto simp: rollup_def Let_def)
qed


lemma history_invariant: "history db past f \<Longrightarrow> history_ok db past f"
proof (induction rule: history.induct)
  case (opened f) show ?case by (simp add: history_ok_def empty_database_def)
next
  case (wrote db past f new) then show ?case by (intro wrote_ok)
next
  case (rolled db past f commits now) then show ?case by (intro rolled_ok)
next
  case (retained db past f cfg now) then show ?case by (intro retained_ok)
qed

section \<open>Lemmas: totals\<close>

lemma rollup_regrouped:
  "(\<Sum>x\<leftarrow>rollup_of rows. h x) = (\<Sum>(key, g)\<leftarrow>group_by rollup_key (filter entry_span rows). h (rollup_row_of key g))"
  by (simp add: rollup_of_def o_def case_prod_unfold)

lemma rollup_row_counts [simp]:
  "ru_spans (rollup_row_of key g) = length g" "ru_errors (rollup_row_of key g) = length (filter sr_is_error g)"
  "ru_sum (rollup_row_of key g) = sum_list (map sr_duration g)"
  by (cases key; simp add: rollup_row_of_def)+

section \<open>Lemmas: histograms from rollups\<close>

lemma histogram_add_more:
  assumes "histogram_valid h" and "b < histogram_buckets"
  shows "histogram_add (int b) (int n) h = fold histogram_count (replicate n b) h"
  using assms(1)
proof (induction n arbitrary: h)
  case 0 show ?case using assms(2) by (simp add: histogram_add_def)
next
  case (Suc n)
  have v: "histogram_valid (histogram_count b h)" using histograms.valid_add [OF Suc.prems assms(2)] .
  have "histogram_add (int b) (int (Suc n)) h = histogram_add (int b) (int n) (histogram_count b h)"
    using assms(2) Suc.prems by (simp add: histogram_add_def histogram_count_def histogram_valid_def add.assoc)
  then show ?case using Suc.IH [OF v] by simp
qed

lemma histogram_fold_more:
  assumes "histogram_valid h" and "list_all (\<lambda>x. bk x < histogram_buckets) xs"
  shows "fold (\<lambda>x. histogram_add (int (bk x)) (int (n x))) xs h =
    fold histogram_count (concat (map (\<lambda>x. replicate (n x) (bk x)) xs)) h"
  using assms
proof (induction xs arbitrary: h)
  case (Cons x xs)
  then have b: "bk x < histogram_buckets" by simp
  have "list_all (\<lambda>b. b < histogram_buckets) (replicate (n x) (bk x))" using b by (simp add: list_all_iff)
  from histograms.added [OF Cons.prems(1) this] have "histogram_valid (fold histogram_count (replicate (n x) (bk x)) h)" by simp
  then show ?case using Cons histogram_add_more [OF Cons.prems(1) b, of "n x"] by simp
qed simp

lemma rollup_buckets:
  "mset (concat (map (\<lambda>x. replicate (ru_spans x) (ru_bucket x)) (rollup_of rows))) = mset (map sr_bucket (filter entry_span rows))"
proof (rule multiset_eqI)
  fix b
  let ?gs = "group_by rollup_key (filter entry_span rows)"
  have cnt: "int (count (mset (concat (map f xs))) b) = (\<Sum>x\<leftarrow>xs. int (count (mset (f x)) b))"
    for f :: "rollup_row \<Rightarrow> nat list" and xs
    by (induction xs) simp_all
  have row: "int (count (mset (replicate (ru_spans (rollup_row_of key g)) (ru_bucket (rollup_row_of key g)))) b) =
      (\<Sum>r\<leftarrow>g. if sr_bucket r = b then 1 else 0)" if "(key, g) \<in> set ?gs" for key g
  proof -
    obtain m svc op k bk where key: "key = (m, svc, op, k, bk)" by (cases key) auto
    have "\<forall>r \<in> set g. sr_bucket r = bk" using that by (auto simp: in_group_by key rollup_key_def)
    then have "(\<Sum>r\<leftarrow>g. if sr_bucket r = b then 1 else 0 :: int) = (\<Sum>r\<leftarrow>g. if bk = b then 1 else 0)"
      by (intro arg_cong [where f = sum_list] map_cong) auto
    then show ?thesis by (simp add: key rollup_row_of_def sum_list_triv)
  qed
  have "int (count (mset (concat (map (\<lambda>x. replicate (ru_spans x) (ru_bucket x)) (rollup_of rows)))) b) =
      (\<Sum>(key, g)\<leftarrow>?gs. \<Sum>r\<leftarrow>g. if sr_bucket r = b then 1 else 0)"
    unfolding cnt rollup_regrouped using row by (intro arg_cong [where f = sum_list] map_cong) auto
  also have "\<dots> = (\<Sum>r\<leftarrow>filter entry_span rows. if sr_bucket r = b then 1 else 0)" by (rule sum_over_groups)
  also have "\<dots> = int (count (mset (map sr_bucket xs)) b)" if "xs = filter entry_span rows" for xs
    unfolding that [symmetric] by (induction xs) simp_all
  finally show "count (mset (concat (map (\<lambda>x. replicate (ru_spans x) (ru_bucket x)) (rollup_of rows)))) b =
      count (mset (map sr_bucket (filter entry_span rows))) b" by simp
qed

section \<open>What maintenance promises\<close>


definition rolled_example :: database where
  "rolled_example = fst (rollup True (2 * minute) (empty_database\<lparr>db_spans := db_spans empty_database @ [row_at 3]\<rparr>))"

lemma rolled_example_watermark: "db_watermark rolled_example = Some (2 * minute)"
  by (simp add: rolled_example_def rollup_def watermark_def empty_database_def row_at_def truncate_minute_def of_micros_def
      rollup_end_def rollup_catch_up_def time_sub_def Let_def window_fits_def roll_window_def in_window_def micros_def
      rollup_of_def deps_of_def cross_calls_def group_by_def entry_span_def rollup_row_of_def rollup_key_def in_int64_def)


text \<open>(a rollup counts everything once) The requests, errors and time of the rollup rows add up to those of the spans
  they were made of, one row for each minute, service, operation, kind and bucket.\<close>

theorem rollup_totals:
  "(\<Sum>x\<leftarrow>rollup_of rows. int (ru_spans x)) = int (length (filter entry_span rows)) \<and>
   (\<Sum>x\<leftarrow>rollup_of rows. int (ru_errors x)) = int (length (filter sr_is_error (filter entry_span rows))) \<and>
   (\<Sum>x\<leftarrow>rollup_of rows. ru_sum x) = sum_list (map sr_duration (filter entry_span rows)) \<and>
   distinct (map ru_key (rollup_of rows))"
  unfolding rollup_regrouped rollup_row_counts
  by (simp only: span_count.regrouped error_count.regrouped duration_sum.regrouped rollup_keys distinct_remdups simp_thms)



section \<open>Catching up\<close>

lemma window_fits_spans: "db_spans d = db_spans db \<Longrightarrow> window_fits from to d = window_fits from to db"
  by (simp add: window_fits_def)

lemma rollup_end_min: "from < truncate_minute now \<Longrightarrow> rollup_end from now = min (from + rollup_catch_up) (truncate_minute now)"
  by (auto simp: rollup_end_def time_sub_def rollup_catch_up_def min_def max_def)

lemma rollup_advances:
  assumes "db_watermark db = Some w" and "w \<le> truncate_minute now" and "\<And>from to. window_fits from to db"
  shows "db_watermark (fst (rollup True now db)) = Some (min (w + rollup_catch_up) (truncate_minute now))"
    and "db_spans (fst (rollup True now db)) = db_spans db"
proof -
  have w: "watermark now db = w" using assms(1) by (simp add: watermark_def)
  show "db_spans (fst (rollup True now db)) = db_spans db" by (simp add: rollup_def Let_def roll_window_def)
  show "db_watermark (fst (rollup True now db)) = Some (min (w + rollup_catch_up) (truncate_minute now))"
  proof (cases "w < truncate_minute now")
    case True
    then show ?thesis using assms(3) by (simp add: rollup_def Let_def w roll_window_def rollup_end_min)
  next
    case False
    then show ?thesis using assms(1,2) by (simp add: rollup_def Let_def w rollup_catch_up_def)
  qed
qed

lemma rollup_repeated:
  assumes "db_watermark db = Some w" and "w \<le> truncate_minute now" and "\<And>from to. window_fits from to db"
  shows "db_watermark (((\<lambda>d. fst (rollup True now d)) ^^ n) db) = Some (min (w + int n * rollup_catch_up) (truncate_minute now)) \<and>
    db_spans (((\<lambda>d. fst (rollup True now d)) ^^ n) db) = db_spans db"
proof (induction n)
  case 0 show ?case using assms(1,2) by simp
next
  case (Suc n)
  let ?d = "((\<lambda>d. fst (rollup True now d)) ^^ n) db"
  have fits: "\<And>from to. window_fits from to ?d" using Suc.IH assms(3) window_fits_spans by blast
  have le: "min (w + int n * rollup_catch_up) (truncate_minute now) \<le> truncate_minute now" by simp
  have "min (min (w + int n * rollup_catch_up) (truncate_minute now) + rollup_catch_up) (truncate_minute now) =
      min (w + int (Suc n) * rollup_catch_up) (truncate_minute now)"
    by (simp add: min_def distrib_right rollup_catch_up_def)
  then show ?case
    using rollup_advances [OF conjunct1 [OF Suc.IH] le fits] Suc.IH by simp
qed



text \<open>(a window can be rolled up again) Rolling up the same minutes a second time changes nothing.\<close>

theorem window_idempotent:
  assumes "minute dvd from" and "minute dvd to"
  shows "roll_window from to (roll_window from to db) = roll_window from to db"
proof -
  let ?win = "filter (\<lambda>r. in_window from to (sr_ts r)) (db_spans db)"
  have "filter (\<lambda>x. \<not> in_window from to (ru_minute x)) (rollup_of ?win) = []"
    using rollup_window_minutes [OF assms] by (auto simp: filter_empty_conv)
  moreover have "filter (\<lambda>x. \<not> in_window from to (de_minute x)) (deps_of (in_window from to) (db_spans db)) = []"
  proof (rule filter_False, rule ballI)
    fix x assume "x \<in> set (deps_of (in_window from to) (db_spans db))"
    then obtain key g where k: "key \<in> deps_key ` set (cross_calls (in_window from to) (db_spans db))" "x = deps_row_of key g"
      by (auto simp: deps_of_def in_group_by)
    then obtain q where "q \<in> set (cross_calls (in_window from to) (db_spans db))" "key = deps_key q" by blast
    then have "in_window from to (fst key)"
      by (auto simp: cross_calls_def deps_key_def window_minute [OF assms])
    then show "\<not> \<not> in_window from to (de_minute x)" using k(2) by (cases key) (simp add: deps_row_of_def)
  qed
  ultimately show ?thesis by (simp add: roll_window_def)
qed

theorem window_idempotent_witness:
  "roll_window 0 (2 * minute) (roll_window 0 (2 * minute) rolled_example) = roll_window 0 (2 * minute) rolled_example"
  by (rule window_idempotent) simp_all

section \<open>What it does not promise\<close>

definition day_retention :: storage_config where
  "day_retention =
     \<lparr>storage_path = [], span_retention = minute, rollup_retention = 24 * hour, maintenance_interval = minute,
      metric_retention = 0, diagnostic_retention = 0, max_diagnostics_per_jvm = 0, memory_limit = [], threads = 0\<rparr>"

text \<open>(late_span_lost) A span that arrives after its minute was rolled up is never rolled up and is deleted with the
  others of its time.\<close>

theorem late_span_lost:
  "(let db0 = empty_database\<lparr>db_spans := [row_at 3]\<rparr>;
        db1 = run_once True day_retention (2 * minute) db0;
        db2 = db1\<lparr>db_spans := db_spans db1 @ [row_at 5]\<rparr>;
        db3 = run_once True day_retention (4 * minute) db2
    in (map ru_spans (db_rollup db3), length (db_spans db3))) = ([1], 0)"
  by code_simp

text \<open>(edge_lost_at_boundary) A call whose parent began in an earlier window than its child draws no edge.\<close>

definition calling :: "int \<Rightarrow> string \<Rightarrow> bytes \<Rightarrow> bytes option \<Rightarrow> span_row" where
  "calling ts svc sid par = (row_at 7)\<lparr>sr_ts := ts, sr_service := svc, sr_span := sid, sr_parent := par\<rparr>"

theorem edge_lost_at_boundary:
  "(let spans = [calling 119999999 ''front'' [1] None, calling 120000000 ''back'' [2] (Some [1])];
        db0 = empty_database\<lparr>db_spans := spans, db_watermark := Some 0\<rparr>;
        once = fst (rollup True (3 * minute) db0);
        twice = fst (rollup True (3 * minute) (fst (rollup True (2 * minute) db0)))
    in (map de_spans (db_deps once), map de_spans (db_deps twice))) = ([1], [])"
  by code_simp

text \<open>(huge_durations_stall) Two spans of the longest duration in one minute overflow the sum: every pass fails, the
  watermark stays, and nothing is ever deleted.\<close>

theorem huge_durations_stall:
  "(let r = (row_at 3)\<lparr>sr_duration := 9223372036854775807\<rparr>; db0 = empty_database\<lparr>db_spans := [r, r, row_at 5]\<rparr>;
        db1 = run_once True day_retention (10 * minute) db0
    in (db_watermark db1, length (db_spans db1))) = (None, 3)"
  by code_simp

text \<open>(old_span_stalls) One span with a start fifty years ago holds the rollup six hours per pass behind, and the
  spans past their retention with it.\<close>

theorem old_span_stalls:
  "(let db0 = empty_database\<lparr>db_spans := [row_at 3, (row_at 4)\<lparr>sr_ts := 1700000000000000\<rparr>]\<rparr>;
        db1 = run_once True day_retention (1700000000000000000 + 24 * hour) db0
    in (db_watermark db1, map sr_ts (db_spans db1))) = (Some (6 * hour), [1700000000000000])"
  by code_simp

end
