(* ===== verification/Go_Time.thy ===== *)
theory Go_Time
  imports Go_Strings
begin

text \<open>
  \<open>time.ParseDuration\<close>: a sign, then numbers with a unit each, added up.  A fraction is taken exactly and cut
  to whole nanoseconds, where the library works with a floating-point scale.
\<close>

section \<open>Durations as text\<close>

definition time_units :: "(string \<times> nat) list" where
  "time_units =
     [(''ns'', 1), (''us'', 1000), ([CHR 0xC2, CHR 0xB5, CHR ''s''], 1000), ([CHR 0xCE, CHR 0xBC, CHR ''s''], 1000),
      (''ms'', 1000000), (''s'', 1000000000), (''m'', 60000000000), (''h'', 3600000000000)]"

definition number_char :: "char \<Rightarrow> bool" where
  "number_char c \<longleftrightarrow> is_digit c \<or> c = CHR ''.''"

definition fraction_split :: "string \<Rightarrow> string \<times> string" where
  "fraction_split s =
     (case s of
        [] \<Rightarrow> ([], [])
      | c # cs \<Rightarrow> if c = CHR ''.'' then (takeWhile is_digit cs, dropWhile is_digit cs) else ([], s))"

lemma fraction_split_le: "length (snd (fraction_split s)) \<le> length s"
proof (cases s)
  case (Cons c cs)
  then show ?thesis using length_dropWhile_le [of is_digit cs] by (simp add: fraction_split_def)
qed (simp add: fraction_split_def)

text \<open>One number with its unit, and the rest of the text.\<close>

definition duration_part :: "string \<Rightarrow> (nat \<times> string) option" where
  "duration_part s =
     (let whole = takeWhile is_digit s; s1 = dropWhile is_digit s;
          (frac, s2) = fraction_split s1;
          unit_text = takeWhile (\<lambda>c. \<not> number_char c) s2; rest = dropWhile (\<lambda>c. \<not> number_char c) s2
      in if whole = [] \<and> frac = [] then None
         else case map_of time_units unit_text of
                None \<Rightarrow> None
              | Some u \<Rightarrow>
                  let v = val_dec whole * u + val_dec frac * u div 10 ^ length frac
                  in if 2 ^ 63 < v then None else Some (v, rest))"

lemma duration_part_shorter: "duration_part s = Some (v, rest) \<Longrightarrow> length rest < length s"
proof -
  assume p: "duration_part s = Some (v, rest)"
  obtain frac s2 where f: "fraction_split (dropWhile is_digit s) = (frac, s2)" by fastforce
  have rest: "rest = dropWhile (\<lambda>c. \<not> number_char c) s2" "map_of time_units (takeWhile (\<lambda>c. \<not> number_char c) s2) \<noteq> None"
    using p by (auto simp: duration_part_def Let_def f split: if_splits option.splits)
  then have "takeWhile (\<lambda>c. \<not> number_char c) s2 \<noteq> []" by (auto simp: time_units_def)
  then have "length rest < length s2"
    unfolding rest(1) by (metis length_append length_greater_0_conv less_add_same_cancel2 takeWhile_dropWhile_id)
  also have "length s2 \<le> length (dropWhile is_digit s)"
    using fraction_split_le [of "dropWhile is_digit s"] f by simp
  also have "\<dots> \<le> length s" by (rule length_dropWhile_le)
  finally show ?thesis .
qed

function duration_parts :: "nat \<Rightarrow> string \<Rightarrow> nat option" where
  "duration_parts acc s =
     (if s = [] then Some acc
      else case duration_part s of
             None \<Rightarrow> None
           | Some (v, rest) \<Rightarrow> if 2 ^ 63 < acc + v then None else duration_parts (acc + v) rest)"
  by pat_completeness auto
termination by (relation "measure (\<lambda>(acc, s). length s)") (auto dest: duration_part_shorter)

declare duration_parts.simps [simp del]

definition parse_go_duration :: "string \<Rightarrow> duration option" where
  "parse_go_duration s =
     (let neg = (case s of c # cs \<Rightarrow> c = CHR ''-'' | [] \<Rightarrow> False);
          t = (case s of c # cs \<Rightarrow> if c = CHR ''-'' \<or> c = CHR ''+'' then cs else s | [] \<Rightarrow> s)
      in if t = ''0'' then Some 0
         else if t = [] then None
         else case duration_parts 0 t of
                None \<Rightarrow> None
              | Some d \<Rightarrow> if neg then Some (- int d) else if 2 ^ 63 - 1 < int d then None else Some (int d))"

lemma duration_parts_bound: "acc \<le> 2 ^ 63 \<Longrightarrow> duration_parts acc s = Some d \<Longrightarrow> d \<le> 2 ^ 63"
proof (induction acc s rule: duration_parts.induct)
  case (1 acc s)
  then show ?case
    by (auto simp: duration_parts.simps [of acc s] not_less split: if_splits option.splits)
qed

lemma parse_go_duration_range: "parse_go_duration s = Some d \<Longrightarrow> in_int64 d"
proof -
  define t where "t = (case s of c # cs \<Rightarrow> if c = CHR ''-'' \<or> c = CHR ''+'' then cs else s | [] \<Rightarrow> s)"
  assume p: "parse_go_duration s = Some d"
  then consider "d = 0" | n where "duration_parts 0 t = Some n" "d = - int n" | n where "d = int n" "int n \<le> 2 ^ 63 - 1"
    unfolding parse_go_duration_def Let_def t_def [symmetric] by (auto split: if_splits option.splits)
  then show ?thesis
  proof cases
    case (2 n)
    then have "int n \<le> int (2 ^ 63)" using duration_parts_bound [of 0 t n] by (simp only: of_nat_le_iff le0)
    then show ?thesis using 2 by (simp add: in_int64_def)
  qed (simp_all add: in_int64_def)
qed

end
