(* ===== verification/Api.thy ===== *)
theory Api
  imports Maintenance Go_Time Ebpf_Control Containers
begin

text \<open>
  The HTTP interface: its parameters (\<open>internal/api/params.go\<close>), its routes and the read-only mode
  (\<open>server.go\<close>, \<open>ui.go\<close>), and its handlers (\<open>handlers.go\<close>, \<open>processes.go\<close>, \<open>events.go\<close>; those of the
  diagnostics are in the theory of that name).  A request is its method, its path cut at the slashes and
  its query; what the outside answers while it is served (the clock, the injector, the database engine)
  is the record of its surroundings.  A reply is its status and what it is the JSON of.
\<close>

section \<open>Parameters\<close>

definition default_range :: duration where "default_range = hour"
definition max_range :: duration where "max_range = 30 * 24 * hour"

text \<open>An RFC 3339 time is read by the argument \<open>rfc\<close>.\<close>

definition absolute_time :: "(string \<Rightarrow> gotime option) \<Rightarrow> string \<Rightarrow> gotime \<Rightarrow> gotime" where
  "absolute_time rfc raw fallback =
     (case rfc raw of
        Some t \<Rightarrow> t
      | None \<Rightarrow>
          (case atoi raw of
             Some secs \<Rightarrow> if 1000000000000 < secs then secs * millisecond else secs * second
           | None \<Rightarrow> fallback))"

definition offset_time :: "(string \<Rightarrow> gotime option) \<Rightarrow> string \<Rightarrow> gotime \<Rightarrow> gotime \<Rightarrow> gotime" where
  "offset_time rfc raw now fallback =
     (if has_prefix raw ''-'' \<or> has_prefix raw ''+''
      then case parse_go_duration raw of Some d \<Rightarrow> now + d | None \<Rightarrow> absolute_time rfc raw fallback
      else absolute_time rfc raw fallback)"

definition parse_time :: "(string \<Rightarrow> gotime option) \<Rightarrow> string \<Rightarrow> gotime \<Rightarrow> gotime \<Rightarrow> gotime" where
  "parse_time rfc raw0 now fallback =
     (let raw = trim_space raw0
      in if raw = [] then fallback
         else case cut_prefix raw ''now'' of
                Some offset \<Rightarrow> if offset = [] then now else offset_time rfc offset now fallback
              | None \<Rightarrow> offset_time rfc raw now fallback)"

definition parse_time_range :: "(string \<Rightarrow> gotime option) \<Rightarrow> gotime \<Rightarrow> (string \<rightharpoonup> string) \<Rightarrow> time_range" where
  "parse_time_range rfc now q =
     (let to = parse_time rfc (get_str q ''to'') now now;
          from0 = parse_time rfc (get_str q ''from'') now (to - default_range);
          from1 = (if \<not> from0 < to then to - default_range else from0);
          from2 = (if max_range < time_sub to from1 then to - max_range else from1)
      in \<lparr>rg_from = from2, rg_to = to\<rparr>)"

definition parse_duration :: "string \<Rightarrow> duration \<Rightarrow> duration" where
  "parse_duration raw fallback =
     (if raw = [] then fallback
      else case (case parse_go_duration raw of Some d \<Rightarrow> if 0 < d then Some d else None | None \<Rightarrow> None) of
             Some d \<Rightarrow> d
           | None \<Rightarrow>
               (case atoi raw of
                  Some ms \<Rightarrow> if 0 < ms then wrap64 (ms * millisecond) else fallback
                | None \<Rightarrow> fallback))"

definition parse_trace_filter :: "(string \<Rightarrow> gotime option) \<Rightarrow> gotime \<Rightarrow> (string \<rightharpoonup> string) \<Rightarrow> trace_filter" where
  "parse_trace_filter rfc now q =
     \<lparr>tf_range = parse_time_range rfc now q, tf_service = get_str q ''service'', tf_operation = get_str q ''operation'',
      tf_min = parse_duration (get_str q ''min_duration'') 0, tf_max = parse_duration (get_str q ''max_duration'') 0,
      tf_only_errors = (get_str q ''status'' = ''error''),
      tf_http_status = (case atoi (get_str q ''http_status'') of Some v \<Rightarrow> v | None \<Rightarrow> 0),
      tf_search = get_str q ''search'',
      tf_limit = (case atoi (get_str q ''limit'') of Some v \<Rightarrow> v | None \<Rightarrow> 0)\<rparr>"

section \<open>Routes\<close>

datatype endpoint = Health | SelfReport | ListJVMs | ListProcesses | GetJVM string | ListDumps string | CompareDumps
  | GetDump string | GetDumpRaw string | ListServices | ListOperations string | ServiceSeries string | AllSeries
  | ListMetrics | QueryMetrics | SearchTraces | OpenTrace string | DependencyMap | EventStream
  | AttachJVM string | DisableJVM string | EnableJVM string | CollectDump string string | WebUi

datatype segment = Lit string | Any

fun match_path :: "segment list \<Rightarrow> string list \<Rightarrow> string list option" where
  "match_path [] [] = Some []"
| "match_path (Lit l # ps) (s # ss) = (if l = s then match_path ps ss else None)"
| "match_path (Any # ps) (s # ss) = (if s = [] then None else map_option ((#) s) (match_path ps ss))"
| "match_path _ _ = None"

type_synonym route_table = "(segment list \<times> (string list \<Rightarrow> endpoint)) list"

definition read_routes :: route_table where
  "read_routes =
     [([Lit ''health''], \<lambda>v. Health),
      ([Lit ''self''], \<lambda>v. SelfReport),
      ([Lit ''jvms''], \<lambda>v. ListJVMs),
      ([Lit ''processes''], \<lambda>v. ListProcesses),
      ([Lit ''jvms'', Any], \<lambda>v. GetJVM (v ! 0)),
      ([Lit ''jvms'', Any, Lit ''diagnostics''], \<lambda>v. ListDumps (v ! 0)),
      ([Lit ''diagnostics'', Lit ''compare''], \<lambda>v. CompareDumps),
      ([Lit ''diagnostics'', Any], \<lambda>v. GetDump (v ! 0)),
      ([Lit ''diagnostics'', Any, Lit ''raw''], \<lambda>v. GetDumpRaw (v ! 0)),
      ([Lit ''services''], \<lambda>v. ListServices),
      ([Lit ''services'', Any, Lit ''operations''], \<lambda>v. ListOperations (v ! 0)),
      ([Lit ''services'', Any, Lit ''timeseries''], \<lambda>v. ServiceSeries (v ! 0)),
      ([Lit ''timeseries''], \<lambda>v. AllSeries),
      ([Lit ''metrics''], \<lambda>v. ListMetrics),
      ([Lit ''metrics'', Lit ''query''], \<lambda>v. QueryMetrics),
      ([Lit ''traces''], \<lambda>v. SearchTraces),
      ([Lit ''traces'', Any], \<lambda>v. OpenTrace (v ! 0)),
      ([Lit ''dependencies''], \<lambda>v. DependencyMap),
      ([Lit ''events''], \<lambda>v. EventStream)]"

definition write_routes :: route_table where
  "write_routes =
     [([Lit ''jvms'', Any, Lit ''attach''], \<lambda>v. AttachJVM (v ! 0)),
      ([Lit ''jvms'', Any, Lit ''disable''], \<lambda>v. DisableJVM (v ! 0)),
      ([Lit ''jvms'', Any, Lit ''enable''], \<lambda>v. EnableJVM (v ! 0)),
      ([Lit ''jvms'', Any, Lit ''diagnostics'', Any], \<lambda>v. CollectDump (v ! 0) (v ! 1))]"

fun find_route :: "route_table \<Rightarrow> string list \<Rightarrow> endpoint option" where
  "find_route [] segs = None"
| "find_route ((pat, e) # rest) segs =
     (case match_path pat segs of Some v \<Rightarrow> Some (e v) | None \<Rightarrow> find_route rest segs)"

text \<open>A method no pattern is registered for falls to the catch-all, the web interface.\<close>

definition route_endpoint :: "bool \<Rightarrow> string \<Rightarrow> string list \<Rightarrow> endpoint" where
  "route_endpoint locked verb segs =
     (if take 2 segs = [''api'', ''v1'']
      then let found = (if verb \<in> {''GET'', ''HEAD''} then find_route read_routes (drop 2 segs)
                        else if verb = ''POST'' \<and> \<not> locked then find_route write_routes (drop 2 segs) else None)
           in (case found of Some e \<Rightarrow> e | None \<Rightarrow> WebUi)
      else WebUi)"

section \<open>State, surroundings, replies\<close>

record api_state =
  as_manager :: "manager option"
  as_client :: bool
  as_db :: database
  as_processes :: "runtime_registry option"
  as_containers :: "resolver option"
  as_read_only :: bool

record surroundings =
  en_now :: gotime
  en_later :: gotime
  en_rfc :: "string \<Rightarrow> gotime option"
  en_cast :: "rat \<Rightarrow> int"
  en_pick :: "nat \<Rightarrow> bytes list \<Rightarrow> bytes list"
  en_dec :: "string \<Rightarrow> (string \<rightharpoonup> string) option"
  en_db_ok :: bool
  en_size :: "unit + nat"
  en_inject :: "jvm \<Rightarrow> string + inject_result"
  en_command :: "jvm \<Rightarrow> diag_kind \<Rightarrow> runner_error + dump"
  en_client_gone :: bool
  en_fresh_id :: string
  en_files :: "string \<Rightarrow> bool"

record request =
  rq_verb :: string
  rq_path :: "string list"
  rq_query :: "string \<rightharpoonup> string"

datatype api_reply = Failed nat string | HealthReply | SelfReply "string list option" "storage_stats option"
  | JvmList "tracked list" | OneJvm tracked | ProcessList "(watched_process \<times> info option) list"
  | ServiceTable time_range "service_stats list" | OperationTable time_range "operation_stats list"
  | Points time_range "series_point list" | MetricTable time_range "metric_name list" string
  | SeriesTable time_range "metric_series list" string string | TraceTable time_range "trace_summary list"
  | OneTrace trace | EdgeTable time_range "dependency list" | DumpReply reply | Streaming "tracked list option"
  | UiFile string string | UiShell

definition dump_status :: "reply \<Rightarrow> nat" where
  "dump_status r =
     (case r of NotImplemented \<Rightarrow> 501 | BadRequest \<Rightarrow> 400 | NotFound \<Rightarrow> 404 | BadGateway \<Rightarrow> 502 | ServerError \<Rightarrow> 500 | _ \<Rightarrow> 200)"

definition reply_status :: "api_reply \<Rightarrow> nat" where
  "reply_status r = (case r of Failed n msg \<Rightarrow> n | DumpReply d \<Rightarrow> dump_status d | _ \<Rightarrow> 200)"

section \<open>Handlers\<close>

text \<open>The processes; the order of the list is left out.\<close>

definition list_jvms :: "api_state \<Rightarrow> api_reply" where
  "list_jvms s = JvmList (case as_manager s of None \<Rightarrow> [] | Some m \<Rightarrow> map snd (m_entries m))"

text \<open>\<open>requirePID\<close>: the manager and the process meant, or the refusal.\<close>

definition require_pid :: "api_state \<Rightarrow> string \<Rightarrow> api_reply + manager \<times> int" where
  "require_pid s raw =
     (case as_manager s of
        None \<Rightarrow> Inl (Failed 501 ''this apm2go instance does not manage JVMs (mode is not 'all' or 'agent')'')
      | Some m \<Rightarrow> (case parse_pid raw of None \<Rightarrow> Inl (Failed 400 ''invalid pid'') | Some p \<Rightarrow> Inr (m, p)))"

definition no_process :: "int \<Rightarrow> api_reply" where
  "no_process p = Failed 404 (''no running JVM tracked with pid '' @ itoa p)"

definition get_jvm :: "api_state \<Rightarrow> string \<Rightarrow> api_reply" where
  "get_jvm s raw =
     (case require_pid s raw of
        Inl r \<Rightarrow> r
      | Inr (m, p) \<Rightarrow> (case get_entry m p of None \<Rightarrow> no_process p | Some e \<Rightarrow> OneJvm e))"

text \<open>\<open>Manager.Attach\<close> from beginning to end, when nothing comes between.\<close>

definition attach_now :: "(jvm \<Rightarrow> string + inject_result) \<Rightarrow> gotime \<Rightarrow> manager \<Rightarrow> int \<Rightarrow> manager \<times> tracked option" where
  "attach_now inject later m p =
     (case key_for_pid m p of
        None \<Rightarrow> (m, None)
      | Some k \<Rightarrow>
     (case entry_of m k of
        None \<Rightarrow> (m, None)
      | Some e \<Rightarrow>
     (case attach_begin (put_entry k (e\<lparr>e_attempts := 0, e_manual := False\<rparr>) m) k of
        (m1, Some refusal) \<Rightarrow> (m1, get_entry m1 p)
      | (m1, None) \<Rightarrow>
          (case entry_of m1 k of
             None \<Rightarrow> (m1, get_entry m1 p)
           | Some e1 \<Rightarrow>
               (let m2 = attach_end m1 k (e_attempts e1) (inject (e_jvm e1)) later in (m2, get_entry m2 p))))))"

definition attach_jvm :: "surroundings \<Rightarrow> api_state \<Rightarrow> string \<Rightarrow> api_state \<times> api_reply" where
  "attach_jvm env s raw =
     (case require_pid s raw of
        Inl r \<Rightarrow> (s, r)
      | Inr (m, p) \<Rightarrow>
          (case attach_now (en_inject env) (en_later env) m p of
             (m', None) \<Rightarrow> (s\<lparr>as_manager := Some m'\<rparr>, no_process p)
           | (m', Some e) \<Rightarrow> (s\<lparr>as_manager := Some m'\<rparr>, OneJvm e)))"

definition set_manual_handler :: "api_state \<Rightarrow> string \<Rightarrow> bool \<Rightarrow> api_state \<times> api_reply" where
  "set_manual_handler s raw manual =
     (case require_pid s raw of
        Inl r \<Rightarrow> (s, r)
      | Inr (m, p) \<Rightarrow>
          (case set_manual_only m p manual of
             None \<Rightarrow> (s, no_process p)
           | Some m' \<Rightarrow> (s\<lparr>as_manager := Some m'\<rparr>, (case get_entry m' p of None \<Rightarrow> no_process p | Some e \<Rightarrow> OneJvm e))))"

text \<open>The containers of the watched processes are looked up one after the other.\<close>

fun with_containers_of :: "gotime \<Rightarrow> gotime \<Rightarrow> resolver option \<Rightarrow> watched_process list \<Rightarrow>
    resolver option \<times> (watched_process \<times> info option) list" where
  "with_containers_of now later ro [] = (ro, [])"
| "with_containers_of now later ro (w # ws) =
     (case (if wp_container w \<noteq> [] \<and> ro \<noteq> None then resolve now later ro (wp_container w) else (ro, None)) of
        (ro1, i) \<Rightarrow> (case with_containers_of now later ro1 ws of (ro2, out) \<Rightarrow> (ro2, (w, i) # out)))"

definition list_processes :: "surroundings \<Rightarrow> api_state \<Rightarrow> api_state \<times> api_reply" where
  "list_processes env s =
     (case as_processes s of
        None \<Rightarrow> (s, ProcessList [])
      | Some r \<Rightarrow>
          (case with_containers_of (en_now env) (en_later env) (as_containers s) (registry_snapshot r) of
             (ro, out) \<Rightarrow> (s\<lparr>as_containers := ro\<rparr>, ProcessList out)))"

definition host_service :: string where "host_service = ''__host__''"

text \<open>A query against the store; when the engine fails, the browser is told no more than what failed.\<close>

definition queried :: "surroundings \<Rightarrow> string \<Rightarrow> api_reply \<Rightarrow> api_reply" where
  "queried env what r = (if en_db_ok env then r else Failed 500 (''could not '' @ what))"

definition the_range :: "surroundings \<Rightarrow> request \<Rightarrow> time_range" where
  "the_range env rq = parse_time_range (en_rfc env) (en_now env) (rq_query rq)"

definition services_handler :: "surroundings \<Rightarrow> api_state \<Rightarrow> request \<Rightarrow> api_reply" where
  "services_handler env s rq =
     queried env ''list services''
       (ServiceTable (the_range env rq) (list_services (en_cast env) (the_range env rq) (db_spans (as_db s))))"

definition operations_handler :: "surroundings \<Rightarrow> api_state \<Rightarrow> request \<Rightarrow> string \<Rightarrow> api_reply" where
  "operations_handler env s rq svc =
     queried env ''list operations''
       (OperationTable (the_range env rq) (list_operations (en_cast env) svc (the_range env rq) (db_spans (as_db s))))"

definition series_handler :: "surroundings \<Rightarrow> api_state \<Rightarrow> request \<Rightarrow> string \<Rightarrow> api_reply" where
  "series_handler env s rq svc =
     queried env ''time series''
       (Points (the_range env rq)
         (time_series (en_cast env) svc (the_range env rq) (parse_duration (get_str (rq_query rq) ''step'') 0) (db_spans (as_db s))))"

definition metric_service :: "request \<Rightarrow> string" where
  "metric_service rq = (if get_str (rq_query rq) ''service'' = [] then host_service else get_str (rq_query rq) ''service'')"

definition metric_names_handler :: "surroundings \<Rightarrow> api_state \<Rightarrow> request \<Rightarrow> api_reply" where
  "metric_names_handler env s rq =
     queried env ''list metrics''
       (MetricTable (the_range env rq) (list_metric_names (metric_service rq) (the_range env rq) (db_metrics (as_db s)))
         (metric_service rq))"

definition query_metric_handler :: "surroundings \<Rightarrow> api_state \<Rightarrow> request \<Rightarrow> api_reply" where
  "query_metric_handler env s rq =
     (let name = get_str (rq_query rq) ''name''
      in if name = [] then Failed 400 ''the name parameter is required''
         else queried env ''query metric''
           (SeriesTable (the_range env rq)
             (query_metric (en_dec env) (metric_service rq) name (the_range env rq)
               (parse_duration (get_str (rq_query rq) ''step'') 0) (db_metrics (as_db s)))
             (metric_service rq) name))"

definition search_handler :: "surroundings \<Rightarrow> api_state \<Rightarrow> request \<Rightarrow> api_reply" where
  "search_handler env s rq =
     (let f = parse_trace_filter (en_rfc env) (en_now env) (rq_query rq)
      in queried env ''search traces'' (TraceTable (tf_range f) (search_traces (en_pick env) f (db_spans (as_db s)))))"

definition trace_handler :: "surroundings \<Rightarrow> api_state \<Rightarrow> string \<Rightarrow> api_reply" where
  "trace_handler env s raw =
     (case parse_trace_id raw of
        Inl e \<Rightarrow> Failed 400 (id_error_text e)
      | Inr tid \<Rightarrow>
          queried env ''load trace''
            (case get_trace tid (db_spans (as_db s)) of
               None \<Rightarrow> Failed 404 ''trace not found; it may have passed its retention window''
             | Some t \<Rightarrow> OneTrace t))"

definition dependencies_handler :: "surroundings \<Rightarrow> api_state \<Rightarrow> request \<Rightarrow> api_reply" where
  "dependencies_handler env s rq =
     queried env ''service dependencies''
       (EdgeTable (the_range env rq) (dependencies (en_cast env) (the_range env rq) (db_spans (as_db s))))"

text \<open>Of apm2go's own report: the sources of container names and, where it can be read, the storage.\<close>

definition self_handler :: "surroundings \<Rightarrow> api_state \<Rightarrow> api_reply" where
  "self_handler env s =
     SelfReply (case as_manager s of None \<Rightarrow> None | Some m \<Rightarrow> Some (sources (as_containers s)))
       (if en_db_ok env then Some (storage_of (length (db_rollup (as_db s))) (en_size env) (db_spans (as_db s))) else None)"

definition dumps_of :: "api_state \<Rightarrow> diag_server" where
  "dumps_of s = \<lparr>ds_client = as_client s, ds_manager = as_manager s, ds_rows = Some (db_diags (as_db s))\<rparr>"

definition collect_dump :: "surroundings \<Rightarrow> api_state \<Rightarrow> string \<Rightarrow> string \<Rightarrow> api_state \<times> api_reply" where
  "collect_dump env s raw kind_text =
     (case collect_handler (en_command env) (en_client_gone env) (en_db_ok env) (en_fresh_id env) (dumps_of s) raw kind_text of
        (d, r) \<Rightarrow>
          (s\<lparr>as_db := (as_db s)\<lparr>db_diags := (case ds_rows d of None \<Rightarrow> db_diags (as_db s) | Some rows \<Rightarrow> rows)\<rparr>\<rparr>, DumpReply r))"

definition event_stream :: "api_state \<Rightarrow> api_reply" where
  "event_stream s = Streaming (case as_manager s of None \<Rightarrow> None | Some m \<Rightarrow> Some (map snd (m_entries m)))"

definition ui_reply :: "(string \<Rightarrow> bool) \<Rightarrow> string list \<Rightarrow> api_reply" where
  "ui_reply files segs =
     (let p = (if join ''/'' segs = [] then ''index.html'' else join ''/'' segs)
      in if files p then UiFile p (if has_prefix p ''assets/'' then ''public, max-age=31536000, immutable'' else ''no-cache'')
         else if has_prefix p ''api/'' then Failed 404 ''no such endpoint''
         else if files ''index.html'' then UiShell
         else Failed 500 ''web UI was not built into this binary'')"

definition answer :: "surroundings \<Rightarrow> api_state \<Rightarrow> request \<Rightarrow> endpoint \<Rightarrow> api_state \<times> api_reply" where
  "answer env s rq e =
     (case e of
        Health \<Rightarrow> (s, HealthReply)
      | SelfReport \<Rightarrow> (s, self_handler env s)
      | ListJVMs \<Rightarrow> (s, list_jvms s)
      | ListProcesses \<Rightarrow> list_processes env s
      | GetJVM raw \<Rightarrow> (s, get_jvm s raw)
      | ListDumps raw \<Rightarrow>
          (s, DumpReply (list_handler (dumps_of s) raw (get_str (rq_query rq) ''kind'') (get_str (rq_query rq) ''limit'')))
      | CompareDumps \<Rightarrow> (s, DumpReply (compare_handler (dumps_of s) (get_str (rq_query rq) ''from'') (get_str (rq_query rq) ''to'')))
      | GetDump i \<Rightarrow> (s, DumpReply (get_handler (dumps_of s) i))
      | GetDumpRaw i \<Rightarrow> (s, DumpReply (raw_handler (dumps_of s) i))
      | ListServices \<Rightarrow> (s, services_handler env s rq)
      | ListOperations svc \<Rightarrow> (s, operations_handler env s rq svc)
      | ServiceSeries svc \<Rightarrow> (s, series_handler env s rq svc)
      | AllSeries \<Rightarrow> (s, series_handler env s rq [])
      | ListMetrics \<Rightarrow> (s, metric_names_handler env s rq)
      | QueryMetrics \<Rightarrow> (s, query_metric_handler env s rq)
      | SearchTraces \<Rightarrow> (s, search_handler env s rq)
      | OpenTrace raw \<Rightarrow> (s, trace_handler env s raw)
      | DependencyMap \<Rightarrow> (s, dependencies_handler env s rq)
      | EventStream \<Rightarrow> (s, event_stream s)
      | AttachJVM raw \<Rightarrow> attach_jvm env s raw
      | DisableJVM raw \<Rightarrow> set_manual_handler s raw True
      | EnableJVM raw \<Rightarrow> set_manual_handler s raw False
      | CollectDump raw kind_text \<Rightarrow> collect_dump env s raw kind_text
      | WebUi \<Rightarrow> (s, ui_reply (en_files env) (rq_path rq)))"

definition serve :: "surroundings \<Rightarrow> api_state \<Rightarrow> request \<Rightarrow> api_state \<times> api_reply" where
  "serve env s rq = answer env s rq (route_endpoint (as_read_only s) (rq_verb rq) (rq_path rq))"

section \<open>Around the handlers\<close>

text \<open>What the access log makes of a request: nothing for the event stream, a warning for a failure.\<close>

datatype access_level = NotLogged | AtDebug | AtWarn

definition access_log :: "string \<Rightarrow> nat \<Rightarrow> access_level" where
  "access_log url_path code = (if has_suffix url_path ''/events'' then NotLogged else if 500 \<le> code then AtWarn else AtDebug)"

definition display_addr :: "string \<Rightarrow> string" where
  "display_addr addr =
     (if has_prefix addr ''0.0.0.0:'' then ''localhost:'' @ trim_prefix addr ''0.0.0.0:''
      else if has_prefix addr '':'' then ''localhost'' @ addr else addr)"


section \<open>Lemmas: routes\<close>

definition changes :: "endpoint \<Rightarrow> bool" where
  "changes e \<longleftrightarrow>
     (case e of AttachJVM _ \<Rightarrow> True | DisableJVM _ \<Rightarrow> True | EnableJVM _ \<Rightarrow> True | CollectDump _ _ \<Rightarrow> True | _ \<Rightarrow> False)"

lemma find_route_in: "find_route t segs = Some e \<Longrightarrow> \<exists>pat f v. (pat, f) \<in> set t \<and> e = f v"
proof (induction t segs rule: find_route.induct)
  case (2 pat f rest segs)
  then show ?case by (cases "match_path pat segs") (fastforce split: option.splits)+
qed simp

lemma read_routes_read: "find_route read_routes segs = Some e \<Longrightarrow> \<not> changes e"
  using find_route_in [of read_routes segs e] by (auto simp: read_routes_def changes_def)

lemma route_reads: "locked \<or> verb \<noteq> ''POST'' \<Longrightarrow> \<not> changes (route_endpoint locked verb segs)"
  using read_routes_read by (auto simp: route_endpoint_def Let_def changes_def split: option.splits)

lemma answer_reads:
  assumes "\<not> changes e"
  shows "as_manager (fst (answer env s rq e)) = as_manager s" and "as_db (fst (answer env s rq e)) = as_db s"
  using assms by (cases e; simp add: answer_def changes_def list_processes_def split: option.splits prod.splits)+

section \<open>Lemmas: ranges\<close>

lemma range_facts: "rg_from (parse_time_range rfc now q) < rg_to (parse_time_range rfc now q)"
    "rg_to (parse_time_range rfc now q) - rg_from (parse_time_range rfc now q) \<le> max_range"
  by (auto simp: parse_time_range_def Let_def default_range_def max_range_def time_sub_def min_def max_def)

lemma range_duration_exact: "range_duration (parse_time_range rfc now q) = rg_to (parse_time_range rfc now q) - rg_from (parse_time_range rfc now q)"
  using range_facts [of rfc now q] by (simp add: range_duration_def time_sub_def max_range_def)

lemma find_entry: "find P (m_entries m) = Some (k, e) \<Longrightarrow> entry_of m k \<noteq> None"
  by (auto simp: entry_of_def find_Some_iff map_of_eq_None_iff image_iff) (metis fst_conv nth_mem)

lemma get_entry_None: "get_entry m p = None \<longleftrightarrow> list_all (\<lambda>(k, e). j_pid (e_jvm e) \<noteq> p \<or> e_state e = StateExited) (m_entries m)"
proof (cases "find (\<lambda>(k, e). j_pid (e_jvm e) = p \<and> e_state e \<noteq> StateExited) (m_entries m)")
  case None
  then have "get_entry m p = None" by (simp add: get_entry_def key_for_pid_def)
  moreover have "list_all (\<lambda>(k, e). j_pid (e_jvm e) \<noteq> p \<or> e_state e = StateExited) (m_entries m)"
    using None by (auto simp: find_None_iff list_all_iff)
  ultimately show ?thesis by blast
next
  case (Some r)
  obtain k e where r: "r = (k, e)" by (cases r)
  have "entry_of m k \<noteq> None" using find_entry Some r by blast
  moreover have "(k, e) \<in> set (m_entries m)" "j_pid (e_jvm e) = p" "e_state e \<noteq> StateExited"
    using Some r by (auto simp: find_Some_iff) (metis nth_mem)
  ultimately show ?thesis using Some r by (auto simp: get_entry_def key_for_pid_def list_all_iff split: option.splits)
qed

section \<open>What the interface promises\<close>

text \<open>C12 (a read-only interface changes nothing). With the read-only setting, or without a POST, no request changes what
  is tracked, instrumented or stored, whatever its path and query.\<close>

theorem read_only_inert:
  assumes "as_read_only s \<or> rq_verb rq \<noteq> ''POST''"
  shows "as_manager (fst (serve env s rq)) = as_manager s \<and> as_db (fst (serve env s rq)) = as_db s"
  using answer_reads [OF route_reads [OF assms]] by (simp add: serve_def)

definition quiet_state :: api_state where
  "quiet_state =
     \<lparr>as_manager = None, as_client = False, as_db = empty_database, as_processes = None, as_containers = None,
      as_read_only = True\<rparr>"

definition plain_surroundings :: surroundings where
  "plain_surroundings =
     \<lparr>en_now = 100 * minute, en_later = 100 * minute, en_rfc = (\<lambda>_. None), en_cast = floor, en_pick = take, en_dec = (\<lambda>_. None),
      en_db_ok = True, en_size = Inr 0, en_inject = (\<lambda>_. Inl ''refused''), en_command = (\<lambda>_ _. Inl NoHelper),
      en_client_gone = False, en_fresh_id = ''d1'', en_files = (\<lambda>_. False)\<rparr>"

theorem read_only_inert_witness:
  "let rq = \<lparr>rq_verb = ''POST'', rq_path = [''api'', ''v1'', ''jvms'', ''7'', ''attach''], rq_query = Map.empty\<rparr>
   in as_manager (fst (serve plain_surroundings quiet_state rq)) = as_manager quiet_state \<and>
      as_db (fst (serve plain_surroundings quiet_state rq)) = as_db quiet_state"
  unfolding Let_def by (rule read_only_inert) (simp add: quiet_state_def)

text \<open>C39 (every range is usable). Whatever a request says of its times, the range it gets is not empty and at most thirty
  days long; and a chart it asks for without a step has at most 122 points.\<close>

theorem ranges_usable:
  "rg_from (the_range env rq) < rg_to (the_range env rq) \<and>
   rg_to (the_range env rq) - rg_from (the_range env rq) \<le> 30 * 24 * hour \<and>
   length (time_series cast svc (the_range env rq) (parse_duration [] 0) rows) \<le> 122"
proof -
  have "range_duration (the_range env rq) \<le> 120 * (24 * hour)"
    using range_facts(2) [of "en_rfc env" "en_now env" "rq_query rq"]
    by (simp add: the_range_def range_duration_exact max_range_def)
  from series_length [OF this] show ?thesis
    using range_facts [of "en_rfc env" "en_now env" "rq_query rq"] by (simp add: the_range_def max_range_def parse_duration_def)
qed


lemma listed_trace:
  assumes "limit_choice pick" and "t \<in> set (search_traces pick f rows)" and "list_all (\<lambda>r. length (sr_trace r) = 16) rows"
  obtains tid where "ts_trace t = hex_encode tid" "length tid = 16" "trace_rows tid rows \<noteq> []"
proof -
  obtain tid where tid: "t = summary_of rows tid" "tid \<in> wanted_traces f rows" using search_wanted [OF assms(1)] assms(2) by blast
  then obtain x where x: "x \<in> set rows" "sr_trace x = tid" by (auto simp: wanted_traces_def)
  then have "length (filter (\<lambda>r. sr_trace r = tid) rows) \<noteq> 0" by (auto simp: filter_empty_conv)
  then have "length (trace_rows tid rows) \<noteq> 0" by (simp add: trace_rows_def max_trace_spans_def)
  then have "trace_rows tid rows \<noteq> []" by simp
  moreover have "length tid = 16" using x assms(3) by (auto simp: list_all_iff)
  moreover have "ts_trace t = hex_encode tid" by (simp add: tid(1) summary_of_def summarize_def Let_def blob_hex_encode)
  ultimately show thesis using that by blast
qed

text \<open>C26 (a trace that is listed opens). The identifier a search shows is one the trace page accepts, and the page it opens
  is that trace, with at least one span.\<close>

theorem listed_trace_opens:
  assumes "limit_choice (en_pick env)" and "en_db_ok env"
    and "list_all (\<lambda>r. length (sr_trace r) = 16) (db_spans (as_db s))"
    and "search_handler env s rq = TraceTable r ts" and "t \<in> set ts"
  shows "case trace_handler env s (ts_trace t) of OneTrace tr \<Rightarrow> tr_id tr = ts_trace t \<and> tr_spans tr \<noteq> [] | _ \<Rightarrow> False"
proof -
  have "t \<in> set (search_traces (en_pick env) (parse_trace_filter (en_rfc env) (en_now env) (rq_query rq)) (db_spans (as_db s)))"
    using assms(2,4,5) by (auto simp: search_handler_def queried_def Let_def)
  from listed_trace [OF assms(1) this assms(3)] obtain tid where
    tid: "ts_trace t = hex_encode tid" "length tid = 16" "trace_rows tid (db_spans (as_db s)) \<noteq> []" .
  then show ?thesis
    using assms(2) by (simp add: trace_handler_def parse_trace_id_def parse_id_hex queried_def get_trace_def Let_def)
qed

definition shown_row :: span_row where
  "shown_row = (row_at 3)\<lparr>sr_ts := 3000000000, sr_trace := replicate 16 7\<rparr>"

definition shown_state :: api_state where
  "shown_state = quiet_state\<lparr>as_db := empty_database\<lparr>db_spans := [shown_row]\<rparr>\<rparr>"

definition any_search :: request where
  "any_search = \<lparr>rq_verb = ''GET'', rq_path = [''api'', ''v1'', ''traces''], rq_query = Map.empty\<rparr>"

lemma shown_trace: "sr_trace shown_row = replicate 16 7"
  by (simp add: shown_row_def)

definition all_traces :: trace_filter where
  "all_traces =
     \<lparr>tf_range = \<lparr>rg_from = 40 * minute, rg_to = 100 * minute\<rparr>, tf_service = [], tf_operation = [], tf_min = 0, tf_max = 0,
      tf_only_errors = False, tf_http_status = 0, tf_search = [], tf_limit = 0\<rparr>"

theorem listed_trace_opens_witness:
  "case trace_handler plain_surroundings shown_state (hex_encode (replicate 16 7)) of
     OneTrace tr \<Rightarrow> tr_id tr = hex_encode (replicate 16 7) \<and> tr_spans tr \<noteq> [] | _ \<Rightarrow> False"
proof -
  let ?t = "summarize (replicate 16 7) [shown_row]"
  have asked: "parse_trace_filter (\<lambda>_. None) (100 * minute) Map.empty = all_traces" by code_simp
  have "row_matches all_traces shown_row"
    by (simp add: row_matches_def match_conditions_def all_traces_def shown_row_def row_at_def micros_def)
  then have "search_traces take all_traces [shown_row] = [?t]"
    by (simp add: search_traces_def Let_def root_matches_def root_conditions_def all_traces_def trace_limit_def
        max_trace_limit_def candidate_multiplier_def shown_trace)
  then have found: "search_handler plain_surroundings shown_state any_search = TraceTable (tf_range all_traces) [?t]"
    unfolding search_handler_def queried_def plain_surroundings_def any_search_def shown_state_def quiet_state_def
      empty_database_def Let_def
    by (simp only: surroundings.simps request.simps api_state.simps database.simps asked if_True)
  have named: "ts_trace ?t = hex_encode (replicate 16 7)" by (simp only: summarize_def Let_def blob_hex_encode trace_summary.simps)
  have "case trace_handler plain_surroundings shown_state (ts_trace ?t) of
          OneTrace tr \<Rightarrow> tr_id tr = ts_trace ?t \<and> tr_spans tr \<noteq> [] | _ \<Rightarrow> False"
  proof (rule listed_trace_opens [OF _ _ _ found])
    show "limit_choice (en_pick plain_surroundings)" "en_db_ok plain_surroundings"
      by (simp_all add: plain_surroundings_def limit_choice_take)
    show "list_all (\<lambda>r. length (sr_trace r) = 16) (db_spans (as_db shown_state))"
      by (simp add: shown_state_def quiet_state_def empty_database_def shown_row_def)
  qed simp
  then show ?thesis unfolding named .
qed

end
