(* ===== verification/Host_Metrics.thy ===== *)
theory Host_Metrics
  imports Pipeline Api
begin

text \<open>
  The measurement of the machine (\<open>internal/hostmetrics/collector.go\<close>).  What the operating system answers in
  one pass is the record of its readings, \<open>None\<close> where a source fails; a reading is the float64 the
  library hands over, and the devices come in the order their map is iterated in.
\<close>

section \<open>One sample\<close>

record host_reading =
  hr_cpu :: "f64 list option"
  hr_memory :: "(f64 \<times> f64 \<times> f64) option"
  hr_swap :: "(f64 \<times> 64 word) option"
  hr_partitions :: "(string \<times> (f64 \<times> f64) option) list option"
  hr_disks :: "(string \<times> f64 \<times> f64) list option"
  hr_network :: "(f64 \<times> f64) list option"
  hr_load :: "(f64 \<times> f64 \<times> f64) option"

definition host_gauge :: "string \<Rightarrow> gotime \<Rightarrow> string \<Rightarrow> f64 \<Rightarrow> string \<Rightarrow> (string \<rightharpoonup> string) \<Rightarrow> metric" where
  "host_gauge host ts name v unit attrs =
     \<lparr>m_timestamp = ts, m_name = name, m_kind = KindGauge, m_service = host_service, m_host_name = host, m_pid = 0,
      m_value = v, m_count = 0, m_sum = Fin 0, m_buckets = [], m_unit = unit, m_attributes = attrs\<rparr>"

definition host_sum :: "string \<Rightarrow> gotime \<Rightarrow> string \<Rightarrow> f64 \<Rightarrow> string \<Rightarrow> (string \<rightharpoonup> string) \<Rightarrow> metric" where
  "host_sum host ts name v unit attrs = (host_gauge host ts name v unit attrs)\<lparr>m_kind := KindSum\<rparr>"

definition host_cpu_metrics :: "string \<Rightarrow> gotime \<Rightarrow> host_reading \<Rightarrow> metric list" where
  "host_cpu_metrics host ts h =
     (case hr_cpu h of
        Some (p # ps) \<Rightarrow> [host_gauge host ts ''system.cpu.utilization'' (f64_over p 100) ''1'' Map.empty]
      | _ \<Rightarrow> [])"

definition host_memory_metrics :: "string \<Rightarrow> gotime \<Rightarrow> host_reading \<Rightarrow> metric list" where
  "host_memory_metrics host ts h =
     (case hr_memory h of
        None \<Rightarrow> []
      | Some (used, available, percent) \<Rightarrow>
          [host_gauge host ts ''system.memory.usage'' used ''By'' [''state'' \<mapsto> ''used''],
           host_gauge host ts ''system.memory.usage'' available ''By'' [''state'' \<mapsto> ''available''],
           host_gauge host ts ''system.memory.utilization'' (f64_over percent 100) ''1'' Map.empty] @
          (case hr_swap h of
             None \<Rightarrow> []
           | Some (swapped, whole) \<Rightarrow>
               if 0 < whole then [host_gauge host ts ''system.swap.usage'' swapped ''By'' Map.empty] else []))"

definition partition_metrics :: "string \<Rightarrow> gotime \<Rightarrow> string \<times> (f64 \<times> f64) option \<Rightarrow> metric list" where
  "partition_metrics host ts p =
     (case snd p of
        None \<Rightarrow> []
      | Some (used, percent) \<Rightarrow>
          [host_gauge host ts ''system.filesystem.usage'' used ''By'' [''mountpoint'' \<mapsto> fst p],
           host_gauge host ts ''system.filesystem.utilization'' (f64_over percent 100) ''1'' [''mountpoint'' \<mapsto> fst p]])"

definition device_metrics :: "string \<Rightarrow> gotime \<Rightarrow> string \<times> f64 \<times> f64 \<Rightarrow> metric list" where
  "device_metrics host ts d =
     (case d of
        (device, r, w) \<Rightarrow>
          [host_sum host ts ''system.disk.io'' r ''By'' [''device'' \<mapsto> device, ''direction'' \<mapsto> ''read''],
           host_sum host ts ''system.disk.io'' w ''By'' [''device'' \<mapsto> device, ''direction'' \<mapsto> ''write'']])"

definition host_disk_metrics :: "string \<Rightarrow> gotime \<Rightarrow> host_reading \<Rightarrow> metric list" where
  "host_disk_metrics host ts h =
     (case hr_partitions h of
        None \<Rightarrow> []
      | Some ps \<Rightarrow>
          concat (map (partition_metrics host ts) ps) @
          (case hr_disks h of None \<Rightarrow> [] | Some ds \<Rightarrow> concat (map (device_metrics host ts) ds)))"

definition host_network_metrics :: "string \<Rightarrow> gotime \<Rightarrow> host_reading \<Rightarrow> metric list" where
  "host_network_metrics host ts h =
     (case hr_network h of
        Some ((received, sent) # cs) \<Rightarrow>
          [host_sum host ts ''system.network.io'' received ''By'' [''direction'' \<mapsto> ''receive''],
           host_sum host ts ''system.network.io'' sent ''By'' [''direction'' \<mapsto> ''transmit'']]
      | _ \<Rightarrow> [])"

definition host_load_metrics :: "string \<Rightarrow> gotime \<Rightarrow> host_reading \<Rightarrow> metric list" where
  "host_load_metrics host ts h =
     (case hr_load h of
        None \<Rightarrow> []
      | Some (l1, l5, l15) \<Rightarrow>
          [host_gauge host ts ''system.cpu.load_average.1m'' l1 ''1'' Map.empty,
           host_gauge host ts ''system.cpu.load_average.5m'' l5 ''1'' Map.empty,
           host_gauge host ts ''system.cpu.load_average.15m'' l15 ''1'' Map.empty])"

definition host_sample :: "string \<Rightarrow> gotime \<Rightarrow> host_reading \<Rightarrow> metric list" where
  "host_sample host now h =
     host_cpu_metrics host now h @ host_memory_metrics host now h @ host_disk_metrics host now h @
     host_network_metrics host now h @ host_load_metrics host now h"

text \<open>\<open>collect\<close>: an empty sample is not handed over.  The arrivals are those of its metrics at the pipeline.\<close>

definition host_collect :: "string \<Rightarrow> gotime \<Rightarrow> host_reading \<Rightarrow> arrival \<Rightarrow> pipeline \<Rightarrow> pipeline \<times> bool" where
  "host_collect host now h a p =
     (if host_sample host now h = [] then (p, False)
      else consume_metrics p (map (Pair a) (host_sample host now h)))"

definition host_interval :: "duration \<Rightarrow> duration" where
  "host_interval i = (if i \<le> 0 then 15 * second else i)"

section \<open>Lemmas\<close>

lemmas host_metric_defs = host_cpu_metrics_def host_memory_metrics_def host_disk_metrics_def host_network_metrics_def
  host_load_metrics_def partition_metrics_def device_metrics_def host_sum_def host_gauge_def

definition host_metric :: "string \<Rightarrow> gotime \<Rightarrow> metric \<Rightarrow> bool" where
  "host_metric host now m \<longleftrightarrow>
     m_service m = host_service \<and> m_host_name m = host \<and> m_timestamp m = now \<and> m_buckets m = []"

lemma host_sample_ok: "m \<in> set (host_sample host now h) \<Longrightarrow> host_metric host now m"
  by (auto simp: host_sample_def host_metric_defs host_metric_def split: option.splits list.splits if_splits)

lemma host_sample_encodable: "list_all encodable (host_sample host now h)"
  using host_sample_ok by (fastforce simp: list_all_iff encodable_def host_metric_def)

lemma listed_names:
  "mn_name ` set (list_metric_names svc r rows) = mr_name ` {m \<in> set rows. Span_Store.in_range r (mr_ts m) \<and> mr_service m = svc}"
proof -
  have "mn_name ` set (list_metric_names svc r rows) =
        fst ` set (group_by mr_name (filter (\<lambda>m. Span_Store.in_range r (mr_ts m) \<and> mr_service m = svc) rows))"
    by (simp add: list_metric_names_def image_image case_prod_beta)
  then show ?thesis by auto
qed

lemma written_metrics:
  "list_all encodable ms \<Longrightarrow> fst (write_metrics enc Flushed ms rows) = rows @ map (\<lambda>m. the (metric_row_of enc m)) ms"
  by (simp add: write_metrics_def metric_rows list_all_iff filter_id_conv)

lemma row_identity:
  "m_buckets m = [] \<Longrightarrow> mr_name (the (metric_row_of enc m)) = m_name m \<and> mr_service (the (metric_row_of enc m)) = m_service m \<and>
     mr_ts (the (metric_row_of enc m)) = micros (m_timestamp m)"
  by (simp add: metric_row_of_def)

text \<open>The names of the metrics, by source.\<close>

definition names_of_cpu :: "string set" where "names_of_cpu = {''system.cpu.utilization''}"

definition names_of_memory :: "string set" where
  "names_of_memory = {''system.memory.usage'', ''system.memory.utilization'', ''system.swap.usage''}"

definition names_of_disk :: "string set" where
  "names_of_disk = {''system.filesystem.usage'', ''system.filesystem.utilization'', ''system.disk.io''}"

definition names_of_network :: "string set" where "names_of_network = {''system.network.io''}"

definition names_of_load :: "string set" where
  "names_of_load = {''system.cpu.load_average.1m'', ''system.cpu.load_average.5m'', ''system.cpu.load_average.15m''}"

lemmas host_name_defs = names_of_cpu_def names_of_memory_def names_of_disk_def names_of_network_def names_of_load_def

lemma host_names_apart:
   "names_of_cpu \<inter> names_of_memory = {}" "names_of_cpu \<inter> names_of_network = {}" "names_of_cpu \<inter> names_of_load = {}"
    "names_of_memory \<inter> names_of_cpu = {}" "names_of_memory \<inter> names_of_network = {}" "names_of_memory \<inter> names_of_load = {}"
    "names_of_disk \<inter> names_of_cpu = {}" "names_of_disk \<inter> names_of_memory = {}" "names_of_disk \<inter> names_of_network = {}" "names_of_disk \<inter> names_of_load = {}"
    "names_of_network \<inter> names_of_cpu = {}" "names_of_network \<inter> names_of_memory = {}" "names_of_network \<inter> names_of_load = {}"
    "names_of_load \<inter> names_of_cpu = {}" "names_of_load \<inter> names_of_memory = {}" "names_of_load \<inter> names_of_network = {}"
  by (simp_all add: host_name_defs)

lemma host_names:
  "m_name ` set (host_cpu_metrics host ts h) \<subseteq> names_of_cpu"
  "m_name ` set (host_memory_metrics host ts h) \<subseteq> names_of_memory"
  "m_name ` set (host_disk_metrics host ts h) \<subseteq> names_of_disk"
  "m_name ` set (host_network_metrics host ts h) \<subseteq> names_of_network"
  "m_name ` set (host_load_metrics host ts h) \<subseteq> names_of_load"
  by (auto simp: host_metric_defs host_name_defs split: option.splits list.splits if_splits)

lemma filter_names:
  "m_name ` set xs \<subseteq> A \<Longrightarrow> A \<inter> N = {} \<Longrightarrow> filter (\<lambda>m. m_name m \<notin> N) xs = xs"
  "m_name ` set xs \<subseteq> A \<Longrightarrow> A \<subseteq> N \<Longrightarrow> filter (\<lambda>m. m_name m \<notin> N) xs = []"
  by (fastforce simp: filter_id_conv, fastforce simp: filter_empty_conv)

lemmas kept_names = host_names [THEN filter_names(1)]
lemmas dropped_names = host_names [THEN filter_names(2)]

lemma missing_source:
  "host_cpu_metrics host ts (h\<lparr>hr_memory := None\<rparr>) = host_cpu_metrics host ts h"
  "host_cpu_metrics host ts (h\<lparr>hr_network := None\<rparr>) = host_cpu_metrics host ts h"
  "host_cpu_metrics host ts (h\<lparr>hr_load := None\<rparr>) = host_cpu_metrics host ts h"
  "host_cpu_metrics host ts (h\<lparr>hr_cpu := None\<rparr>) = []"
  "host_memory_metrics host ts (h\<lparr>hr_cpu := None\<rparr>) = host_memory_metrics host ts h"
  "host_memory_metrics host ts (h\<lparr>hr_network := None\<rparr>) = host_memory_metrics host ts h"
  "host_memory_metrics host ts (h\<lparr>hr_load := None\<rparr>) = host_memory_metrics host ts h"
  "host_memory_metrics host ts (h\<lparr>hr_memory := None\<rparr>) = []"
  "host_disk_metrics host ts (h\<lparr>hr_cpu := None\<rparr>) = host_disk_metrics host ts h"
  "host_disk_metrics host ts (h\<lparr>hr_memory := None\<rparr>) = host_disk_metrics host ts h"
  "host_disk_metrics host ts (h\<lparr>hr_network := None\<rparr>) = host_disk_metrics host ts h"
  "host_disk_metrics host ts (h\<lparr>hr_load := None\<rparr>) = host_disk_metrics host ts h"
  "host_network_metrics host ts (h\<lparr>hr_cpu := None\<rparr>) = host_network_metrics host ts h"
  "host_network_metrics host ts (h\<lparr>hr_memory := None\<rparr>) = host_network_metrics host ts h"
  "host_network_metrics host ts (h\<lparr>hr_load := None\<rparr>) = host_network_metrics host ts h"
  "host_network_metrics host ts (h\<lparr>hr_network := None\<rparr>) = []"
  "host_load_metrics host ts (h\<lparr>hr_cpu := None\<rparr>) = host_load_metrics host ts h"
  "host_load_metrics host ts (h\<lparr>hr_memory := None\<rparr>) = host_load_metrics host ts h"
  "host_load_metrics host ts (h\<lparr>hr_network := None\<rparr>) = host_load_metrics host ts h"
  "host_load_metrics host ts (h\<lparr>hr_load := None\<rparr>) = []"
  by (simp_all add: host_cpu_metrics_def host_memory_metrics_def host_disk_metrics_def host_network_metrics_def
      host_load_metrics_def split: option.split prod.split)

section \<open>What is measured of the machine\<close>

text \<open>(the machine's metrics are found under its name) A sample that reaches the empty store is listed under the
  machine's name and under no other service: the names listed there are those of the sample, whatever could be
  read of the machine, and they are listed exactly in the ranges that hold the moment of the sample.\<close>

theorem host_metrics_listed:
  "mn_name ` set (list_metric_names svc r (fst (write_metrics enc Flushed (host_sample host now h) []))) =
     (if svc = host_service \<and> Span_Store.in_range r (micros now) then m_name ` set (host_sample host now h) else {})"
proof -
  have "fst (write_metrics enc Flushed (host_sample host now h) []) =
        map (\<lambda>m. the (metric_row_of enc m)) (host_sample host now h)"
    by (simp add: written_metrics host_sample_encodable)
  moreover have "mr_name x = m_name m \<and> mr_service x = host_service \<and> mr_ts x = micros now"
    if "m \<in> set (host_sample host now h)" "x = the (metric_row_of enc m)" for m x
    using that host_sample_ok [OF that(1)] row_identity [of m enc] by (simp add: host_metric_def)
  ultimately have "set (fst (write_metrics enc Flushed (host_sample host now h) [])) =
      (\<lambda>m. the (metric_row_of enc m)) ` set (host_sample host now h)"
    "\<And>m. m \<in> set (host_sample host now h) \<Longrightarrow> mr_name (the (metric_row_of enc m)) = m_name m \<and>
       mr_service (the (metric_row_of enc m)) = host_service \<and> mr_ts (the (metric_row_of enc m)) = micros now"
    by simp_all
  moreover have "{x \<in> f ` S. P x} = f ` {m \<in> S. P (f m)}" for f :: "metric \<Rightarrow> metric_row" and S P by auto
  ultimately show ?thesis by (auto simp: listed_names image_image)
qed

text \<open>(a source that fails costs only its own metrics) Whatever of the readings is missing, the rest of the sample is
  what it would have been.\<close>

theorem failure_is_contained:
  "host_sample host now (h\<lparr>hr_cpu := None\<rparr>) = filter (\<lambda>m. m_name m \<notin> names_of_cpu) (host_sample host now h) \<and>
   host_sample host now (h\<lparr>hr_memory := None\<rparr>) = filter (\<lambda>m. m_name m \<notin> names_of_memory) (host_sample host now h) \<and>
   host_sample host now (h\<lparr>hr_network := None\<rparr>) = filter (\<lambda>m. m_name m \<notin> names_of_network) (host_sample host now h) \<and>
   host_sample host now (h\<lparr>hr_load := None\<rparr>) = filter (\<lambda>m. m_name m \<notin> names_of_load) (host_sample host now h)"
  by (simp add: host_sample_def missing_source kept_names dropped_names host_names_apart)

text \<open>(the machine's name is not reserved) The collector calls its service name one that cannot collide.  It goes
  through the same ceiling as the names clients send: when these have filled it, the machine's metrics are
  filed under the overflow label.\<close>

theorem host_name_collapses:
  "let g = new_cardinality_guard 1 0
   in snd (guard_service (fst (guard_service g ''shop'')) host_service) = overflow_label"
  by code_simp

end
