(* ===== verification/Daemon.thy ===== *)
theory Daemon
  imports Host_Metrics Receiver Injector
begin

text \<open>
  The program as a whole: what it stages on disk (\<open>internal/assets\<close>, \<open>internal/attachhelper\<close>), which components
  it starts in which mode (\<open>cmd/apm2go/run.go\<close>), how it runs and stops them (\<open>internal/app/app.go\<close>), and its
  other commands (\<open>root.go\<close>, \<open>list.go\<close>, \<open>healthcheck.go\<close>).  SHA-256 is the argument \<open>sha\<close>, which gives the
  digest in hexadecimal.
\<close>

section \<open>Staging\<close>

record jar =
  jar_file :: string
  jar_digest :: string
  jar_data :: string

definition load_jar :: "(string \<Rightarrow> string) \<Rightarrow> string \<Rightarrow> string option \<Rightarrow> jar option" where
  "load_jar sha base embedded =
     (case embedded of
        None \<Rightarrow> None
      | Some data \<Rightarrow>
          Some \<lparr>jar_file = base @ ''-'' @ take 8 (sha data) @ ''.jar'', jar_digest = sha data, jar_data = data\<rparr>)"

definition new_assets :: "(string \<Rightarrow> string) \<Rightarrow> string option \<Rightarrow> string option \<Rightarrow> (jar \<times> jar) option" where
  "new_assets sha boot otel =
     (case load_jar sha ''apm2go-bootstrap'' boot of
        None \<Rightarrow> None
      | Some b \<Rightarrow> map_option (Pair b) (load_jar sha ''opentelemetry-javaagent'' otel))"

definition jar_sound :: "jar \<Rightarrow> bool" where
  "jar_sound j \<longleftrightarrow> 4 \<le> length (jar_data j) \<and> jar_data j ! 0 = CHR ''P'' \<and> jar_data j ! 1 = CHR ''K''"

definition verify_assets :: "jar \<times> jar \<Rightarrow> bool" where
  "verify_assets s \<longleftrightarrow> jar_sound (fst s) \<and> jar_sound (snd s)"

text \<open>A directory of the host: the contents and the mode of a file.\<close>

type_synonym directory = "string \<rightharpoonup> string \<times> nat"

datatype stage_error = NoDirectory | NoMode | NoTemp | ShortWrite | NotClosed | NotInstalled

record stage_outcome =
  so_create :: bool
  so_written :: "nat option"
  so_close :: bool
  so_chmod :: bool
  so_rename :: bool

definition temp_mode :: nat where "temp_mode = 384"

text \<open>A file written beside its place and renamed into it: every state the directory passes through, the last
  one after the deferred removal, and the error.  \<open>r\<close> is what \<open>CreateTemp\<close> puts for the star, and
  \<open>so_written\<close> where a write stops short.\<close>

definition write_file :: "nat \<Rightarrow> string \<Rightarrow> string \<Rightarrow> string \<Rightarrow> stage_outcome \<Rightarrow> directory \<Rightarrow> directory list \<times> stage_error option" where
  "write_file mode name data r oc d =
     (let tmp = name @ ''.tmp'' @ r in
      if (case d name of Some (c, m) \<Rightarrow> length c = length data | None \<Rightarrow> False)
      then if so_chmod oc then ([d(name := map_option (\<lambda>(c, m). (c, mode)) (d name))], None) else ([d], Some NoMode)
      else if \<not> so_create oc then ([d], Some NoTemp)
      else let d1 = d(tmp \<mapsto> ([], temp_mode)); d2 = d(tmp \<mapsto> (data, temp_mode)); d3 = d(tmp \<mapsto> (data, mode)) in
      case so_written oc of
        Some n \<Rightarrow> ([d1, d(tmp \<mapsto> (take n data, temp_mode)), d(tmp := None)], Some ShortWrite)
      | None \<Rightarrow>
          if \<not> so_close oc then ([d1, d2, d(tmp := None)], Some NotClosed)
          else if \<not> so_chmod oc then ([d1, d2, d(tmp := None)], Some NoMode)
          else if \<not> so_rename oc then ([d1, d2, d3, d(tmp := None)], Some NotInstalled)
          else ([d1, d2, d3, d(tmp := None, name \<mapsto> (data, mode))], None))"

definition write_jar :: "jar \<Rightarrow> string \<Rightarrow> stage_outcome \<Rightarrow> directory \<Rightarrow> directory list \<times> stage_error option" where
  "write_jar j = write_file 420 (jar_file j) (jar_data j)"

text \<open>Both jars, the bootstrap first; \<open>dir_ok\<close> says that the directory is there and open to be searched.\<close>

definition materialize_jars ::
  "bool \<Rightarrow> jar \<times> jar \<Rightarrow> string \<Rightarrow> stage_outcome \<times> stage_outcome \<Rightarrow> directory \<Rightarrow> directory list \<times> stage_error option" where
  "materialize_jars dir_ok s r ocs d =
     (if \<not> dir_ok then ([d], Some NoDirectory)
      else case write_jar (fst s) r (fst ocs) d of
             (ds, Some e) \<Rightarrow> (ds, Some e)
           | (ds, None) \<Rightarrow> (case write_jar (snd s) r (snd ocs) (last ds) of (ds', e) \<Rightarrow> (ds @ ds', e)))"

text \<open>The attach helper, for its owner alone.\<close>

definition helper_name :: "(string \<Rightarrow> string) \<Rightarrow> string \<Rightarrow> string" where
  "helper_name sha data = ''apm2go-attach-helper-'' @ take 8 (sha data)"

definition helper_sound :: "bool \<Rightarrow> string \<Rightarrow> bool" where
  "helper_sound available data \<longleftrightarrow> available \<and> has_prefix data [CHR 0x7F, CHR ''E'', CHR ''L'', CHR ''F'']"

definition materialize_helper ::
  "(string \<Rightarrow> string) \<Rightarrow> bool \<Rightarrow> bool \<Rightarrow> string \<Rightarrow> string \<Rightarrow> stage_outcome \<Rightarrow> directory \<Rightarrow> directory list \<times> stage_error option" where
  "materialize_helper sha available dir_ok data r oc d =
     (if \<not> available \<or> \<not> dir_ok then ([d], Some NoDirectory)
      else write_file 448 (helper_name sha data) data r oc d)"

section \<open>The components of a mode\<close>

datatype part = Ingest | Otlp | Maintain | HostMetrics | JvmManager | EbpfSupervisor | ProcStats | EbpfDiscovery | ApiServer

datatype boot_error = NoDataDir | NoTokens | NoDatabase | NoAssets | BadHelper | HelperNotStaged | BadAssets
  | BadEndpoint | NoEbpfToken

record boot =
  bo_data_dir :: bool
  bo_tokens :: bool
  bo_database :: bool
  bo_assets :: "(jar \<times> jar) option"
  bo_helper :: bool
  bo_staged :: bool
  bo_ebpf_token :: bool

definition storage_parts :: "config \<Rightarrow> part list" where
  "storage_parts c = [Ingest, Otlp, Maintain] @ (if hm_enabled (host_metrics_cfg c) then [HostMetrics] else [])"

definition ebpf_parts :: "boot \<Rightarrow> config \<Rightarrow> boot_error + part list" where
  "ebpf_parts b c =
     (if \<not> (ebpf_enabled (ebpf_cfg c) \<and> runs_storage c) then Inr []
      else case Ebpf_Control.otlp_endpoint (grpc_addr (receiver_cfg c)) of
             None \<Rightarrow> Inl BadEndpoint
           | Some url \<Rightarrow> if \<not> bo_ebpf_token b then Inl NoEbpfToken else Inr [EbpfSupervisor, ProcStats, EbpfDiscovery])"

definition discovery_parts :: "boot \<Rightarrow> config \<Rightarrow> boot_error + part list" where
  "discovery_parts b c =
     (case bo_assets b of
        None \<Rightarrow> Inl NoAssets
      | Some s \<Rightarrow>
          if \<not> bo_helper b then Inl BadHelper
          else if \<not> bo_staged b then Inl HelperNotStaged
          else if \<not> verify_assets s then Inl BadAssets
          else case ebpf_parts b c of Inl e \<Rightarrow> Inl e | Inr ps \<Rightarrow> Inr (JvmManager # ps))"

definition wire :: "boot \<Rightarrow> config \<Rightarrow> boot_error + part list" where
  "wire b c =
     (if \<not> bo_data_dir b then Inl NoDataDir
      else if \<not> bo_tokens b then Inl NoTokens
      else if runs_storage c \<and> \<not> bo_database b then Inl NoDatabase
      else case (if runs_discovery c then discovery_parts b c else Inr []) of
             Inl e \<Rightarrow> Inl e
           | Inr ps \<Rightarrow> Inr ((if runs_storage c then storage_parts c else []) @ ps @ (if runs_storage c then [ApiServer] else [])))"

text \<open>\<open>DataPath\<close>.\<close>

definition data_path :: "config \<Rightarrow> string \<Rightarrow> string" where
  "data_path c p = (if has_prefix p ''/'' then p else path_join [data_dir c, p])"

section \<open>Running and stopping\<close>

text \<open>Each component runs in a goroutine of its own.  It has not begun, it runs, or it has returned; what it
  returned is nothing, the cancellation, or a failure.\<close>

datatype outcome = Clean | Interrupted | Broke string

datatype part_state = Unstarted | Up | Down outcome

record app =
  ap_parts :: "(part \<times> part_state) list"
  ap_errors :: "(part \<times> string) list"
  ap_cancelled :: bool

definition start_app :: "part list \<Rightarrow> app" where
  "start_app ps = \<lparr>ap_parts = map (\<lambda>p. (p, Unstarted)) ps, ap_errors = [], ap_cancelled = False\<rparr>"

datatype app_event = Signal | Begins nat | Returns nat outcome

definition set_part :: "nat \<Rightarrow> part_state \<Rightarrow> app \<Rightarrow> app" where
  "set_part i st a = a\<lparr>ap_parts := (ap_parts a)[i := (fst (ap_parts a ! i), st)]\<rparr>"

text \<open>\<open>None\<close> for what cannot happen.\<close>

definition app_step :: "app_event \<Rightarrow> app \<Rightarrow> app option" where
  "app_step e a =
     (case e of
        Signal \<Rightarrow> Some (a\<lparr>ap_cancelled := True\<rparr>)
      | Begins i \<Rightarrow>
          if i < length (ap_parts a) \<and> snd (ap_parts a ! i) = Unstarted then Some (set_part i Up a) else None
      | Returns i out \<Rightarrow>
          if i < length (ap_parts a) \<and> snd (ap_parts a ! i) = Up
          then Some (case out of
                 Broke msg \<Rightarrow>
                   (set_part i (Down out) a)\<lparr>ap_errors := ap_errors a @ [(fst (ap_parts a ! i), msg)], ap_cancelled := True\<rparr>
               | _ \<Rightarrow> set_part i (Down out) a)
          else None)"

fun app_run :: "app_event list \<Rightarrow> app \<Rightarrow> app option" where
  "app_run [] a = Some a"
| "app_run (e # es) a = (case app_step e a of None \<Rightarrow> None | Some a' \<Rightarrow> app_run es a')"

definition is_down :: "part_state \<Rightarrow> bool" where
  "is_down st \<longleftrightarrow> (case st of Down _ \<Rightarrow> True | _ \<Rightarrow> False)"

text \<open>\<open>Run\<close> returns once every component has: with the failures joined, nothing when there are none.\<close>

definition app_result :: "app \<Rightarrow> (part \<times> string) list option" where
  "app_result a = (if list_all (\<lambda>(p, st). is_down st) (ap_parts a) then Some (ap_errors a) else None)"

text \<open>The exit of the command: a failure counts unless a signal had come.\<close>

definition exit_code :: "bool \<Rightarrow> (part \<times> string) list \<Rightarrow> nat" where
  "exit_code signalled errs = (if errs \<noteq> [] \<and> \<not> signalled then 1 else 0)"

section \<open>Commands\<close>

definition probe_address :: "string \<Rightarrow> string" where
  "probe_address addr =
     (case split_host_port addr of
        Inl _ \<Rightarrow> addr
      | Inr (host, port) \<Rightarrow>
          join_host_port (if host \<in> {[], ''0.0.0.0'', ''::'', ''[::]''} then ''127.0.0.1'' else host) port)"

text \<open>The status the interface answers with, \<open>None\<close> where nothing answers.\<close>

definition healthcheck :: "config \<Rightarrow> (string \<Rightarrow> nat option) \<Rightarrow> bool" where
  "healthcheck c get = (get (''http://'' @ probe_address (api_addr (api_cfg c)) @ ''/api/v1/health'') = Some 200)"

definition override_flags :: "string \<Rightarrow> string \<Rightarrow> config \<Rightarrow> config" where
  "override_flags level dir c =
     (let c1 = (if level \<noteq> [] then c\<lparr>log_cfg := (log_cfg c)\<lparr>log_level := level\<rparr>\<rparr> else c)
      in if dir \<noteq> [] then c1\<lparr>data_dir := dir\<rparr> else c1)"

datatype verbosity = LevelDebug | LevelInfo | LevelWarn | LevelError

definition parse_level :: "string \<Rightarrow> verbosity" where
  "parse_level s =
     (let l = to_lower s
      in if l = ''debug'' then LevelDebug else if l = ''warn'' \<or> l = ''warning'' then LevelWarn
         else if l = ''error'' then LevelError else LevelInfo)"

definition where_it_runs :: "jvm \<Rightarrow> string" where
  "where_it_runs j =
     (case j_container j of
        Some i \<Rightarrow>
          if pod_name i \<noteq> [] then ''pod '' @ pod_name i
          else if i_name i \<noteq> [] then ''container '' @ i_name i
          else if j_in_container j then ''container'' else if j_unit j \<noteq> [] then ''unit '' @ j_unit j else ''host''
      | None \<Rightarrow> if j_in_container j then ''container'' else if j_unit j \<noteq> [] then ''unit '' @ j_unit j else ''host'')"

definition truncate_text :: "string \<Rightarrow> nat \<Rightarrow> string" where
  "truncate_text s n = (if length s \<le> n then s else take (n - 3) s @ ''...'')"

definition summarize_command :: "jvm \<Rightarrow> string" where
  "summarize_command j =
     (if j_jar_path j \<noteq> [] then ''-jar '' @ j_jar_path j
      else if j_main_class j \<noteq> [] then j_main_class j
      else truncate_text (join '' '' (j_cmdline j)) 60)"

definition list_status :: "(refusal \<Rightarrow> string) \<Rightarrow> jvm \<Rightarrow> string" where
  "list_status words j =
     (case attachable j of
        Some r \<Rightarrow> words r
      | None \<Rightarrow> if j_instrumented j then ''attachable (another agent present)'' else ''attachable'')"

definition list_row :: "(refusal \<Rightarrow> string) \<Rightarrow> jvm \<Rightarrow> string list" where
  "list_row words j =
     [itoa (j_pid j), j_service j, if j_java_version j = [] then ''unknown'' else j_java_version j,
      if j_user j = [] then itoa (j_uid j) else j_user j, where_it_runs j, list_status words j, summarize_command j]"

definition list_command :: "bool \<Rightarrow> config \<Rightarrow> jvm list \<Rightarrow> jvm list" where
  "list_command show_all c js =
     sort_key j_pid
       (if show_all then js
        else filter (filter_accept (Some \<lparr>flt_include = includes_any (discovery_cfg c), flt_exclude = excludes_any (discovery_cfg c)\<rparr>)) js)"

text \<open>The injector of the \<open>attach\<close> command: its registry is its own and empty.\<close>

definition one_shot_injector :: "config \<Rightarrow> string \<Rightarrow> disk \<Rightarrow> injector" where
  "one_shot_injector c host d =
     \<lparr>in_cfg = attach_cfg c, in_root = proc_root (discovery_cfg c), in_host = host, in_tokens = Some new_registry, in_disk = d\<rparr>"

section \<open>Lemmas\<close>

lemma write_file_states:
  assumes "x \<in> set (fst (write_file mode name data r oc d))"
  shows "map_option fst (x name) = map_option fst (d name) \<or> x name = Some (data, mode)"
  using assms by (auto simp: write_file_def Let_def map_option_case split: if_splits option.splits)

lemma write_file_done:
  assumes "snd (write_file mode name data r oc d) = None"
  shows "case last (fst (write_file mode name data r oc d)) name of
           None \<Rightarrow> False | Some (c, m) \<Rightarrow> m = mode \<and> length c = length data"
  using assms by (auto simp: write_file_def Let_def split: if_splits option.splits)

lemma set_part_facts [simp]:
  "ap_errors (set_part i st a) = ap_errors a" "ap_cancelled (set_part i st a) = ap_cancelled a"
  by (simp_all add: set_part_def)

lemma app_run_append: "app_run (es @ fs) a = (case app_run es a of None \<Rightarrow> None | Some a' \<Rightarrow> app_run fs a')"
  by (induction es arbitrary: a) (auto split: option.splits)

text \<open>The steps that are left: two for a component that has not begun, one for one that runs.\<close>

fun weight :: "part_state \<Rightarrow> nat" where
  "weight Unstarted = 2"
| "weight Up = 1"
| "weight (Down _) = 0"

definition steps_left :: "app \<Rightarrow> nat" where
  "steps_left a = sum_list (map (\<lambda>x. weight (snd x)) (ap_parts a))"

lemma sum_list_replaced:
  "i < length xs \<Longrightarrow> sum_list (map f (xs[i := y])) + f (xs ! i) = sum_list (map f xs) + (f y :: nat)"
  by (induction xs arbitrary: i) (auto split: nat.splits simp: less_Suc_eq_0_disj)

lemma steps_left_set_part:
  "i < length (ap_parts a) \<Longrightarrow> steps_left (set_part i st a) + weight (snd (ap_parts a ! i)) = steps_left a + weight st"
  using sum_list_replaced [of i "ap_parts a" "\<lambda>x. weight (snd x)"] by (simp add: steps_left_def set_part_def)

lemma steps_left_flags [simp]:
  "steps_left (a\<lparr>ap_cancelled := b\<rparr>) = steps_left a" "steps_left (a\<lparr>ap_errors := es\<rparr>) = steps_left a"
  by (simp_all add: steps_left_def)

lemma step_consumes:
  assumes "app_step e a = Some a'"
  shows "steps_left a = steps_left a' + (if e = Signal then 0 else 1)"
proof (cases e)
  case (Begins i)
  then show ?thesis using assms steps_left_set_part [of i a Up] by (auto simp: app_step_def split: if_splits)
next
  case (Returns i out)
  then show ?thesis using assms steps_left_set_part [of i a "Down out"]
    by (auto simp: app_step_def split: if_splits outcome.splits)
qed (use assms in \<open>auto simp: app_step_def\<close>)

lemma run_consumes: "app_run es a = Some a' \<Longrightarrow> steps_left a = steps_left a' + length (filter (\<lambda>e. e \<noteq> Signal) es)"
  by (induction es arbitrary: a) (auto split: option.splits dest!: step_consumes)

lemma steps_left_zero: "steps_left a = 0 \<longleftrightarrow> list_all (\<lambda>(p, st). is_down st) (ap_parts a)"
proof -
  have "weight st = 0 \<longleftrightarrow> is_down st" for st by (cases st) (simp_all add: is_down_def)
  then show ?thesis by (auto simp: steps_left_def list_all_iff)
qed

lemma steps_left_start: "steps_left (start_app ps) = 2 * length ps"
  by (induction ps) (simp_all add: steps_left_def start_app_def)

text \<open>The failures a run of events brings, by the component that failed.\<close>

definition failures :: "part list \<Rightarrow> app_event list \<Rightarrow> (part \<times> string) list" where
  "failures ps es =
     List.map_filter (\<lambda>e. case e of Returns i (Broke msg) \<Rightarrow> Some (ps ! i, msg) | _ \<Rightarrow> None) es"

lemma failures_Cons: "failures ps (e # es) = failures ps [e] @ failures ps es"
  by (simp add: failures_def List.map_filter_def)

lemma step_reports:
  assumes "app_step e a = Some a'"
  shows "map fst (ap_parts a') = map fst (ap_parts a)"
    and "ap_errors a' = ap_errors a @ failures (map fst (ap_parts a)) [e]"
    and "ap_cancelled a' \<longleftrightarrow> ap_cancelled a \<or> e = Signal \<or> failures (map fst (ap_parts a)) [e] \<noteq> []"
proof -
  have "map fst ((ap_parts a)[i := (fst (ap_parts a ! i), st)]) = map fst (ap_parts a)" if "i < length (ap_parts a)" for i st
    using that by (metis fst_conv list_update_id map_update nth_map)
  with assms show "map fst (ap_parts a') = map fst (ap_parts a)"
    by (auto simp: app_step_def set_part_def split: app_event.splits outcome.splits if_splits)
  show "ap_errors a' = ap_errors a @ failures (map fst (ap_parts a)) [e]"
    using assms by (auto simp: app_step_def failures_def List.map_filter_def split: app_event.splits outcome.splits if_splits)
  show "ap_cancelled a' \<longleftrightarrow> ap_cancelled a \<or> e = Signal \<or> failures (map fst (ap_parts a)) [e] \<noteq> []"
    using assms by (auto simp: app_step_def failures_def List.map_filter_def split: app_event.splits outcome.splits if_splits)
qed

lemma run_reports:
  "app_run es a = Some a' \<Longrightarrow>
     ap_errors a' = ap_errors a @ failures (map fst (ap_parts a)) es \<and>
     (ap_cancelled a' \<longleftrightarrow> ap_cancelled a \<or> Signal \<in> set es \<or> failures (map fst (ap_parts a)) es \<noteq> [])"
proof (induction es arbitrary: a)
  case Nil
  then show ?case by (simp add: failures_def List.map_filter_def)
next
  case (Cons e es)
  then obtain b where b: "app_step e a = Some b" "app_run es b = Some a'" by (auto split: option.splits)
  from Cons.IH [OF b(2)] step_reports [OF b(1)] show ?case by (auto simp: failures_Cons [of _ e es])
qed

lemma split_host_port_host:
  assumes "split_host_port hp = Inr (h, p)"
  shows "addr_text h"
proof -
  obtain i where i: "last_index (CHR '':'') hp = Some i"
    using assms by (auto simp: split_host_port_def split: option.splits)
  show ?thesis
  proof (cases "has_prefix hp ''[''")
    case True
    then obtain e where e: "index_where (\<lambda>x. x = CHR '']'') hp = Some e"
      using assms i by (auto simp: split_host_port_def Let_def split: option.splits if_splits)
    then have h: "h = drop 1 (take e hp)" "CHR ''['' \<notin> set (drop 1 hp)"
      using assms i True by (auto simp: split_host_port_def Let_def split: if_splits)
    have "CHR '']'' \<notin> set (take e hp)" using index_where_Some [OF e] by auto
    then have "CHR '']'' \<notin> set h" using h(1) by (auto dest: in_set_dropD)
    moreover have "CHR ''['' \<notin> set h" using h by (metis drop_take in_set_takeD)
    ultimately show ?thesis by (simp add: addr_text_def)
  next
    case False
    then have "h = take i hp" "CHR ''['' \<notin> set hp" "CHR '']'' \<notin> set hp"
      using assms i by (auto simp: split_host_port_def Let_def split: if_splits)
    then show ?thesis by (auto simp: addr_text_def dest: in_set_takeD)
  qed
qed

section \<open>What the program promises\<close>

text \<open>C38 (no half-written agent). Whatever fails while a file is staged, at every moment a process that opens it finds what
  was there before or the whole of the new file; and a staging that succeeds leaves a file of the right size
  and mode.\<close>

theorem staging_atomic:
  "list_all (\<lambda>x. map_option fst (x (jar_file j)) \<in> {map_option fst (d (jar_file j)), Some (jar_data j)})
     (fst (write_jar j r oc d)) \<and>
   (case snd (write_jar j r oc d) of
      Some e \<Rightarrow> True
    | None \<Rightarrow> (case last (fst (write_jar j r oc d)) (jar_file j) of
                 None \<Rightarrow> False | Some (c, m) \<Rightarrow> m = 420 \<and> length c = length (jar_data j)))"
  using write_file_states [of _ 420 "jar_file j" "jar_data j" r oc d] write_file_done [of 420 "jar_file j" "jar_data j" r oc d]
  by (fastforce simp: write_jar_def list_all_iff split: option.splits)

text \<open>(what a mode runs) A start that succeeds runs the receiver, the pipeline and the interface exactly where data is
  stored, the management of JVMs exactly where they are discovered, the eBPF consumers only where both are,
  and nothing twice.\<close>

theorem parts_by_mode:
  "case wire b c of
     Inl e \<Rightarrow> True
   | Inr ps \<Rightarrow>
       distinct ps \<and>
       (Otlp \<in> set ps) = runs_storage c \<and> (Ingest \<in> set ps) = runs_storage c \<and> (ApiServer \<in> set ps) = runs_storage c \<and>
       (JvmManager \<in> set ps) = runs_discovery c \<and>
       (EbpfDiscovery \<in> set ps) = (runs_storage c \<and> runs_discovery c \<and> ebpf_enabled (ebpf_cfg c)) \<and>
       (EbpfSupervisor \<in> set ps) = (EbpfDiscovery \<in> set ps) \<and> (ProcStats \<in> set ps) = (EbpfDiscovery \<in> set ps)"
  by (auto simp: wire_def storage_parts_def discovery_parts_def ebpf_parts_def split: sum.splits if_splits option.splits)

text \<open>C31 (a failure stops the program and is reported). However the components start and end, \<open>Run\<close> knows every failure,
  once and in order, and has told every component to stop exactly when a signal came or one failed.\<close>

theorem app_reports:
  assumes "app_run es (start_app ps) = Some a"
  shows "ap_errors a = failures ps es \<and> (ap_cancelled a \<longleftrightarrow> Signal \<in> set es \<or> failures ps es \<noteq> [])"
  using run_reports [OF assms] by (simp add: start_app_def o_def)

theorem app_reports_witness:
  "case app_run [Begins 1, Begins 0, Returns 1 (Broke ''disk full''), Returns 0 Interrupted] (start_app [Ingest, Otlp]) of
     None \<Rightarrow> False
   | Some a \<Rightarrow> ap_errors a = [(Otlp, ''disk full'')] \<and> ap_cancelled a \<and> app_result a = Some [(Otlp, ''disk full'')]"
proof -
  have run: "app_run [Begins 1, Begins 0, Returns 1 (Broke ''disk full''), Returns 0 Interrupted] (start_app [Ingest, Otlp]) =
    Some \<lparr>ap_parts = [(Ingest, Down Interrupted), (Otlp, Down (Broke ''disk full''))],
      ap_errors = [(Otlp, ''disk full'')], ap_cancelled = True\<rparr>"
    by code_simp
  show ?thesis using app_reports [OF run] unfolding run by (simp add: failures_def app_result_def is_down_def)
qed



text \<open>(the probe goes to the server's port) The address the health check connects to has the port the interface
  listens on and, unless it listens on every address, its host.\<close>

theorem probe_address_exact:
  "split_host_port (probe_address addr) =
     (case split_host_port addr of
        Inl e \<Rightarrow> Inl e
      | Inr (host, port) \<Rightarrow> Inr (if host \<in> {[], ''0.0.0.0'', ''::'', ''[::]''} then ''127.0.0.1'' else host, port))"
proof (cases "split_host_port addr")
  case (Inr hp)
  obtain host port where hp: "hp = (host, port)" by (cases hp)
  have "addr_text (if host \<in> {[], ''0.0.0.0'', ''::'', ''[::]''} then ''127.0.0.1'' else host)"
    using split_host_port_host Inr hp by (auto simp: addr_text_def)
  then show ?thesis
    using split_join_host_port split_host_port_port Inr hp by (simp add: probe_address_def)
qed (simp add: probe_address_def)

section \<open>Where the code and its comments part\<close>

text \<open>(an agent is never healthy) The health check asks the configured interface, which an agent does not run: nothing
  of the configuration but the address enters the check.\<close>

theorem agent_never_healthy:
  "(case wire b (c\<lparr>cfg_mode := ModeAgent\<rparr>) of Inl e \<Rightarrow> True | Inr ps \<Rightarrow> ApiServer \<notin> set ps \<and> Otlp \<notin> set ps) \<and>
   healthcheck (c\<lparr>cfg_mode := ModeAgent\<rparr>) get = healthcheck c get"
  by (auto simp: wire_def discovery_parts_def ebpf_parts_def runs_storage_def healthcheck_def
      split: sum.splits if_splits option.splits)

text \<open>(two settings without effect) Discovery cannot be switched off by its own setting, and the server an agent must be
  given to forward to is not used: neither changes which components are made.\<close>

theorem settings_without_effect:
  "wire b (c\<lparr>discovery_cfg := (discovery_cfg c)\<lparr>disc_enabled := x\<rparr>, forward_cfg := f\<rparr>) = wire b c"
proof -
  let ?c = "c\<lparr>discovery_cfg := (discovery_cfg c)\<lparr>disc_enabled := x\<rparr>, forward_cfg := f\<rparr>"
  have e: "ebpf_parts b ?c = ebpf_parts b c" and st: "storage_parts ?c = storage_parts c"
    and modes: "runs_storage ?c = runs_storage c" "runs_discovery ?c = runs_discovery c"
    by (simp_all add: ebpf_parts_def storage_parts_def runs_storage_def runs_discovery_def)
  have d: "discovery_parts b ?c = discovery_parts b c" unfolding discovery_parts_def e by (rule refl)
  show ?thesis unfolding wire_def modes st d by (rule refl)
qed

text \<open>(the manager may begin before the receiver) The comment in \<open>run.go\<close> says that ingest comes up first.  It is made
  first; the components begin in any order.\<close>

definition sound_boot :: boot where
  "sound_boot =
     \<lparr>bo_data_dir = True, bo_tokens = True, bo_database = True,
      bo_assets = Some (\<lparr>jar_file = ''a'', jar_digest = [], jar_data = ''PK..''\<rparr>, \<lparr>jar_file = ''b'', jar_digest = [], jar_data = ''PK..''\<rparr>),
      bo_helper = True, bo_staged = True, bo_ebpf_token = True\<rparr>"

theorem manager_may_begin_first:
  "(case wire sound_boot default_config of
     Inl e \<Rightarrow> False
   | Inr ps \<Rightarrow>
       (case app_run [Begins 4] (start_app ps) of
          None \<Rightarrow> False | Some a \<Rightarrow> (JvmManager, Up) \<in> set (ap_parts a) \<and> (Otlp, Unstarted) \<in> set (ap_parts a)))"
  by code_simp

text \<open>(the token of a one-shot attach stays unknown) The comment in \<open>attach.go\<close> says that the daemon attaches again with
  a token of its own.  A process that carries the marker gets none: the daemon's registry does not change, so
  what refused the token before refuses it after.\<close>

theorem one_shot_token_ignored:
  assumes "attachable j = None" and "s_properties s = Some m" and "m marker_property \<noteq> None"
  shows "fst (inject fmt s daemon j) = daemon \<and>
         (case snd (snd (inject fmt s daemon j)) of Inl e \<Rightarrow> False | Inr r \<Rightarrow> ir_already r)"
  using assms by (simp add: inject_def Let_def split: prod.splits)

end
