(* ===== verification/Spec2Isabelle.thy ===== *)
theory Spec2Isabelle
  imports Config Receiver Containers Hsperf Jvm Inventory Netns Attach Injector Diagnostics Scanner Ebpf_Control Daemon
begin

text \<open>
  A verification library for apm2go, an application performance monitor for one host.  apm2go finds the
  Java processes of the host and loads a tracing agent into them while they run, hands the other processes
  to an eBPF instrumentation program, receives what both export, keeps it in an embedded database and
  serves it to a browser.  File names below are relative to \<open>src/internal\<close> unless they begin with \<open>cmd\<close>.

  \<^bold>\<open>How to read it.\<close>  There is one theory per component.  A struct is a record, an enumeration or tagged union a
  datatype, a function or method a definition or a recursive function of about the same name that takes the
  state and returns the new one; an error return is \<open>Inl\<close> or \<open>None\<close>, a panic a value of its own.  Go's fixed-width
  integers are words, or integers with the wrap-around written out where a computation can leave the
  width; times and durations are nanoseconds; strings are lists of bytes.  What the code asks the outside
  (the file system, the kernel, a socket, the clock, random bytes, an order Go or SQL leaves open) is an
  argument or a record of answers.  Go's own library is modelled as far as it is used: \<open>Go_Strings\<close>, \<open>Go_Path\<close>,
  \<open>Go_Regexp\<close>, \<open>Go_Time\<close>, \<open>Net_Addr\<close>; so are the constructs of SQL the store uses: \<open>Tables\<close>.  A text block before a
  theorem states it; those numbered C1 to C40 are the properties of the manifest.

  \<^bold>\<open>Telemetry in.\<close>
  \<^item> \<open>Spans\<close>: \<open>model\<close>, spans, metrics and identifiers with their hexadecimal and JSON forms.
  \<^item> \<open>Config\<close>: \<open>config/config.go\<close>, defaults, environment, validation; what every loaded configuration satisfies.
  \<^item> \<open>Tokens\<close>: \<open>ingesttoken/token.go\<close> and \<open>receiver/auth.go\<close>.  A save is the list of the states the disk passes
    through, so that a crash at any point is covered.
  \<^item> \<open>Route\<close>, \<open>Convert\<close>: \<open>receiver/route.go\<close>, \<open>semconv.go\<close>, \<open>convert.go\<close>, \<open>convert_metrics.go\<close>.
  \<^item> \<open>Ingest_Limits\<close>, \<open>Pipeline\<close>: \<open>pipeline/limits.go\<close> and \<open>pipeline.go\<close>.  Exports and turns of the writer loop
    interleave as a list of events, and so do the outcomes of the store; conservation of spans holds for every list.
  \<^item> \<open>Receiver\<close>: \<open>receiver/receiver.go\<close>, \<open>http.go\<close>, \<open>binder.go\<close>.  The consumer is a locale, interpreted on the
    pipeline; the accounting of an export rests on it.

  \<^bold>\<open>Finding and instrumenting Java processes.\<close>
  \<^item> \<open>Jvm\<close>, \<open>Hsperf\<close>, \<open>Scanner\<close>: \<open>discovery\<close>, a scan of \<open>/proc\<close> and the performance data files; decoding is total but
    for the panic, which is characterised.
  \<^item> \<open>Containers\<close>, \<open>Netns\<close>: \<open>container\<close>, \<open>netns/route.go\<close>.
  \<^item> \<open>Inventory\<close>: \<open>inventory\<close>, the manager as a step relation over scans, attaches that begin and end, and
    operators; its invariant is proved by rule induction.
  \<^item> \<open>Attach\<close>, \<open>Attach_Runner\<close>: \<open>attach\<close> and \<open>cmd/apm2go-attach-helper/main.go\<close>, the protocol, the handshake, the drop
    of privileges as a sequence of system calls, and the helper process as a refinement of the direct call.
  \<^item> \<open>Injector\<close>: \<open>injector/injector.go\<close>; the rendered configuration reads back under Java's rules.

  \<^bold>\<open>Diagnostics of a process.\<close>
  \<^item> \<open>Threads\<close>, \<open>Deadlocks\<close>, \<open>Thread_Dump\<close>, \<open>Heap_Reports\<close>: \<open>jvmdiag\<close>.  The search for deadlocks is a partial function
    (it has no syntactic bound); that it returns for every list of threads and finds exactly the cycles of
    the wait-for graph are theorems.
  \<^item> \<open>Diagnostics\<close>: \<open>jvmdiag/jvmdiag.go\<close>, \<open>store/diagnostics.go\<close>, \<open>api/diagnostics.go\<close>, from the command to the page.

  \<^bold>\<open>Everything that is not Java.\<close>
  \<^item> \<open>Ebpf_Discovery\<close>, \<open>Ebpf_Targets\<close>: \<open>ebpf/discover.go\<close>, \<open>listenports.go\<close>, \<open>discoverer.go\<close>, \<open>config.go\<close>, \<open>capability.go\<close>.
  \<^item> \<open>Ebpf_Control\<close>: \<open>supervisor.go\<close> as a state machine, \<open>registry.go\<close>, \<open>self.go\<close> and \<open>procmetrics/collector.go\<close>.  A sink of
    targets is a locale, interpreted on the supervisor, the collector and the registry.
  \<^item> \<open>Host_Metrics\<close>: \<open>hostmetrics/collector.go\<close>, up to where the store lists what was sampled.

  \<^bold>\<open>The store.\<close>
  \<^item> \<open>Latency\<close>: \<open>store/histogram.go\<close>.  Bucket bounds are exact reals; that the index computed through logarithms is the
    count of bounds reached is a theorem, and the code's one rounding step at a bound is not modelled.
  \<^item> \<open>Span_Store\<close>: \<open>writer.go\<close>, \<open>query_traces.go\<close>, \<open>schema.go\<close>, \<open>store.go\<close>.  A condition of a query is its text, its arguments
    and its meaning side by side.
  \<^item> \<open>Service_Queries\<close>, \<open>Metric_Store\<close>: \<open>query_services.go\<close>, \<open>writer_metrics.go\<close>, \<open>query_metrics.go\<close>.  Sums and counts over
    groups share the locale \<open>additive\<close>.
  \<^item> \<open>Maintenance\<close>: \<open>maintenance.go\<close>.  A history of writes, passes and failed passes is an inductive relation; the
    rollup table refines the raw history for all of them.

  \<^bold>\<open>The program.\<close>
  \<^item> \<open>Api\<close>: \<open>api\<close>, parameters, routes, the read-only mode and the handlers over the state of all components.
  \<^item> \<open>Daemon\<close>: \<open>app/app.go\<close>, \<open>assets\<close>, \<open>attachhelper\<close>, \<open>logging\<close> and \<open>cmd/apm2go\<close>: staging, the components of each mode,
    their life as a list of events, and the other commands.

  \<^bold>\<open>What the lemmas show.\<close>  Nothing admitted is lost or doubled between the receiver and the store (C1, C3), a refused
  request changes nothing (C6, C11), a read-only interface changes nothing (C12); a process is instrumented at
  most once at a time, and only after ingest listens where it will export (C4, C13); the instrumentation
  process follows the discovery (C9, C10, C27); the rollups are the history, keep its percentiles and catch up
  (C2, C7, C8); what is stored, sent or rendered reads back (C5, C18, C20, C29, C37); parsers and searches return and
  are exact (C14, C15, C19, C28); queries answer what their comments promise, within bounds (C21 to C26, C32, C39);
  the program winds down and reports every failure (C30, C31).  Theorems without a number are further facts of their
  component, or show where the code departs
  from its comments or intentions; the manifest lists them as findings.

  \<^bold>\<open>Bounds.\<close>  No definition takes fuel.  Loops that are not structural have a measure, the search of \<open>Deadlocks\<close> a
  proof that it returns, and the matcher of \<open>Go_Regexp\<close> bounds repetition by the length of the text, which
  suffices since an empty round is not repeated.

  \<^bold>\<open>Not modelled.\<close>  Printing to a terminal, log lines and HTTP plumbing (JSON rendering, the frames of the event stream,
  timeouts, panic recovery in a handler) are the standard library's work.  The parsing of YAML, protobuf,
  RFC 3339 and SHA-256 are arguments.  Rounding of floating point is left out where a theorem is about sums and
  quotients: those are rational numbers, with the infinities and NaN as values of their own where the code can
  meet them.  DuckDB is the meaning of its statements; its memory limit and its files are not.  What runs under one
  lock is one step; the interleavings of steps are modelled.  \<open>version\<close> is
  constants; \<open>src/agent\<close> is Java, \<open>src/web\<close> TypeScript, \<open>src/build\<close> and \<open>src/packaging\<close> scripts.
\<close>

end
